(* ===== verification/Prelude.thy ===== *)
theory Prelude
  imports Main "HOL-Library.Word" "HOL-Library.AList"
begin

text \<open>
  What every component of the model shares: the machine types of the C++ code, the narrowing
  conversions written out on \<^typ>\<open>int\<close>, the correspondence between \<open>char\<close> and bytes,
  the decimal rendering of integers (\<open>std::to_string\<close>, \<open>std::format\<close> and
  \<open>operator<<\<close> agree on integers), and generic facts on lists and association lists.

  \<open>std::string\<close> is a sequence of bytes: it is modelled by HOL's \<^typ>\<open>string\<close>, whose
  characters are exactly the 256 byte values.  Signed machine integers are values of type
  \<^typ>\<open>int\<close>; where the code computes on them, the result is passed through
  \<open>to_int32\<close> or \<open>to_int64\<close> (two's complement).  Unsigned words on which the code works
  bitwise are HOL words.
\<close>

section \<open>Machine types\<close>

type_synonym byte = "8 word"
type_synonym u16 = "16 word"
type_synonym u32 = "32 word"
type_synonym u64 = "64 word"

named_theorems narrow_simps "conversions to a machine width are the identity within its range"
named_theorems text_simps "decimal rendering, digits and delimiters"
named_theorems byte_simps "characters, bytes and byte lists"

definition to_int32 :: "int \<Rightarrow> int" where
  "to_int32 x = signed_take_bit 31 x"

definition to_int64 :: "int \<Rightarrow> int" where
  "to_int64 x = signed_take_bit 63 x"

definition int32_max :: int where "int32_max = 2147483647"
definition int32_min :: int where "int32_min = - 2147483648"
definition int64_max :: int where "int64_max = 9223372036854775807"
definition int64_min :: int where "int64_min = - 9223372036854775808"
definition uint64_max :: int where "uint64_max = 18446744073709551615"

definition in_int32 :: "int \<Rightarrow> bool" where
  "in_int32 x \<longleftrightarrow> int32_min \<le> x \<and> x \<le> int32_max"

definition in_int64 :: "int \<Rightarrow> bool" where
  "in_int64 x \<longleftrightarrow> int64_min \<le> x \<and> x \<le> int64_max"

definition in_uint64 :: "int \<Rightarrow> bool" where
  "in_uint64 x \<longleftrightarrow> 0 \<le> x \<and> x \<le> uint64_max"

lemmas int_bounds = int32_max_def int32_min_def int64_max_def int64_min_def uint64_max_def

lemma to_int32_id [narrow_simps]: "in_int32 x \<Longrightarrow> to_int32 x = x"
  by (simp add: to_int32_def in_int32_def int_bounds signed_take_bit_int_eq_self)

lemma to_int64_id [narrow_simps]: "in_int64 x \<Longrightarrow> to_int64 x = x"
  by (simp add: to_int64_def in_int64_def int_bounds signed_take_bit_int_eq_self)

lemma in_int64_to_int64 [simp]: "in_int64 (to_int64 x)"
  using signed_take_bit_int_greater_eq_minus_exp [of 63 x] signed_take_bit_int_less_exp [of 63 x]
  by (simp add: to_int64_def in_int64_def int_bounds)

lemma in_int32_to_int32 [simp]: "in_int32 (to_int32 x)"
  using signed_take_bit_int_greater_eq_minus_exp [of 31 x] signed_take_bit_int_less_exp [of 31 x]
  by (simp add: to_int32_def in_int32_def int_bounds)

lemma in_int32_imp_in_int64: "in_int32 x \<Longrightarrow> in_int64 x"
  by (simp add: in_int32_def in_int64_def int_bounds)

section \<open>Characters and bytes\<close>

definition byte_of_char :: "char \<Rightarrow> byte" where
  "byte_of_char c = of_char c"

definition char_of_byte :: "byte \<Rightarrow> char" where
  "char_of_byte b = char_of (unat b)"

definition bytes_of_string :: "string \<Rightarrow> byte list" where
  "bytes_of_string s = map byte_of_char s"

definition string_of_bytes :: "byte list \<Rightarrow> string" where
  "string_of_bytes bs = map char_of_byte bs"

lemma unat_byte_of_char: "unat (byte_of_char c) = of_char c"
proof -
  have "byte_of_char c = word_of_nat (of_char c)"
    by (simp add: byte_of_char_def of_nat_of_char)
  moreover have "(of_char c :: nat) < 256" by simp
  ultimately show ?thesis by (simp add: unsigned_of_nat take_bit_nat_eq_self)
qed

lemma char_of_byte_of_char [byte_simps, simp]: "char_of_byte (byte_of_char c) = c"
  by (simp add: char_of_byte_def unat_byte_of_char)

lemma byte_of_char_of_byte [byte_simps, simp]: "byte_of_char (char_of_byte b) = b"
proof -
  have lt: "unat b < 256" using unsigned_less [of b, where ?'a = nat] by simp
  then have "unat (byte_of_char (char_of_byte b)) = unat b"
    by (simp only: unat_byte_of_char) (simp add: char_of_byte_def)
  then show ?thesis by (simp only: word_unat_eq_iff)
qed

lemma byte_of_char_inject [simp]: "byte_of_char c = byte_of_char d \<longleftrightarrow> c = d"
  by (metis char_of_byte_of_char)

lemma string_of_bytes_of_string [byte_simps, simp]: "string_of_bytes (bytes_of_string s) = s"
  by (simp add: string_of_bytes_def bytes_of_string_def comp_def)

lemma bytes_of_string_of_bytes [byte_simps, simp]: "bytes_of_string (string_of_bytes bs) = bs"
  by (simp add: string_of_bytes_def bytes_of_string_def comp_def)

lemma length_bytes_of_string [byte_simps, simp]: "length (bytes_of_string s) = length s"
  by (simp add: bytes_of_string_def)

lemma length_string_of_bytes [byte_simps, simp]: "length (string_of_bytes bs) = length bs"
  by (simp add: string_of_bytes_def)

lemma bytes_of_string_inject [simp]: "bytes_of_string s = bytes_of_string t \<longleftrightarrow> s = t"
  by (metis string_of_bytes_of_string)

lemma bytes_of_string_append [byte_simps]:
  "bytes_of_string (s @ t) = bytes_of_string s @ bytes_of_string t"
  by (simp add: bytes_of_string_def)

lemma string_of_bytes_append [byte_simps]:
  "string_of_bytes (s @ t) = string_of_bytes s @ string_of_bytes t"
  by (simp add: string_of_bytes_def)

section \<open>Decimal digits\<close>

definition digit_char :: "nat \<Rightarrow> char" where
  "digit_char d = char_of (48 + d)"

definition is_digit :: "char \<Rightarrow> bool" where
  "is_digit c \<longleftrightarrow> 48 \<le> (of_char c :: nat) \<and> (of_char c :: nat) \<le> 57"

definition digit_val :: "char \<Rightarrow> nat" where
  "digit_val c = of_char c - 48"

definition all_digits :: "string \<Rightarrow> bool" where
  "all_digits s \<longleftrightarrow> list_all is_digit s"

definition digits_value :: "string \<Rightarrow> nat" where
  "digits_value s = foldl (\<lambda>a c. 10 * a + digit_val c) 0 s"

fun show_nat :: "nat \<Rightarrow> string" where
  "show_nat n = (if n < 10 then [digit_char n] else show_nat (n div 10) @ [digit_char (n mod 10)])"

declare show_nat.simps [simp del]

definition show_int :: "int \<Rightarrow> string" where
  "show_int i = (if i < 0 then CHR ''-'' # show_nat (nat (- i)) else show_nat (nat i))"

lemma is_digit_digit_char [text_simps]: "d < 10 \<Longrightarrow> is_digit (digit_char d)"
  by (simp add: is_digit_def digit_char_def)

lemma digit_val_digit_char [text_simps]: "d < 10 \<Longrightarrow> digit_val (digit_char d) = d"
  by (simp add: digit_val_def digit_char_def)

lemma digit_val_bound: "is_digit c \<Longrightarrow> digit_val c < 10"
  unfolding digit_val_def is_digit_def by linarith

lemma digits_value_Nil [text_simps, simp]: "digits_value [] = 0"
  by (simp add: digits_value_def)

lemma digits_value_snoc [text_simps]: "digits_value (s @ [c]) = 10 * digits_value s + digit_val c"
  by (simp add: digits_value_def)

lemma digits_value_append: "digits_value (s @ t) = digits_value s * 10 ^ length t + digits_value t"
proof (induction t rule: rev_induct)
  case Nil
  then show ?case by simp
next
  case (snoc c t)
  then show ?case
    by (simp add: digits_value_snoc algebra_simps flip: append_assoc)
qed

lemma digits_value_bound: "all_digits s \<Longrightarrow> digits_value s < 10 ^ length s"
proof (induction s rule: rev_induct)
  case Nil
  then show ?case by simp
next
  case (snoc c s)
  then have "digits_value s + 1 \<le> 10 ^ length s" and "digit_val c < 10"
    by (auto simp: all_digits_def digit_val_bound)
  then have "10 * digits_value s + digit_val c < 10 * 10 ^ length s" by linarith
  then show ?case by (simp add: digits_value_snoc)
qed

lemma show_nat_nonempty [simp]: "show_nat n \<noteq> []"
  by (subst show_nat.simps) simp

lemma all_digits_show_nat [text_simps, simp]: "all_digits (show_nat n)"
proof (induction n rule: show_nat.induct)
  case (1 n)
  then show ?case
    by (subst show_nat.simps) (auto simp: all_digits_def is_digit_digit_char)
qed

lemma digits_value_show_nat [text_simps, simp]: "digits_value (show_nat n) = n"
proof (induction n rule: show_nat.induct)
  case (1 n)
  show ?case
  proof (cases "n < 10")
    case True
    then show ?thesis
      by (subst show_nat.simps) (simp add: digits_value_def digit_val_digit_char)
  next
    case False
    with "1.IH" show ?thesis
      by (subst show_nat.simps) (simp add: digits_value_snoc digit_val_digit_char)
  qed
qed

lemma show_nat_inject [simp]: "show_nat m = show_nat n \<longleftrightarrow> m = n"
  by (metis digits_value_show_nat)

lemma set_show_nat: "c \<in> set (show_nat n) \<Longrightarrow> is_digit c"
  using all_digits_show_nat [of n] by (simp add: all_digits_def list_all_iff)

lemma not_is_digit_minus [simp]: "\<not> is_digit (CHR ''-'')"
  by (simp add: is_digit_def)

lemma set_show_int: "c \<in> set (show_int i) \<Longrightarrow> is_digit c \<or> c = CHR ''-''"
  by (auto simp: show_int_def dest: set_show_nat split: if_splits)

lemma show_int_nonempty [simp]: "show_int i \<noteq> []"
  by (simp add: show_int_def)

lemma hd_show_nat: "is_digit (hd (show_nat n))"
  by (metis hd_in_set set_show_nat show_nat_nonempty)

lemma show_nat_not_minus [simp]: "show_nat n \<noteq> CHR ''-'' # s"
  by (metis hd_show_nat list.sel(1) not_is_digit_minus)

lemma show_int_inject [simp]: "show_int i = show_int j \<longleftrightarrow> i = j"
  by (auto simp: show_int_def dest: sym)

lemma show_nat_length_le: "n < 10 ^ k \<Longrightarrow> 0 < k \<Longrightarrow> length (show_nat n) \<le> k"
proof (induction k arbitrary: n)
  case 0
  then show ?case by simp
next
  case (Suc k)
  show ?case
  proof (cases "n < 10")
    case True
    then show ?thesis by (subst show_nat.simps) simp
  next
    case False
    with Suc.prems have "n div 10 < 10 ^ k" by (simp add: less_mult_imp_div_less mult.commute)
    moreover from False Suc.prems have "0 < k" by (cases k) auto
    ultimately have "length (show_nat (n div 10)) \<le> k" by (rule Suc.IH)
    with False show ?thesis by (subst show_nat.simps) simp
  qed
qed

section \<open>Lists\<close>

lemma takeWhile_append_hd:
  "list_all P xs \<Longrightarrow> ys = [] \<or> \<not> P (hd ys) \<Longrightarrow> takeWhile P (xs @ ys) = xs"
  by (induction xs) (auto simp: takeWhile_eq_Nil_iff)

lemma dropWhile_append_hd:
  "list_all P xs \<Longrightarrow> ys = [] \<or> \<not> P (hd ys) \<Longrightarrow> dropWhile P (xs @ ys) = ys"
  by (induction xs) (auto simp: dropWhile_eq_self_iff)

lemma list_all_takeWhile: "list_all P (takeWhile P xs)"
  by (simp add: list_all_iff) (metis set_takeWhileD)

text \<open>A delimiter absent from the first (last) field of a line separates it from the rest.\<close>

lemma split_first:
  "d \<notin> set xs \<Longrightarrow> d \<notin> set ys \<Longrightarrow> xs @ d # s = ys @ d # t \<longleftrightarrow> xs = ys \<and> s = t"
  by (induction xs arbitrary: ys; case_tac ys) auto

lemma split_last:
  "d \<notin> set s \<Longrightarrow> d \<notin> set t \<Longrightarrow> xs @ d # s = ys @ d # t \<longleftrightarrow> xs = ys \<and> s = t"
  using split_first [of d "rev s" "rev t" "rev xs" "rev ys"]
  by (metis append_Cons append_assoc append_eq_append_conv2 append_is_Nil_conv in_set_conv_decomp
      list.inject rev_append rev_rev_ident rev.simps(2) set_rev)

lemma all_from_step:
  "(i :: nat) < n \<Longrightarrow> (\<forall>j. i \<le> j \<and> j < n \<longrightarrow> P j) \<longleftrightarrow> P i \<and> (\<forall>j. i + 1 \<le> j \<and> j < n \<longrightarrow> P j)"
proof -
  assume "i < n"
  moreover have "i \<le> j \<longleftrightarrow> j = i \<or> i + 1 \<le> j" for j by auto
  ultimately show ?thesis by auto
qed

text \<open>Association lists under insertion and deletion.\<close>

lemma length_alist_update: "length (AList.update k v xs) \<le> Suc (length xs)"
  by (induction xs) auto

lemma set_alist_update: "set (AList.update k v xs) \<subseteq> insert (k, v) (set xs)"
  by (induction xs) auto

lemma alist_update_new: "k \<notin> fst ` set xs \<Longrightarrow> AList.update k v xs = xs @ [(k, v)]"
  by (induction xs) auto

lemma set_alist_delete: "set (AList.delete k xs) \<subseteq> set xs"
  by (auto simp: AList.delete_eq)

lemma length_alist_delete: "length (AList.delete k xs) \<le> length xs"
  by (simp add: AList.delete_eq)

end
