(* ===== verification/BigArith.thy ===== *)
theory BigArith
  imports Prelude
begin

text \<open>
  The value level of \<open>src/src/include/bigint.h\<close>: what its constructors, conversions and free
  functions compute, on unbounded integers.  \<open>BigInt\<close> documents its division as floored
  (\<open>a/b\<close> rounds toward minus infinity, \<open>a%b\<close> carries the divisor's sign), which is
  exactly \<open>div\<close> and \<open>mod\<close> on \<^typ>\<open>int\<close>; the theories \<open>BigInt\<close> to
  \<open>BigInt_Functions\<close> prove that the limb-level code computes these functions.  The elliptic-curve code is modelled on this level.
\<close>

section \<open>Parsing and printing\<close>

datatype bigint_error = BadBase | NotAnInteger | InvalidDigit | DivisionByZero | ToIntRange

definition digitValue :: "char \<Rightarrow> int" where
  "digitValue c =
     (let n = (of_char c :: nat)
      in if 48 \<le> n \<and> n \<le> 57 then int n - 48
         else if 97 \<le> n \<and> n \<le> 122 then int n - 97 + 10
         else if 65 \<le> n \<and> n \<le> 90 then int n - 65 + 10
         else -1)"

fun digits_in_base :: "int \<Rightarrow> string \<Rightarrow> int \<Rightarrow> int option" where
  "digits_in_base base [] acc = Some acc"
| "digits_in_base base (c # cs) acc =
     (let d = digitValue c
      in if d < 0 \<or> d \<ge> base then None else digits_in_base base cs (acc * base + d))"

text \<open>\<open>BigInt(const std::string& num, int base)\<close>\<close>

definition bigint_of_string :: "string \<Rightarrow> int \<Rightarrow> bigint_error + int" where
  "bigint_of_string num base =
     (if base < 2 \<or> base > 36 then Inl BadBase
      else
        let signed = (num \<noteq> [] \<and> (hd num = CHR ''+'' \<or> hd num = CHR ''-''));
            neg = (num \<noteq> [] \<and> hd num = CHR ''-'');
            body = (if signed then tl num else num)
        in if body = [] then Inl NotAnInteger
           else case digits_in_base base body 0 of
                  None \<Rightarrow> Inl InvalidDigit
                | Some v \<Rightarrow> Inr (if neg then - v else v))"

fun binary_digits :: "nat \<Rightarrow> string" where
  "binary_digits n =
     (if n < 2 then [if n = 1 then CHR ''1'' else CHR ''0'']
      else binary_digits (n div 2) @ [if n mod 2 = 1 then CHR ''1'' else CHR ''0''])"

declare binary_digits.simps [simp del]

definition to_binary_string :: "int \<Rightarrow> string" where
  "to_binary_string n =
     (if n = 0 then ''0'' else (if n < 0 then ''-'' else []) @ binary_digits (nat \<bar>n\<bar>))"

definition bigint_to_int :: "int \<Rightarrow> bigint_error + int" where
  "bigint_to_int n = (if in_int32 n then Inr n else Inl ToIntRange)"

section \<open>Powers and modular inverse\<close>

definition squared :: "int \<Rightarrow> int" where "squared b = b * b"

text \<open>\<open>pow\<close>: square and multiply over a machine-integer exponent.\<close>

function pow_loop :: "nat \<Rightarrow> int \<Rightarrow> int \<Rightarrow> int" where
  "pow_loop e result b =
     (if e = 0 then result
      else pow_loop (e div 2) (if odd e then result * b else result) (if e div 2 \<noteq> 0 then b * b else b))"
  by pat_completeness auto
termination
  by (relation "measure (\<lambda>(e, result, b). e)") auto

declare pow_loop.simps [simp del]

definition bigint_pow :: "int \<Rightarrow> int \<Rightarrow> bigint_error + int" where
  "bigint_pow base e =
     (if e < 0 then (if base = 0 then Inl DivisionByZero
                     else Inr (if \<bar>base\<bar> = 1 then base else 0))
      else if e = 0 then (if base = 0 then Inl DivisionByZero else Inr 1)
      else Inr (pow_loop (nat e) 1 base))"

text \<open>\<open>inverse\<close>: the extended Euclidean loop, with its four running variables.\<close>

function inverse_loop :: "int \<Rightarrow> int \<Rightarrow> int \<Rightarrow> int \<Rightarrow> int" where
  "inverse_loop temp_mod temp_a y_prev y =
     (if temp_a > 1
      then inverse_loop temp_a (temp_mod mod temp_a) y (y_prev - (temp_mod div temp_a) * y)
      else y)"
  by pat_completeness auto
termination
  by (relation "measure (\<lambda>(temp_mod, temp_a, y_prev, y). nat temp_a)") auto

declare inverse_loop.simps [simp del]

definition bigint_inverse :: "int \<Rightarrow> int \<Rightarrow> int" where
  "bigint_inverse a m = (inverse_loop m (a mod m) 0 1) mod m"

text \<open>\<open>modPow\<close> of \<open>ECCrypto.cpp\<close>: the exponent's binary digits from the last to the first.\<close>

fun modPow_loop :: "string \<Rightarrow> int \<Rightarrow> int \<Rightarrow> int \<Rightarrow> int" where
  "modPow_loop [] result b m = result"
| "modPow_loop (c # cs) result b m =
     modPow_loop cs (if c = CHR ''1'' then (result * b) mod m else result)
       (if cs \<noteq> [] then (b * b) mod m else b) m"

definition modPow :: "int \<Rightarrow> int \<Rightarrow> int \<Rightarrow> int" where
  "modPow base e m =
     (if e = 0 then 1 else modPow_loop (rev (to_binary_string e)) 1 (base mod m) m)"

section \<open>Correctness\<close>

lemma pow_loop_eq: "pow_loop e result b = result * b ^ e"
proof (induction e result b rule: pow_loop.induct)
  case (1 e result b)
  show ?case
  proof (cases "e = 0")
    case True
    then show ?thesis by (simp add: pow_loop.simps)
  next
    case False
    have "b ^ e = b ^ (2 * (e div 2) + e mod 2)" by simp
    also have "\<dots> = (b * b) ^ (e div 2) * b ^ (e mod 2)"
      by (simp only: power_add power_mult power2_eq_square)
    finally have e: "b ^ e = (b * b) ^ (e div 2) * b ^ (e mod 2)" .
    have "(if e div 2 \<noteq> 0 then b * b else b) ^ (e div 2) = (b * b) ^ (e div 2)" by simp
    then show ?thesis
      using False 1 e
      by (subst pow_loop.simps) (auto simp: odd_iff_mod_2_eq_one even_iff_mod_2_eq_zero)
  qed
qed

lemma bigint_pow_pos: "0 < e \<Longrightarrow> bigint_pow b e = Inr (b ^ nat e)"
  by (simp add: bigint_pow_def pow_loop_eq)

text \<open>
  The loop invariant of the inverse: \<open>a * y\<close> is congruent to \<open>temp_a\<close> and
  \<open>a * y_prev\<close> to \<open>temp_mod\<close>, and the greatest common divisor never changes.
\<close>

lemma inverse_loop_cong:
  assumes "(a * y - temp_a) mod m = 0" "(a * y_prev - temp_mod) mod m = 0"
    and "gcd temp_mod temp_a = 1" "0 \<le> temp_a"  "temp_a = 0 \<longrightarrow> m = 1"
  shows "(a * inverse_loop temp_mod temp_a y_prev y) mod m = 1 mod m"
  using assms
proof (induction temp_mod temp_a y_prev y rule: inverse_loop.induct)
  case (1 temp_mod temp_a y_prev y)
  show ?case
  proof (cases "temp_a > 1")
    case True
    let ?q = "temp_mod div temp_a"
    have d1: "m dvd a * y - temp_a" and d2: "m dvd a * y_prev - temp_mod"
      using "1.prems"(1,2) by (simp_all add: dvd_eq_mod_eq_0)
    have "a * (y_prev - ?q * y) - temp_mod mod temp_a
        = (a * y_prev - temp_mod) - ?q * (a * y - temp_a)"
      by (simp add: algebra_simps flip: minus_div_mult_eq_mod)
    then have "m dvd a * (y_prev - ?q * y) - temp_mod mod temp_a"
      using d1 d2 by simp
    then have p1: "(a * (y_prev - ?q * y) - temp_mod mod temp_a) mod m = 0"
      by (rule dvd_imp_mod_0)
    have p3: "gcd temp_a (temp_mod mod temp_a) = 1"
      using "1.prems"(3) by (metis gcd.commute gcd_red_int)
    then have p5: "temp_mod mod temp_a = 0 \<longrightarrow> m = 1" using True by auto
    have p4: "0 \<le> temp_mod mod temp_a" using True by simp
    have "(a * inverse_loop temp_a (temp_mod mod temp_a) y (y_prev - ?q * y)) mod m = 1 mod m"
      by (rule "1.IH" [OF True p1 "1.prems"(1) p3 p4 p5])
    moreover have "inverse_loop temp_mod temp_a y_prev y =
        inverse_loop temp_a (temp_mod mod temp_a) y (y_prev - ?q * y)"
      using True by (subst inverse_loop.simps) (rule if_P)
    ultimately show ?thesis by simp
  next
    case False
    then have "temp_a = 0 \<or> temp_a = 1" using "1.prems"(4) by linarith
    then show ?thesis
    proof
      assume "temp_a = 0"
      with "1.prems"(5) show ?thesis by simp
    next
      assume "temp_a = 1"
      with "1.prems"(1) have "(a * y) mod m = 1 mod m"
        by (simp add: mod_eq_dvd_iff dvd_eq_mod_eq_0)
      with False show ?thesis by (simp add: inverse_loop.simps [of temp_mod temp_a])
    qed
  qed
qed

lemma inverse_correct:
  assumes "coprime a m" "0 < m"
  shows "(a * bigint_inverse a m) mod m = 1 mod m"
proof -
  have "gcd m (a mod m) = 1"
    using assms(1) by (metis coprime_iff_gcd_eq_1 gcd.commute gcd_red_int)
  moreover have "a mod m = 0 \<longrightarrow> m = 1"
    using calculation assms(2) by auto
  ultimately have "(a * inverse_loop m (a mod m) 0 1) mod m = 1 mod m"
    using assms(2) by (intro inverse_loop_cong) (auto simp: mod_diff_right_eq)
  then show ?thesis by (simp add: bigint_inverse_def mod_mult_right_eq)
qed

lemma inverse_range: "0 < m \<Longrightarrow> 0 \<le> bigint_inverse a m \<and> bigint_inverse a m < m"
  by (simp add: bigint_inverse_def)

subsection \<open>Digits\<close>

lemma digits_in_base_append:
  "digits_in_base base (s @ t) acc =
     (case digits_in_base base s acc of None \<Rightarrow> None | Some v \<Rightarrow> digits_in_base base t v)"
  by (induction base s acc rule: digits_in_base.induct) (auto simp: Let_def)

lemma digits_in_base_shift:
  "digits_in_base base cs acc = map_option (\<lambda>w. acc * base ^ length cs + w) (digits_in_base base cs 0)"
proof (induction cs arbitrary: acc)
  case (Cons c cs)
  show ?case
    using Cons [of "acc * base + digitValue c"] Cons [of "digitValue c"]
    by (simp add: Let_def option.map_comp comp_def algebra_simps)
qed simp

lemma digits_in_base_bounds:
  assumes "digits_in_base base cs 0 = Some w"
  shows "0 \<le> w \<and> w < base ^ length cs"
  using assms
proof (induction cs arbitrary: w)
  case (Cons c cs)
  let ?d = "digitValue c" and ?p = "base ^ length cs"
  from Cons.prems have d: "0 \<le> ?d" "?d + 1 \<le> base" by (auto simp: Let_def split: if_splits)
  from Cons.prems obtain v where v: "digits_in_base base cs 0 = Some v" "w = ?d * ?p + v"
    using digits_in_base_shift [of base cs ?d] d by (auto simp: Let_def)
  have b: "0 \<le> v" "v < ?p" using Cons.IH [OF v(1)] by simp_all
  have "w < (?d + 1) * ?p" using v(2) b by (simp add: algebra_simps)
  also have "\<dots> \<le> base * ?p" using d b by (intro mult_right_mono) simp_all
  finally show ?case using v(2) d b by simp
qed simp

subsection \<open>Binary digits\<close>

definition bit_of :: "char \<Rightarrow> nat" where
  "bit_of c = (if c = CHR ''1'' then 1 else 0)"

definition binary_value :: "string \<Rightarrow> nat" where
  "binary_value s = foldl (\<lambda>acc c. 2 * acc + bit_of c) 0 s"

lemma binary_value_snoc: "binary_value (s @ [c]) = 2 * binary_value s + bit_of c"
  by (simp add: binary_value_def)

lemma binary_digits_nonempty [simp]: "binary_digits n \<noteq> []"
  by (subst binary_digits.simps) simp

lemma binary_value_digits: "binary_value (binary_digits n) = n"
proof (induction n rule: binary_digits.induct)
  case (1 n)
  show ?case
  proof (cases "n < 2")
    case True
    then show ?thesis by (subst binary_digits.simps) (auto simp: binary_value_def bit_of_def)
  next
    case False
    have "bit_of (if n mod 2 = 1 then CHR ''1'' else CHR ''0'') = n mod 2"
      by (auto simp: bit_of_def)
    with False "1.IH" show ?thesis by (subst binary_digits.simps) (simp add: binary_value_snoc)
  qed
qed

lemma modPow_loop_eq:
  "0 < m \<Longrightarrow> s \<noteq> [] \<Longrightarrow>
     modPow_loop s result b m mod m = (result * b ^ binary_value (rev s)) mod m"
proof (induction s result b m rule: modPow_loop.induct)
  case (1 result b m)
  then show ?case by simp
next
  case (2 c cs result b m)
  let ?r = "if c = CHR ''1'' then (result * b) mod m else result"
  have r: "?r mod m = (result * b ^ bit_of c) mod m" by (simp add: bit_of_def)
  show ?case
  proof (cases "cs = []")
    case True
    then show ?thesis using r by (simp add: binary_value_def)
  next
    case False
    have "modPow_loop (c # cs) result b m mod m
        = (?r * ((b * b) mod m) ^ binary_value (rev cs)) mod m"
      using 2 False by simp
    also have "\<dots> = ((?r mod m) * (((b * b) mod m) ^ binary_value (rev cs) mod m)) mod m"
      by (simp add: mod_mult_eq)
    also have "\<dots> = ((result * b ^ bit_of c) mod m * ((b * b) ^ binary_value (rev cs) mod m)) mod m"
      by (simp only: r power_mod)
    also have "\<dots> = (result * b ^ bit_of c * (b * b) ^ binary_value (rev cs)) mod m"
      by (simp only: mod_mult_eq)
    also have "result * b ^ bit_of c * (b * b) ^ binary_value (rev cs)
        = result * b ^ (2 * binary_value (rev cs) + bit_of c)"
      by (simp add: power_add power_mult power2_eq_square)
    finally show ?thesis by (simp add: binary_value_snoc)
  qed
qed

lemma modPow_loop_range:
  "1 < m \<Longrightarrow> 0 \<le> result \<Longrightarrow> result < m \<Longrightarrow>
     0 \<le> modPow_loop s result b m \<and> modPow_loop s result b m < m"
  by (induction s result b m rule: modPow_loop.induct) auto

lemma modPow_correct:
  assumes "0 \<le> e" "1 < m"
  shows "modPow b e m = b ^ nat e mod m"
proof (cases "e = 0")
  case True
  then show ?thesis using assms by (simp add: modPow_def)
next
  case False
  then have s: "to_binary_string e = binary_digits (nat e)"
    using assms by (simp add: to_binary_string_def)
  have "0 \<le> modPow b e m \<and> modPow b e m < m"
    unfolding modPow_def using False assms by (simp add: modPow_loop_range)
  then have "modPow b e m = modPow b e m mod m" by simp
  also have "\<dots> = (1 * (b mod m) ^ nat e) mod m"
    unfolding modPow_def s using False assms
    by (simp add: modPow_loop_eq binary_value_digits)
  finally show ?thesis by (simp add: power_mod)
qed

end
