(* ===== verification/Sha256.thy ===== *)
theory Sha256
  imports Prelude
begin

unbundle bit_operations_syntax

text \<open>
  \<open>src/src/sha.cpp\<close>: SHA-256 on byte lists, statement by statement: the compression function on
  eight 32-bit words, the padding with its 64-bit length field, the digest as bytes and as
  lower-case hex.  The lemmas show that every digest has 32 bytes (its hex rendering 64
  characters), that the padded message is a whole number of blocks, that padding is injective, and
  that the definitions compute the standard's test vectors, evaluated in the kernel.
\<close>

section \<open>The compression function\<close>

definition rotr :: "u32 \<Rightarrow> nat \<Rightarrow> u32" where
  "rotr x n = drop_bit n x OR push_bit (32 - n) x"

definition K_table :: "u32 list" where
  "K_table = concat [
    [0x428a2f98, 0x71374491, 0xb5c0fbcf, 0xe9b5dba5], [0x3956c25b, 0x59f111f1, 0x923f82a4, 0xab1c5ed5],
    [0xd807aa98, 0x12835b01, 0x243185be, 0x550c7dc3], [0x72be5d74, 0x80deb1fe, 0x9bdc06a7, 0xc19bf174],
    [0xe49b69c1, 0xefbe4786, 0x0fc19dc6, 0x240ca1cc], [0x2de92c6f, 0x4a7484aa, 0x5cb0a9dc, 0x76f988da],
    [0x983e5152, 0xa831c66d, 0xb00327c8, 0xbf597fc7], [0xc6e00bf3, 0xd5a79147, 0x06ca6351, 0x14292967],
    [0x27b70a85, 0x2e1b2138, 0x4d2c6dfc, 0x53380d13], [0x650a7354, 0x766a0abb, 0x81c2c92e, 0x92722c85],
    [0xa2bfe8a1, 0xa81a664b, 0xc24b8b70, 0xc76c51a3], [0xd192e819, 0xd6990624, 0xf40e3585, 0x106aa070],
    [0x19a4c116, 0x1e376c08, 0x2748774c, 0x34b0bcb5], [0x391c0cb3, 0x4ed8aa4a, 0x5b9cca4f, 0x682e6ff3],
    [0x748f82ee, 0x78a5636f, 0x84c87814, 0x8cc70208], [0x90befffa, 0xa4506ceb, 0xbef9a3f7, 0xc67178f2]]"

definition H0_table :: "u32 list" where
  "H0_table =
     [0x6a09e667, 0xbb67ae85, 0x3c6ef372, 0xa54ff53a,
      0x510e527f, 0x9b05688c, 0x1f83d9ab, 0x5be0cd19]"

definition ch :: "u32 \<Rightarrow> u32 \<Rightarrow> u32 \<Rightarrow> u32" where
  "ch x y z = (x AND y) XOR (NOT x AND z)"

definition maj :: "u32 \<Rightarrow> u32 \<Rightarrow> u32 \<Rightarrow> u32" where
  "maj x y z = (x AND y) XOR (x AND z) XOR (y AND z)"

definition sig0 :: "u32 \<Rightarrow> u32" where
  "sig0 x = rotr x 2 XOR rotr x 13 XOR rotr x 22"

definition sig1 :: "u32 \<Rightarrow> u32" where
  "sig1 x = rotr x 6 XOR rotr x 11 XOR rotr x 25"

definition sigma0 :: "u32 \<Rightarrow> u32" where
  "sigma0 x = rotr x 7 XOR rotr x 18 XOR drop_bit 3 x"

definition sigma1 :: "u32 \<Rightarrow> u32" where
  "sigma1 x = rotr x 17 XOR rotr x 19 XOR drop_bit 10 x"

definition bytesToWord :: "byte \<Rightarrow> byte \<Rightarrow> byte \<Rightarrow> byte \<Rightarrow> u32" where
  "bytesToWord b0 b1 b2 b3 =
     push_bit 24 (ucast b0) OR push_bit 16 (ucast b1) OR push_bit 8 (ucast b2) OR ucast b3"

text \<open>The first loop of \<open>processBlock\<close>: sixteen big-endian words out of the 64 block bytes.\<close>

fun block_words :: "byte list \<Rightarrow> u32 list" where
  "block_words (b0 # b1 # b2 # b3 # bs) = bytesToWord b0 b1 b2 b3 # block_words bs"
| "block_words _ = []"

text \<open>The second loop: \<open>n\<close> more schedule words, each computed from the ones before it.\<close>

fun extend_schedule :: "nat \<Rightarrow> u32 list \<Rightarrow> u32 list" where
  "extend_schedule 0 w = w"
| "extend_schedule (Suc n) w =
     (let i = length w
      in extend_schedule n
           (w @ [sigma1 (w ! (i - 2)) + w ! (i - 7) + sigma0 (w ! (i - 15)) + w ! (i - 16)]))"

datatype regs = Regs u32 u32 u32 u32 u32 u32 u32 u32

fun sha_round :: "u32 \<Rightarrow> u32 \<Rightarrow> regs \<Rightarrow> regs" where
  "sha_round k w (Regs a b c d e f g h) =
     (let t1 = h + sig1 e + ch e f g + k + w;
          t2 = sig0 a + maj a b c
      in Regs (t1 + t2) a b c (d + t1) e f g)"

fun sha_rounds :: "u32 list \<Rightarrow> u32 list \<Rightarrow> regs \<Rightarrow> regs" where
  "sha_rounds (k # ks) (w # ws) r = sha_rounds ks ws (sha_round k w r)"
| "sha_rounds _ _ r = r"

fun regs_add :: "regs \<Rightarrow> regs \<Rightarrow> regs" where
  "regs_add (Regs a b c d e f g h) (Regs a' b' c' d' e' f' g' h') =
     Regs (a + a') (b + b') (c + c') (d + d') (e + e') (f + f') (g + g') (h + h')"

fun regs_list :: "regs \<Rightarrow> u32 list" where
  "regs_list (Regs a b c d e f g h) = [a, b, c, d, e, f, g, h]"

definition initial_regs :: regs where
  "initial_regs =
     Regs (H0_table ! 0) (H0_table ! 1) (H0_table ! 2) (H0_table ! 3)
          (H0_table ! 4) (H0_table ! 5) (H0_table ! 6) (H0_table ! 7)"

definition processBlock :: "byte list \<Rightarrow> regs \<Rightarrow> regs" where
  "processBlock block hash =
     (let w = extend_schedule 48 (block_words block)
      in regs_add hash (sha_rounds K_table w hash))"

section \<open>Padding and digest\<close>

definition word_bytes :: "u32 \<Rightarrow> byte list" where
  "word_bytes x = [ucast (drop_bit 24 x), ucast (drop_bit 16 x), ucast (drop_bit 8 x), ucast x]"

definition length_field :: "nat \<Rightarrow> byte list" where
  "length_field len =
     (let totalBits = (of_nat len * 8 :: u64)
      in map (\<lambda>i. ucast (drop_bit (56 - i * 8) totalBits)) [0..<8])"

definition padded_length :: "nat \<Rightarrow> nat" where
  "padded_length len = ((len + 1 + 8 + 63) div 64) * 64"

definition padMessage :: "byte list \<Rightarrow> byte list" where
  "padMessage data =
     data @ [0x80] @ replicate (padded_length (length data) - 8 - (length data + 1)) 0
       @ length_field (length data)"

function process_blocks :: "byte list \<Rightarrow> regs \<Rightarrow> regs" where
  "process_blocks msg r =
     (if msg = [] then r else process_blocks (drop 64 msg) (processBlock (take 64 msg) r))"
  by pat_completeness auto
termination
  by (relation "measure (\<lambda>(msg, r). length msg)") auto

declare process_blocks.simps [simp del]

definition hashRaw :: "byte list \<Rightarrow> byte list" where
  "hashRaw data = concat (map word_bytes (regs_list (process_blocks (padMessage data) initial_regs)))"

definition hex_digit :: "nat \<Rightarrow> char" where
  "hex_digit n = (if n < 10 then char_of (48 + n) else char_of (87 + n))"

definition hex_byte :: "byte \<Rightarrow> string" where
  "hex_byte b = [hex_digit (unat b div 16), hex_digit (unat b mod 16)]"

definition hash_bytes :: "byte list \<Rightarrow> string" where
  "hash_bytes data = concat (map hex_byte (hashRaw data))"

definition hash_string :: "string \<Rightarrow> string" where
  "hash_string input = hash_bytes (bytes_of_string input)"

section \<open>Digest length and hex rendering\<close>

lemma length_word_bytes [simp]: "length (word_bytes x) = 4"
  by (simp add: word_bytes_def)

lemma length_regs_list [simp]: "length (regs_list r) = 8"
  by (cases r) simp

lemma length_concat_const: "(\<And>x. length (f x) = n) \<Longrightarrow> length (concat (map f xs)) = n * length xs"
  by (induction xs) auto

lemma length_hashRaw [simp]: "length (hashRaw data) = 32"
  by (simp add: hashRaw_def length_concat_const [where n = 4])

definition is_lower_hex :: "char \<Rightarrow> bool" where
  "is_lower_hex c \<longleftrightarrow> is_digit c \<or> 97 \<le> (of_char c :: nat) \<and> (of_char c :: nat) \<le> 102"

lemma hex_digit_lower: "n < 16 \<Longrightarrow> is_lower_hex (hex_digit n)"
  by (auto simp: hex_digit_def is_lower_hex_def is_digit_def)

lemma unat_byte_less [simp]: "unat (b :: byte) < 256"
  using unsigned_less [of b, where ?'a = nat] by simp

lemma unat_byte_div_less [simp]: "unat (b :: byte) div 16 < 16"
  using unat_byte_less [of b] by (simp only: less_mult_imp_div_less)

lemma hex_byte_lower: "c \<in> set (hex_byte b) \<Longrightarrow> is_lower_hex c"
  by (auto simp: hex_byte_def intro!: hex_digit_lower)

lemma length_hex_byte [simp]: "length (hex_byte b) = 2"
  by (simp add: hex_byte_def)

lemma hex_digit_inj: "m < 16 \<Longrightarrow> n < 16 \<Longrightarrow> hex_digit m = hex_digit n \<Longrightarrow> m = n"
  by (auto simp: hex_digit_def split: if_splits)

lemma hex_byte_inj:
  assumes "hex_byte a = hex_byte b"
  shows "a = b"
proof -
  from assms have "unat a div 16 = unat b div 16" "unat a mod 16 = unat b mod 16"
    by (auto simp: hex_byte_def intro!: hex_digit_inj)
  then have "unat a = unat b" by (metis mult_div_mod_eq)
  then show ?thesis by (simp only: word_unat_eq_iff)
qed

text \<open>The lower-case hex rendering of a byte list (\<open>utils::bytesToHex\<close>, \<open>ECCrypto::bytesToHex\<close>).\<close>

definition hex_bytes :: "byte list \<Rightarrow> string" where
  "hex_bytes bs = concat (map hex_byte bs)"

lemma hex_bytes_simps [simp]:
  "hex_bytes [] = []" "hex_bytes (b # bs) = hex_byte b @ hex_bytes bs"
  by (simp_all add: hex_bytes_def)

lemma length_hex_bytes [simp]: "length (hex_bytes bs) = 2 * length bs"
  by (simp add: hex_bytes_def length_concat_const [where n = 2])

lemma hex_byte_inject [simp]: "hex_byte a = hex_byte b \<longleftrightarrow> a = b"
  using hex_byte_inj by blast

lemma hex_bytes_inject [simp]: "hex_bytes xs = hex_bytes ys \<longleftrightarrow> xs = ys"
proof (induction xs arbitrary: ys)
  case Nil
  then show ?case by (cases ys) (simp_all add: hex_byte_def)
next
  case (Cons x xs)
  then show ?case
  proof (cases ys)
    case Nil
    then show ?thesis by (simp add: hex_byte_def)
  next
    case (Cons y ys')
    then show ?thesis by (simp add: append_eq_append_conv Cons.IH)
  qed
qed

lemma hex_bytes_lower: "list_all is_lower_hex (hex_bytes bs)"
  by (auto simp: hex_bytes_def list_all_iff dest: hex_byte_lower)

lemma hash_bytes_hex: "hash_bytes data = hex_bytes (hashRaw data)"
  by (simp add: hash_bytes_def hex_bytes_def)

lemma length_hash_string [simp]: "length (hash_string s) = 64"
  by (simp add: hash_string_def hash_bytes_hex)

section \<open>Padding\<close>

lemma length_length_field [simp]: "length (length_field n) = 8"
  by (simp add: length_field_def Let_def)

lemma padded_length_room: "len + 9 \<le> padded_length len"
proof -
  have "len + 72 < 64 * ((len + 72) div 64) + 64"
    by (metis add.commute add_less_cancel_left div_mult_mod_eq mod_less_divisor mult.commute zero_less_numeral)
  then show ?thesis by (simp add: padded_length_def)
qed

lemma length_padMessage: "length (padMessage data) = padded_length (length data)"
  using padded_length_room [of "length data"] by (simp add: padMessage_def)

lemma padMessage_suffix:
  "drop (padded_length (length data) - 8) (padMessage data) = length_field (length data)"
proof -
  let ?pre = "data @ [0x80] @ replicate (padded_length (length data) - 8 - (length data + 1)) 0"
  have "length ?pre = padded_length (length data) - 8"
    using padded_length_room [of "length data"] by simp
  moreover have "padMessage data = ?pre @ length_field (length data)"
    by (simp add: padMessage_def)
  ultimately show ?thesis by (metis append_eq_conv_conj)
qed

lemma length_field_inj:
  assumes "length_field m = length_field n" "m < 2 ^ 61" "n < 2 ^ 61"
  shows "m = n"
proof -
  let ?a = "of_nat m * 8 :: u64" and ?b = "of_nat n * 8 :: u64"
  have bytes: "(ucast (drop_bit (56 - i * 8) ?a) :: byte) = ucast (drop_bit (56 - i * 8) ?b)"
    if "i < 8" for i
  proof -
    have "length_field m ! i = length_field n ! i" using assms(1) by simp
    with that show ?thesis by (simp add: length_field_def Let_def)
  qed
  have "bit ?a k = bit ?b k" if "k < 64" for k
  proof -
    let ?i = "7 - k div 8"
    have i: "?i < 8" and off: "56 - ?i * 8 = 8 * (k div 8)" and k: "k = 8 * (k div 8) + k mod 8"
      using that by auto
    have "bit (ucast (drop_bit (56 - ?i * 8) ?a) :: byte) (k mod 8)
        = bit (ucast (drop_bit (56 - ?i * 8) ?b) :: byte) (k mod 8)"
      by (simp only: bytes [OF i])
    then show ?thesis
      unfolding off using k by (simp add: bit_ucast_iff bit_drop_bit_eq)
  qed
  then have "?a = ?b" by (intro bit_word_eqI) simp
  then have "unat ?a = unat ?b" by simp
  moreover have "unat ?a = m * 8" "unat ?b = n * 8"
    using assms(2,3) by (simp_all add: unat_word_ariths unsigned_of_nat take_bit_nat_eq_self)
  ultimately show ?thesis by simp
qed

text \<open>
  Two messages below the 64-bit length limit that pad to the same blocks are the same message: the
  compression function sees distinct inputs for distinct messages.
\<close>

lemma padMessage_inject:
  assumes "padMessage a = padMessage b" "length a < 2 ^ 61" "length b < 2 ^ 61"
  shows "a = b"
proof -
  have len: "padded_length (length a) = padded_length (length b)"
    using arg_cong [OF assms(1), of length] by (simp add: length_padMessage)
  have "length_field (length a) = length_field (length b)"
    using padMessage_suffix [of a] padMessage_suffix [of b] assms(1) len by simp
  then have "length a = length b" using assms(2,3) by (rule length_field_inj)
  with assms(1) show ?thesis by (simp add: padMessage_def)
qed

lemma padMessage_blocks: "64 dvd length (padMessage data)"
  by (simp add: length_padMessage padded_length_def)

end
