(* ===== verification/Streams.thy ===== *)
theory Streams
  imports Prelude
begin

text \<open>
  The parts of the C++ standard library through which the program reads text: input streams
  with \<open>std::getline\<close> and \<open>operator>>\<close>, the throwing conversions \<open>std::stoi\<close>,
  \<open>std::stoll\<close> and \<open>std::stoull\<close>, \<open>std::from_chars\<close>, and the loop that reads a
  stream line by line.

  An input stream is its unread characters together with its state bits.  \<open>Good r\<close> has no
  bit set; \<open>AtEof\<close> has \<open>eofbit\<close> only (the last read succeeded and hit the end);
  \<open>Failed\<close> has \<open>failbit\<close>.  A read on a stream that is not good fails without touching
  its target, so \<open>getline\<close> takes the variable's old value and returns the new one.
\<close>

section \<open>Streams and getline\<close>

datatype istream = Good string | AtEof | Failed

definition stream_ok :: "istream \<Rightarrow> bool" where
  "stream_ok s \<longleftrightarrow> s \<noteq> Failed"

definition getline :: "char \<Rightarrow> string \<Rightarrow> istream \<Rightarrow> string \<times> istream" where
  "getline d old s =
     (case s of
        Good r \<Rightarrow>
          (case dropWhile (\<lambda>c. c \<noteq> d) r of
             c # rest \<Rightarrow> (takeWhile (\<lambda>c. c \<noteq> d) r, Good rest)
           | [] \<Rightarrow> if r = [] then ([], Failed) else (r, AtEof))
      | AtEof \<Rightarrow> (old, Failed)
      | Failed \<Rightarrow> (old, Failed))"

definition stream_measure :: "istream \<Rightarrow> nat" where
  "stream_measure s = (case s of Good r \<Rightarrow> Suc (Suc (length r)) | AtEof \<Rightarrow> 1 | Failed \<Rightarrow> 0)"

lemma getline_delim [text_simps]:
  assumes "d \<notin> set tok"
  shows "getline d old (Good (tok @ d # rest)) = (tok, Good rest)"
proof -
  have "list_all (\<lambda>c. c \<noteq> d) tok" using assms by (auto simp: list_all_iff)
  then have "takeWhile (\<lambda>c. c \<noteq> d) (tok @ d # rest) = tok"
    and "dropWhile (\<lambda>c. c \<noteq> d) (tok @ d # rest) = d # rest"
    using takeWhile_append_hd [of "\<lambda>c. c \<noteq> d" tok "d # rest"]
      dropWhile_append_hd [of "\<lambda>c. c \<noteq> d" tok "d # rest"] by simp_all
  then show ?thesis by (simp add: getline_def)
qed

lemma getline_empty_field [text_simps]: "getline d old (Good (d # rest)) = ([], Good rest)"
  by (simp add: getline_def)

lemma getline_last [text_simps]:
  assumes "d \<notin> set tok" "tok \<noteq> []"
  shows "getline d old (Good tok) = (tok, AtEof)"
proof -
  have "dropWhile (\<lambda>c. c \<noteq> d) tok = []"
    using assms(1) by (auto simp: dropWhile_eq_Nil_conv)
  then show ?thesis
    using assms(2) by (simp only: getline_def istream.case list.case if_False)
qed

lemma getline_end [text_simps]:
  "getline d old (Good []) = ([], Failed)"
  "getline d old AtEof = (old, Failed)"
  "getline d old Failed = (old, Failed)"
  by (simp_all add: getline_def)

lemma getline_decreases:
  "stream_ok (snd (getline d old s)) \<Longrightarrow>
     stream_measure (snd (getline d old s)) < stream_measure s"
proof (cases s)
  case (Good r)
  have "length (dropWhile (\<lambda>c. c \<noteq> d) r) \<le> length r" by (rule length_dropWhile_le)
  then have "dropWhile (\<lambda>c. c \<noteq> d) r = c # rest \<Longrightarrow> length rest < length r" for c rest by simp
  then show "stream_ok (snd (getline d old s)) \<Longrightarrow> ?thesis" using Good
    by (auto simp: getline_def stream_measure_def stream_ok_def split: list.splits)
qed (simp_all add: getline_def stream_ok_def)

section \<open>Scanning integers\<close>

definition is_space :: "char \<Rightarrow> bool" where
  "is_space c \<longleftrightarrow> (of_char c :: nat) = 32 \<or> 9 \<le> (of_char c :: nat) \<and> (of_char c :: nat) \<le> 13"

definition skip_ws :: "string \<Rightarrow> string" where
  "skip_ws s = dropWhile is_space s"

text \<open>An optional sign and the longest run of decimal digits; \<open>None\<close> when there is no digit.\<close>

definition scan_sign :: "string \<Rightarrow> bool \<times> string" where
  "scan_sign s =
     (case s of [] \<Rightarrow> (False, [])
      | c # cs \<Rightarrow> if c = CHR ''-'' then (True, cs) else if c = CHR ''+'' then (False, cs) else (False, s))"

definition scan_int :: "string \<Rightarrow> ((bool \<times> nat) \<times> string) option" where
  "scan_int s =
     (let (neg, r) = scan_sign s; ds = takeWhile is_digit r
      in if ds = [] then None else Some ((neg, digits_value ds), dropWhile is_digit r))"

definition signed_value :: "bool \<times> nat \<Rightarrow> int" where
  "signed_value v = (if fst v then - int (snd v) else int (snd v))"

text \<open>The unsigned readers accept a minus sign and negate modulo the width.\<close>

definition unsigned_value :: "bool \<times> nat \<Rightarrow> 'a::len word" where
  "unsigned_value v = (if fst v then - of_nat (snd v) else of_nat (snd v))"

definition no_digit_next :: "string \<Rightarrow> bool" where
  "no_digit_next r \<longleftrightarrow> r = [] \<or> \<not> is_digit (hd r)"

lemma no_digit_next_simps [text_simps]:
  "no_digit_next []" "no_digit_next (c # r) \<longleftrightarrow> \<not> is_digit c"
  by (simp_all add: no_digit_next_def)

lemma scan_sign_digit: "is_digit c \<Longrightarrow> scan_sign (c # s) = (False, c # s)"
  by (auto simp: scan_sign_def is_digit_def)

lemma scan_int_show_nat [text_simps]:
  assumes "no_digit_next rest"
  shows "scan_int (show_nat n @ rest) = Some ((False, n), rest)"
proof -
  have "list_all is_digit (show_nat n)" using all_digits_show_nat by (simp add: all_digits_def)
  then have tw: "takeWhile is_digit (show_nat n @ rest) = show_nat n"
    and dw: "dropWhile is_digit (show_nat n @ rest) = rest"
    using assms by (simp_all add: no_digit_next_def takeWhile_append_hd dropWhile_append_hd)
  obtain c s where cs: "show_nat n = c # s" by (cases "show_nat n") auto
  then have "is_digit c" using hd_show_nat [of n] by simp
  with cs have "scan_sign (show_nat n @ rest) = (False, show_nat n @ rest)"
    by (simp add: scan_sign_digit)
  then show ?thesis using tw dw by (simp add: scan_int_def)
qed

lemma scan_int_neg_show_nat [text_simps]:
  assumes "no_digit_next rest"
  shows "scan_int (CHR ''-'' # show_nat n @ rest) = Some ((True, n), rest)"
proof -
  have "list_all is_digit (show_nat n)" using all_digits_show_nat by (simp add: all_digits_def)
  then have "takeWhile is_digit (show_nat n @ rest) = show_nat n"
    and "dropWhile is_digit (show_nat n @ rest) = rest"
    using assms by (simp_all add: no_digit_next_def takeWhile_append_hd dropWhile_append_hd)
  then show ?thesis by (simp add: scan_int_def scan_sign_def)
qed

lemma scan_int_show_int:
  assumes "no_digit_next rest"
  shows "scan_int (show_int i @ rest) = Some ((i < 0, nat \<bar>i\<bar>), rest)"
  using assms by (auto simp: show_int_def scan_int_show_nat scan_int_neg_show_nat)

lemma signed_value_abs [text_simps]: "signed_value (i < 0, nat \<bar>i\<bar>) = i"
  by (simp add: signed_value_def)

lemma digit_not_space: "is_digit c \<Longrightarrow> \<not> is_space c"
  unfolding is_digit_def is_space_def by linarith

lemma minus_not_space [simp]: "\<not> is_space (CHR ''-'')"
  by (simp add: is_space_def)

lemma hd_show_int: "is_digit (hd (show_int i)) \<or> hd (show_int i) = CHR ''-''"
  by (simp add: show_int_def hd_show_nat)

lemma skip_ws_show_int [text_simps]: "skip_ws (show_int i @ r) = show_int i @ r"
  using hd_show_int [of i]
  by (cases "show_int i") (auto simp: skip_ws_def digit_not_space)

lemma skip_ws_show_nat [text_simps]: "skip_ws (show_nat n @ r) = show_nat n @ r"
  using hd_show_nat [of n]
  by (cases "show_nat n") (auto simp: skip_ws_def digit_not_space)

section \<open>std::stoi, std::stoll, std::stoull\<close>

datatype conv_error = InvalidArgument | OutOfRange

definition stoi :: "string \<Rightarrow> conv_error + int" where
  "stoi s = (case scan_int (skip_ws s) of
      None \<Rightarrow> Inl InvalidArgument
    | Some (v, _) \<Rightarrow> if in_int32 (signed_value v) then Inr (signed_value v) else Inl OutOfRange)"

definition stoll :: "string \<Rightarrow> conv_error + int" where
  "stoll s = (case scan_int (skip_ws s) of
      None \<Rightarrow> Inl InvalidArgument
    | Some (v, _) \<Rightarrow> if in_int64 (signed_value v) then Inr (signed_value v) else Inl OutOfRange)"

definition stoull :: "string \<Rightarrow> conv_error + u64" where
  "stoull s = (case scan_int (skip_ws s) of
      None \<Rightarrow> Inl InvalidArgument
    | Some (v, _) \<Rightarrow> if int (snd v) \<le> uint64_max then Inr (unsigned_value v) else Inl OutOfRange)"

definition show_word :: "'a::len word \<Rightarrow> string" where
  "show_word w = show_nat (unat w)"

text \<open>The step \<open>std::getline(in, token, d); x = conv(token);\<close> of the deserialisers.\<close>

definition read_num ::
  "(string \<Rightarrow> conv_error + 'a) \<Rightarrow> char \<Rightarrow> string \<Rightarrow> istream \<Rightarrow> conv_error + 'a \<times> string \<times> istream" where
  "read_num conv d token s =
     (let (token', s') = getline d token s
      in case conv token' of Inl e \<Rightarrow> Inl e | Inr v \<Rightarrow> Inr (v, token', s'))"

text \<open>
  What the field-by-field formats need of an integer rendering: it reads back, and it contains
  neither the delimiter nor white space.
\<close>

locale text_codec =
  fixes show_v :: "'a \<Rightarrow> string"
    and read_v :: "string \<Rightarrow> conv_error + 'a"
    and dom_v :: "'a \<Rightarrow> bool"
  assumes read_show: "dom_v x \<Longrightarrow> read_v (show_v x) = Inr x"
    and show_clean: "c \<in> set (show_v x) \<Longrightarrow> is_digit c \<or> c = CHR ''-''"
    and show_nonempty: "show_v x \<noteq> []"
begin

lemma show_no_delim: "\<not> is_digit d \<Longrightarrow> d \<noteq> CHR ''-'' \<Longrightarrow> d \<notin> set (show_v x)"
  using show_clean by blast

lemma read_field:
  "dom_v x \<Longrightarrow> \<not> is_digit d \<Longrightarrow> d \<noteq> CHR ''-'' \<Longrightarrow>
     read_num read_v d tok (Good (show_v x @ d # rest)) = Inr (x, show_v x, Good rest)"
  by (simp add: read_num_def getline_delim show_no_delim read_show)

lemma read_last_field:
  "dom_v x \<Longrightarrow> \<not> is_digit d \<Longrightarrow> d \<noteq> CHR ''-'' \<Longrightarrow>
     read_num read_v d tok (Good (show_v x)) = Inr (x, show_v x, AtEof)"
  by (simp add: read_num_def getline_last show_no_delim read_show show_nonempty)

end

lemma scan_show_int_all: "scan_int (skip_ws (show_int i)) = Some ((i < 0, nat \<bar>i\<bar>), [])"
  using scan_int_show_int [of "[]" i] skip_ws_show_int [of i "[]"]
  by (simp add: no_digit_next_simps)

lemma scan_show_nat_all: "scan_int (skip_ws (show_nat n)) = Some ((False, n), [])"
  using scan_int_show_nat [of "[]" n] skip_ws_show_nat [of n "[]"]
  by (simp add: no_digit_next_simps)

interpretation int32_text: text_codec show_int stoi in_int32
  by unfold_locales (auto simp: stoi_def scan_show_int_all signed_value_abs dest: set_show_int)

interpretation int64_text: text_codec show_int stoll in_int64
  by unfold_locales (auto simp: stoll_def scan_show_int_all signed_value_abs dest: set_show_int)

lemma stoull_show_word: "stoull (show_word w) = Inr w"
proof -
  have "unat w < 2 ^ 64" using unsigned_less [of w, where ?'a = nat] by simp
  then show ?thesis
    by (simp add: stoull_def show_word_def scan_show_nat_all unsigned_value_def uint64_max_def)
qed

interpretation uint64_text: text_codec show_word stoull "\<lambda>_. True"
  by unfold_locales (auto simp: stoull_show_word, auto simp: show_word_def dest: set_show_nat)

section \<open>operator>>\<close>

text \<open>
  A formatted extraction: \<open>None\<close> when it sets \<open>failbit\<close>, otherwise the value and the
  stream afterwards.  Hitting the end while reading a token sets \<open>eofbit\<close>.
\<close>

definition after_read :: "string \<Rightarrow> istream" where
  "after_read r = (if r = [] then AtEof else Good r)"

definition extract_signed :: "(int \<Rightarrow> bool) \<Rightarrow> istream \<Rightarrow> (int \<times> istream) option" where
  "extract_signed in_range s =
     (case s of
        Good r \<Rightarrow> (case scan_int (skip_ws r) of
            None \<Rightarrow> None
          | Some (v, rest) \<Rightarrow>
              if in_range (signed_value v) then Some (signed_value v, after_read rest) else None)
      | AtEof \<Rightarrow> None
      | Failed \<Rightarrow> None)"

definition extract_int :: "istream \<Rightarrow> (int \<times> istream) option" where
  "extract_int = extract_signed in_int32"

definition extract_int64 :: "istream \<Rightarrow> (int \<times> istream) option" where
  "extract_int64 = extract_signed in_int64"

definition extract_unsigned :: "istream \<Rightarrow> ('a::len word \<times> istream) option" where
  "extract_unsigned s =
     (case s of
        Good r \<Rightarrow> (case scan_int (skip_ws r) of
            None \<Rightarrow> None
          | Some (v, rest) \<Rightarrow>
              if snd v < 2 ^ LENGTH('a) then Some (unsigned_value v, after_read rest) else None)
      | AtEof \<Rightarrow> None
      | Failed \<Rightarrow> None)"

definition extract_string :: "istream \<Rightarrow> (string \<times> istream) option" where
  "extract_string s =
     (case s of
        Good r \<Rightarrow>
          (let t = skip_ws r; tok = takeWhile (\<lambda>c. \<not> is_space c) t
           in if tok = [] then None else Some (tok, after_read (dropWhile (\<lambda>c. \<not> is_space c) t)))
      | AtEof \<Rightarrow> None
      | Failed \<Rightarrow> None)"

definition word_like :: "string \<Rightarrow> bool" where
  "word_like s \<longleftrightarrow> s \<noteq> [] \<and> list_all (\<lambda>c. \<not> is_space c) s"

lemma space_not_digit: "is_space c \<Longrightarrow> \<not> is_digit c"
  using digit_not_space by blast

text \<open>
  A file written one value per line is read back value by value, each extraction skipping the
  line end the previous one left.
\<close>

definition lines_of :: "string list \<Rightarrow> string" where
  "lines_of xs = concat (map (\<lambda>x. x @ [CHR 0x0A]) xs)"

definition at_line :: "string list \<Rightarrow> istream \<Rightarrow> bool" where
  "at_line xs s \<longleftrightarrow> s = Good (lines_of xs) \<or> s = Good (CHR 0x0A # lines_of xs)"

lemma is_space_newline [simp]: "is_space (CHR 0x0A)"
  by (simp add: is_space_def)

lemma lines_of_simps [simp]: "lines_of [] = []" "lines_of (x # xs) = x @ CHR 0x0A # lines_of xs"
  by (simp_all add: lines_of_def)

lemma lines_of_append: "lines_of (xs @ ys) = lines_of xs @ lines_of ys"
  by (simp add: lines_of_def)

lemma at_line_start: "at_line xs (Good (lines_of xs))"
  by (simp add: at_line_def)

lemma skip_ws_newline [simp]: "skip_ws (CHR 0x0A # r) = skip_ws r"
  by (simp add: skip_ws_def)

lemma at_lineD: "at_line (x # xs) s \<Longrightarrow>
  \<exists>r. s = Good r \<and> skip_ws r = skip_ws (x @ CHR 0x0A # lines_of xs)"
  by (auto simp: at_line_def)

lemma no_digit_newline [simp]: "no_digit_next (CHR 0x0A # r)"
  by (simp add: no_digit_next_simps is_digit_def)

locale line_codec =
  fixes show_v :: "'a \<Rightarrow> string"
    and extract_v :: "istream \<Rightarrow> ('a \<times> istream) option"
    and dom_v :: "'a \<Rightarrow> bool"
  assumes extract_line: "dom_v x \<Longrightarrow> at_line (show_v x # xs) s \<Longrightarrow>
      extract_v s = Some (x, Good (CHR 0x0A # lines_of xs))"
begin

lemma next_line:
  "dom_v x \<Longrightarrow> extract_v (Good (CHR 0x0A # lines_of (show_v x # xs))) = Some (x, Good (CHR 0x0A # lines_of xs))"
  by (simp add: extract_line at_line_def)

lemma first_line:
  "dom_v x \<Longrightarrow> extract_v (Good (lines_of (show_v x # xs))) = Some (x, Good (CHR 0x0A # lines_of xs))"
  by (simp add: extract_line at_line_def)

end

lemma extract_signed_line:
  assumes "P i" "at_line (show_int i # xs) s"
  shows "extract_signed P s = Some (i, Good (CHR 0x0A # lines_of xs))"
proof -
  from at_lineD [OF assms(2)] obtain r where
    r: "s = Good r" "skip_ws r = show_int i @ CHR 0x0A # lines_of xs"
    by (auto simp: skip_ws_show_int)
  then show ?thesis
    using assms(1) by (simp add: extract_signed_def scan_int_show_int signed_value_abs after_read_def)
qed

interpretation int32_line: line_codec show_int extract_int in_int32
  by unfold_locales (simp add: extract_int_def extract_signed_line)

interpretation int64_line: line_codec show_int extract_int64 in_int64
  by unfold_locales (simp add: extract_int64_def extract_signed_line)

lemma extract_unsigned_line:
  assumes "at_line (show_word (w :: 'a::len word) # xs) s"
  shows "extract_unsigned s = Some (w, Good (CHR 0x0A # lines_of xs))"
proof -
  from at_lineD [OF assms] obtain r where
    r: "s = Good r" "skip_ws r = show_nat (unat w) @ CHR 0x0A # lines_of xs"
    by (auto simp: show_word_def skip_ws_show_nat)
  moreover have "unat w < 2 ^ LENGTH('a)" by (rule unsigned_less)
  ultimately show ?thesis
    by (simp add: extract_unsigned_def scan_int_show_nat unsigned_value_def after_read_def)
qed

interpretation uint64_line: line_codec "show_word :: u64 \<Rightarrow> string" extract_unsigned "\<lambda>_. True"
  by unfold_locales (simp add: extract_unsigned_line)

lemma extract_string_line:
  assumes "word_like x" "at_line (x # xs) s"
  shows "extract_string s = Some (x, Good (CHR 0x0A # lines_of xs))"
proof -
  let ?rest = "CHR 0x0A # lines_of xs"
  have clean: "list_all (\<lambda>c. \<not> is_space c) x" and ne: "x \<noteq> []"
    using assms(1) by (simp_all add: word_like_def)
  then have "skip_ws (x @ ?rest) = x @ ?rest" by (cases x) (simp_all add: skip_ws_def)
  with at_lineD [OF assms(2)] obtain r where
    r: "s = Good r" "skip_ws r = x @ ?rest"
    by auto
  have "takeWhile (\<lambda>c. \<not> is_space c) (x @ ?rest) = x"
    and "dropWhile (\<lambda>c. \<not> is_space c) (x @ ?rest) = ?rest"
    using clean takeWhile_append_hd [of "\<lambda>c. \<not> is_space c" x ?rest]
      dropWhile_append_hd [of "\<lambda>c. \<not> is_space c" x ?rest] by simp_all
  then show ?thesis
    using r ne by (simp add: extract_string_def after_read_def)
qed

interpretation string_line: line_codec "\<lambda>x. x" extract_string word_like
  by unfold_locales (rule extract_string_line)

lemmas next_lines =
  int32_line.next_line int64_line.next_line uint64_line.next_line string_line.next_line
  int32_line.first_line int64_line.first_line uint64_line.first_line string_line.first_line

section \<open>std::from_chars on a whole range\<close>

text \<open>
  \<open>from_chars(begin, end, value)\<close> followed by the test \<open>ec == errc{} && ptr == end\<close>: an
  optional minus sign for signed targets (no plus sign, no white space), at least one digit,
  nothing after the digits, a value in range.
\<close>

definition from_chars_signed :: "(int \<Rightarrow> bool) \<Rightarrow> string \<Rightarrow> int option" where
  "from_chars_signed in_range s =
     (let neg = (s \<noteq> [] \<and> hd s = CHR ''-''); ds = (if neg then tl s else s);
          v = signed_value (neg, digits_value ds)
      in if ds \<noteq> [] \<and> all_digits ds \<and> in_range v then Some v else None)"

definition from_chars_u64 :: "string \<Rightarrow> u64 option" where
  "from_chars_u64 s =
     (if s \<noteq> [] \<and> all_digits s \<and> int (digits_value s) \<le> uint64_max
      then Some (of_nat (digits_value s)) else None)"

lemma from_chars_signed_show_int [text_simps]:
  "P i \<Longrightarrow> from_chars_signed P (show_int i) = Some i"
proof (cases "i < 0")
  case True
  then show "P i \<Longrightarrow> ?thesis"
    by (simp add: from_chars_signed_def show_int_def signed_value_def)
next
  case False
  have "hd (show_nat (nat i)) \<noteq> CHR ''-''" using hd_show_nat [of "nat i"] by auto
  with False show "P i \<Longrightarrow> ?thesis"
    by (simp add: from_chars_signed_def show_int_def signed_value_def)
qed

lemma from_chars_signed_range: "from_chars_signed P s = Some i \<Longrightarrow> P i"
  by (auto simp: from_chars_signed_def Let_def split: if_splits)

section \<open>Loops over lines\<close>

text \<open>A \<open>while (std::getline(in, line, '\n'))\<close> loop whose body skips empty lines.\<close>

function for_lines :: "(string \<Rightarrow> 's \<Rightarrow> 's) \<Rightarrow> string \<Rightarrow> istream \<Rightarrow> 's \<Rightarrow> 's" where
  "for_lines body line s st =
     (if stream_ok (snd (getline (CHR 0x0A) line s))
      then for_lines body (fst (getline (CHR 0x0A) line s)) (snd (getline (CHR 0x0A) line s))
             (if fst (getline (CHR 0x0A) line s) = [] then st else body (fst (getline (CHR 0x0A) line s)) st)
      else st)"
  by pat_completeness auto
termination
  by (relation "measure (\<lambda>(body, line, s, st). stream_measure s)") (auto intro: getline_decreases)

declare for_lines.simps [simp del]

text \<open>The loop over a file of non-empty lines.\<close>

lemma for_lines_file:
  assumes "list_all (\<lambda>l. l \<noteq> [] \<and> CHR 0x0A \<notin> set l) ls"
  shows "for_lines body line (Good (lines_of ls)) st = fold body ls st"
  using assms
proof (induction ls arbitrary: line st)
  case Nil
  then show ?case by (subst for_lines.simps) (simp add: getline_end stream_ok_def)
next
  case (Cons l ls)
  have "getline (CHR 0x0A) line (Good (lines_of (l # ls))) = (l, Good (lines_of ls))"
    using Cons.prems by (simp add: getline_delim)
  then show ?case
    using Cons by (subst for_lines.simps) (simp add: stream_ok_def)
qed

lemma for_lines_keeps:
  "(\<And>line st. J st \<Longrightarrow> J (body line st)) \<Longrightarrow> J st \<Longrightarrow> J (for_lines body l s st)"
proof (induction body l s st rule: for_lines.induct)
  case (1 body l s st)
  then show ?case by (subst for_lines.simps) simp
qed

end
