(* ===== verification/Utils.thy ===== *)
theory Utils
  imports Sha256 Streams
begin

text \<open>
  \<open>src/src/utils.cpp\<close>: the Merkle root over transaction hashes, the proof-of-work test, progress
  percentages, and the strict integer parsers.

  The Merkle computation is modelled level by level as the code runs it, with the node hash as an
  argument of the level step, so that the same recursion can be run on symbolic trees.  The locale
  \<open>merkle_hash\<close> states what the construction needs of its hash function (a fixed digest
  length) and proves there that equal roots give equal leaf lists or an explicit collision.
\<close>

section \<open>Hashing helpers\<close>

definition sha256 :: "string \<Rightarrow> string" where
  "sha256 input = hash_string input"

definition bytesToHex :: "byte list \<Rightarrow> string" where
  "bytesToHex data = concat (map hex_byte data)"

lemma bytesToHex_hex_bytes: "bytesToHex = hex_bytes"
  by (simp add: bytesToHex_def hex_bytes_def fun_eq_iff)

section \<open>Merkle root\<close>

definition MERKLE_LEAF_PREFIX :: byte where "MERKLE_LEAF_PREFIX = 0"
definition MERKLE_NODE_PREFIX :: byte where "MERKLE_NODE_PREFIX = 1"

definition merkleLeaf :: "string \<Rightarrow> byte list" where
  "merkleLeaf transaction_hash = hashRaw (MERKLE_LEAF_PREFIX # bytes_of_string transaction_hash)"

definition merkleNode :: "byte list \<Rightarrow> byte list \<Rightarrow> byte list" where
  "merkleNode left right = hashRaw (MERKLE_NODE_PREFIX # left @ right)"

text \<open>One pass of the inner loop: pair neighbours, promote an unpaired last entry unchanged.\<close>

fun next_level :: "('d \<Rightarrow> 'd \<Rightarrow> 'd) \<Rightarrow> 'd list \<Rightarrow> 'd list" where
  "next_level node (a # b # ds) = node a b # next_level node ds"
| "next_level node ds = ds"

lemma length_next_level: "length (next_level node ds) = (length ds + 1) div 2"
  by (induction node ds rule: next_level.induct) auto

function merkle_reduce :: "('d \<Rightarrow> 'd \<Rightarrow> 'd) \<Rightarrow> 'd list \<Rightarrow> 'd list" where
  "merkle_reduce node level =
     (if length level > 1 then merkle_reduce node (next_level node level) else level)"
  by pat_completeness auto
termination
  by (relation "measure (\<lambda>(node, level). length level)") (auto simp: length_next_level)

declare merkle_reduce.simps [simp del]

definition calculateMerkleRoot :: "string list \<Rightarrow> string" where
  "calculateMerkleRoot transactions =
     (if transactions = [] then sha256 []
      else bytesToHex (hd (merkle_reduce merkleNode (map merkleLeaf transactions))))"

subsection \<open>The tree a root commits to\<close>

datatype 'a mtree = MLeaf 'a | MNode "'a mtree" "'a mtree"

fun leaves :: "'a mtree \<Rightarrow> 'a list" where
  "leaves (MLeaf a) = [a]"
| "leaves (MNode l r) = leaves l @ leaves r"

definition merkle_tree :: "string list \<Rightarrow> string mtree" where
  "merkle_tree xs = hd (merkle_reduce MNode (map MLeaf xs))"

fun tree_digest :: "(byte list \<Rightarrow> byte list) \<Rightarrow> string mtree \<Rightarrow> byte list" where
  "tree_digest H (MLeaf s) = H (MERKLE_LEAF_PREFIX # bytes_of_string s)"
| "tree_digest H (MNode l r) = H (MERKLE_NODE_PREFIX # tree_digest H l @ tree_digest H r)"

text \<open>Every byte string that is fed to the hash function while the digest is computed.\<close>

fun tree_inputs :: "(byte list \<Rightarrow> byte list) \<Rightarrow> string mtree \<Rightarrow> byte list list" where
  "tree_inputs H (MLeaf s) = [MERKLE_LEAF_PREFIX # bytes_of_string s]"
| "tree_inputs H (MNode l r) =
     (MERKLE_NODE_PREFIX # tree_digest H l @ tree_digest H r) # tree_inputs H l @ tree_inputs H r"

definition merkle_inputs :: "string list \<Rightarrow> byte list list" where
  "merkle_inputs xs = (if xs = [] then [[]] else tree_inputs hashRaw (merkle_tree xs))"

definition collides :: "(byte list \<Rightarrow> byte list) \<Rightarrow> byte list list \<Rightarrow> byte list list \<Rightarrow> bool" where
  "collides H xs ys \<longleftrightarrow> (\<exists>a \<in> set xs. \<exists>b \<in> set ys. a \<noteq> b \<and> H a = H b)"

lemma collidesI: "a \<in> set xs \<Longrightarrow> b \<in> set ys \<Longrightarrow> a \<noteq> b \<Longrightarrow> H a = H b \<Longrightarrow> collides H xs ys"
  by (auto simp: collides_def)

lemma collides_mono:
  "collides H xs ys \<Longrightarrow> set xs \<subseteq> set xs' \<Longrightarrow> set ys \<subseteq> set ys' \<Longrightarrow> collides H xs' ys'"
  unfolding collides_def by blast

lemma map_next_level:
  "(\<And>a b. f (g a b) = g' (f a) (f b)) \<Longrightarrow> map f (next_level g ds) = next_level g' (map f ds)"
  by (induction g ds rule: next_level.induct) auto

lemma map_merkle_reduce:
  assumes "\<And>a b. f (g a b) = g' (f a) (f b)"
  shows "map f (merkle_reduce g ds) = merkle_reduce g' (map f ds)"
  using assms
proof (induction g ds rule: merkle_reduce.induct)
  case (1 node level)
  have "map f (next_level node level) = next_level g' (map f level)"
    by (rule map_next_level) (rule "1.prems")
  with 1 show ?case
    by (simp add: merkle_reduce.simps [of _ level] merkle_reduce.simps [of _ "map f level"])
qed

lemma leaves_next_level: "concat (map leaves (next_level MNode ts)) = concat (map leaves ts)"
  by (induction "MNode :: 'a mtree \<Rightarrow> _" ts rule: next_level.induct) auto

lemma leaves_merkle_reduce: "concat (map leaves (merkle_reduce MNode ts)) = concat (map leaves ts)"
proof (induction "MNode :: 'a mtree \<Rightarrow> _" ts rule: merkle_reduce.induct)
  case (1 level)
  then show ?case by (simp add: merkle_reduce.simps [of _ level] leaves_next_level)
qed

lemma merkle_reduce_singleton: "ds \<noteq> [] \<Longrightarrow> \<exists>d. merkle_reduce g ds = [d]"
proof (induction g ds rule: merkle_reduce.induct)
  case (1 node level)
  show ?case
  proof (cases "length level > 1")
    case True
    then have "next_level node level \<noteq> []"
      using length_next_level [of node level] by (cases "next_level node level") auto
    with 1 True show ?thesis by (simp add: merkle_reduce.simps [of node level])
  next
    case False
    moreover from "1.prems" have "0 < length level" by simp
    ultimately have "length level = 1" by linarith
    then obtain d where "level = [d]" by (auto simp: length_Suc_conv)
    then show ?thesis by (simp add: merkle_reduce.simps [of node "[d]"])
  qed
qed

lemma leaves_merkle_tree: "xs \<noteq> [] \<Longrightarrow> leaves (merkle_tree xs) = xs"
  using merkle_reduce_singleton [of "map MLeaf xs" MNode] leaves_merkle_reduce [of "map MLeaf xs"]
  by (auto simp: merkle_tree_def comp_def)

subsection \<open>Binding\<close>

locale merkle_hash =
  fixes H :: "byte list \<Rightarrow> byte list"
  assumes H_length: "length (H x) = 32"
begin

lemma length_tree_digest: "length (tree_digest H t) = 32"
  by (cases t) (simp_all add: H_length)

lemma tree_digest_binding:
  "tree_digest H t = tree_digest H u \<Longrightarrow> t = u \<or> collides H (tree_inputs H t) (tree_inputs H u)"
proof (induction t arbitrary: u)
  case (MLeaf s)
  show ?case
  proof (cases u)
    case (MLeaf s')
    with MLeaf.prems show ?thesis by (auto simp: collides_def)
  next
    case (MNode l r)
    with MLeaf.prems show ?thesis
      by (auto simp: collides_def MERKLE_LEAF_PREFIX_def MERKLE_NODE_PREFIX_def)
  qed
next
  case (MNode l r)
  show ?case
  proof (cases u)
    case (MLeaf s')
    with MNode.prems show ?thesis
      by (auto simp: collides_def MERKLE_LEAF_PREFIX_def MERKLE_NODE_PREFIX_def)
  next
    case u: (MNode l' r')
    let ?a = "MERKLE_NODE_PREFIX # tree_digest H l @ tree_digest H r"
    let ?b = "MERKLE_NODE_PREFIX # tree_digest H l' @ tree_digest H r'"
    show ?thesis
    proof (cases "?a = ?b")
      case False
      then show ?thesis
        using MNode.prems u by (intro disjI2 collidesI [of ?a _ ?b]) auto
    next
      case True
      then have eq: "tree_digest H l = tree_digest H l'" "tree_digest H r = tree_digest H r'"
        by (simp_all add: append_eq_append_conv length_tree_digest)
      have "collides H (tree_inputs H l) (tree_inputs H l') \<Longrightarrow> ?thesis"
        unfolding u by (rule disjI2, erule collides_mono) auto
      moreover have "collides H (tree_inputs H r) (tree_inputs H r') \<Longrightarrow> ?thesis"
        unfolding u by (rule disjI2, erule collides_mono) auto
      ultimately show ?thesis
        using MNode.IH(1) [OF eq(1)] MNode.IH(2) [OF eq(2)] u by blast
    qed
  qed
qed

end

interpretation sha_merkle: merkle_hash hashRaw
  by unfold_locales simp

lemma calculateMerkleRoot_tree:
  assumes "xs \<noteq> []"
  shows "calculateMerkleRoot xs = hex_bytes (tree_digest hashRaw (merkle_tree xs))"
proof -
  from assms obtain t where t: "merkle_reduce MNode (map MLeaf xs) = [t]"
    using merkle_reduce_singleton [of "map MLeaf xs" MNode] by auto
  have "map (tree_digest hashRaw) (merkle_reduce MNode (map MLeaf xs))
      = merkle_reduce merkleNode (map (tree_digest hashRaw) (map MLeaf xs))"
    by (rule map_merkle_reduce) (simp add: merkleNode_def)
  moreover have "map (tree_digest hashRaw) (map MLeaf xs) = map merkleLeaf xs"
    by (simp add: merkleLeaf_def)
  ultimately have "merkle_reduce merkleNode (map merkleLeaf xs) = [tree_digest hashRaw t]"
    using t by (simp only: list.map)
  then show ?thesis
    using assms t by (simp add: calculateMerkleRoot_def bytesToHex_hex_bytes merkle_tree_def)
qed

lemma calculateMerkleRoot_Nil: "calculateMerkleRoot [] = hex_bytes (hashRaw [])"
  by (simp add: calculateMerkleRoot_def sha256_def hash_string_def hash_bytes_hex bytes_of_string_def)

lemma tree_inputs_root: "\<exists>a \<in> set (tree_inputs H t). a \<noteq> [] \<and> H a = tree_digest H t"
  by (cases t) auto

lemma merkle_root_nonempty_vs_empty:
  assumes "xs \<noteq> []" "calculateMerkleRoot xs = calculateMerkleRoot []"
  shows "\<exists>a \<in> set (merkle_inputs xs). a \<noteq> [] \<and> hashRaw a = hashRaw []"
  using assms tree_inputs_root [of hashRaw "merkle_tree xs"]
  by (auto simp: calculateMerkleRoot_tree calculateMerkleRoot_Nil merkle_inputs_def)

lemma merkle_root_binding:
  assumes "calculateMerkleRoot xs = calculateMerkleRoot ys"
  shows "xs = ys \<or> collides hashRaw (merkle_inputs xs) (merkle_inputs ys)"
proof (cases "xs = [] \<or> ys = []")
  case True
  then show ?thesis
    using assms merkle_root_nonempty_vs_empty [of xs] merkle_root_nonempty_vs_empty [of ys]
    by (cases "xs = ys") (auto simp: collides_def merkle_inputs_def intro: sym)
next
  case False
  then have "tree_digest hashRaw (merkle_tree xs) = tree_digest hashRaw (merkle_tree ys)"
    using assms by (simp add: calculateMerkleRoot_tree)
  then show ?thesis
    using sha_merkle.tree_digest_binding [of "merkle_tree xs" "merkle_tree ys"] False
    by (auto simp: merkle_inputs_def) (metis leaves_merkle_tree)
qed

lemma calculateMerkleRoot_lower_hex: "list_all is_lower_hex (calculateMerkleRoot xs)"
  by (cases "xs = []") (simp_all add: calculateMerkleRoot_Nil calculateMerkleRoot_tree hex_bytes_lower)

lemma length_calculateMerkleRoot [simp]: "length (calculateMerkleRoot xs) = 64"
  by (cases "xs = []")
     (simp_all add: calculateMerkleRoot_Nil calculateMerkleRoot_tree sha_merkle.length_tree_digest)

section \<open>Proof of work and progress\<close>

definition checkProofOfWork :: "string \<Rightarrow> int \<Rightarrow> bool" where
  "checkProofOfWork hash difficulty =
     (if difficulty < 0 then False
      else let required = nat difficulty
           in if required > length hash then False
              else list_all (\<lambda>c. c = CHR ''0'') (take required hash))"

lemma checkProofOfWork_zero [simp]: "checkProofOfWork h 0"
  by (simp add: checkProofOfWork_def)

lemma checkProofOfWork_iff:
  "checkProofOfWork h d \<longleftrightarrow> 0 \<le> d \<and> d \<le> int (length h) \<and> (\<forall>i < nat d. h ! i = CHR ''0'')"
  by (auto simp: checkProofOfWork_def Let_def list_all_length)

lemma checkProofOfWork_mono:
  "checkProofOfWork h d \<Longrightarrow> 0 \<le> d' \<Longrightarrow> d' \<le> d \<Longrightarrow> checkProofOfWork h d'"
  by (simp add: checkProofOfWork_iff)

lemma checkProofOfWork_bounds: "checkProofOfWork h d \<Longrightarrow> 0 \<le> d \<and> d \<le> int (length h)"
  by (auto simp: checkProofOfWork_def Let_def split: if_splits)

text \<open>C++ integer division truncates toward zero.\<close>

definition truncated_quotient :: "int \<Rightarrow> int \<Rightarrow> int" where
  "truncated_quotient n d =
     (let q = \<bar>n\<bar> div \<bar>d\<bar> in if (n < 0) = (d < 0) then q else - q)"

lemma truncated_quotient_nonneg: "0 \<le> n \<Longrightarrow> 0 < d \<Longrightarrow> truncated_quotient n d = n div d"
  by (simp add: truncated_quotient_def Let_def)

definition percentComplete :: "int \<Rightarrow> int \<Rightarrow> int" where
  "percentComplete units all_units =
     (if all_units \<le> 0 \<or> units \<le> 0 then 0
      else if units \<ge> all_units then 100
      else to_int32 (truncated_quotient (to_int64 (units * 100)) all_units))"

section \<open>Strict integer parsing\<close>

definition trim :: "string \<Rightarrow> string" where
  "trim text = rev (dropWhile is_space (rev (dropWhile is_space text)))"

definition parseInt :: "string \<Rightarrow> int option" where
  "parseInt text = (let t = trim text in if t = [] then None else from_chars_signed in_int32 t)"

definition parseInt64 :: "string \<Rightarrow> int option" where
  "parseInt64 text = (let t = trim text in if t = [] then None else from_chars_signed in_int64 t)"

lemma trim_padded:
  assumes "list_all is_space pre" "list_all is_space post" "t \<noteq> []"
    and "\<not> is_space (hd t)" "\<not> is_space (last t)"
  shows "trim (pre @ t @ post) = t"
proof -
  have "dropWhile is_space (pre @ t @ post) = t @ post"
    using assms by (intro dropWhile_append_hd) (auto simp: hd_append)
  moreover have "dropWhile is_space (rev post @ rev t) = rev t"
    using assms by (intro dropWhile_append_hd) (auto simp: hd_rev list_all_iff)
  ultimately show ?thesis by (simp add: trim_def)
qed

lemma show_int_no_space: "c \<in> set (show_int i) \<Longrightarrow> \<not> is_space c"
  using set_show_int [of c i] by (auto simp: digit_not_space)

lemma trim_show_int:
  assumes "list_all is_space pre" "list_all is_space post"
  shows "trim (pre @ show_int i @ post) = show_int i"
proof (rule trim_padded [OF assms])
  show "\<not> is_space (hd (show_int i))"
    by (rule show_int_no_space [of _ i]) simp
  show "\<not> is_space (last (show_int i))"
    by (rule show_int_no_space [of _ i]) simp
qed simp

lemma trim_show_int_plain [text_simps]: "trim (show_int i) = show_int i"
  using trim_show_int [of "[]" "[]" i] by simp

lemma parseInt_show_int [text_simps]: "in_int32 i \<Longrightarrow> parseInt (show_int i) = Some i"
  by (simp add: parseInt_def trim_show_int_plain from_chars_signed_show_int)

lemma parseInt64_show_int [text_simps]: "in_int64 i \<Longrightarrow> parseInt64 (show_int i) = Some i"
  by (simp add: parseInt64_def trim_show_int_plain from_chars_signed_show_int)

lemma parseInt_range: "parseInt s = Some i \<Longrightarrow> in_int32 i"
  by (auto simp: parseInt_def Let_def split: if_splits dest: from_chars_signed_range)

lemma parseInt64_range: "parseInt64 s = Some i \<Longrightarrow> in_int64 i"
  by (auto simp: parseInt64_def Let_def split: if_splits dest: from_chars_signed_range)

end
