(* ===== verification/ECCrypto.thy ===== *)
theory ECCrypto
  imports BigArith Sha256 Utils
begin

text \<open>
  \<open>src/src/ECCrypto.cpp\<close>: secp256k1 points, key and signature encodings, signing and
  verification.  \<open>BigInt\<close> values are integers (the theories \<open>BigInt\<close>,
  \<open>BigInt_Division\<close> and \<open>BigInt_Ops\<close> show that its limbs compute them); the operating
  system's random bytes are an argument.  The lemmas are in the theories \<open>EC_Correct\<close> (encodings,
  ranges) and \<open>EC_Group\<close> (what the point arithmetic computes).
\<close>

section \<open>Constants\<close>

definition secp_P :: int where
  "secp_P = 115792089237316195423570985008687907853269984665640564039457584007908834671663"
definition secp_A :: int where "secp_A = 0"
definition secp_B :: int where "secp_B = 7"
definition secp_GX :: int where
  "secp_GX = 55066263022277343669578718895168534326250603453777594175500187360389116729240"
definition secp_GY :: int where
  "secp_GY = 32670510020758816978083085130507043184471273380659243275938904335757337482424"
definition secp_N :: int where
  "secp_N = 115792089237316195423570985008687907852837564279074904382605163141518161494337"

definition PRIVATE_KEY_SIZE :: nat where "PRIVATE_KEY_SIZE = 32"
definition PUBLIC_KEY_SIZE :: nat where "PUBLIC_KEY_SIZE = 33"
definition UNCOMPRESSED_PUBLIC_KEY_SIZE :: nat where "UNCOMPRESSED_PUBLIC_KEY_SIZE = 65"
definition SIGNATURE_SIZE :: nat where "SIGNATURE_SIZE = 64"
definition HASH_SIZE :: nat where "HASH_SIZE = 32"
definition COMPRESSED_EVEN_PREFIX :: byte where "COMPRESSED_EVEN_PREFIX = 2"
definition COMPRESSED_ODD_PREFIX :: byte where "COMPRESSED_ODD_PREFIX = 3"
definition UNCOMPRESSED_PREFIX :: byte where "UNCOMPRESSED_PREFIX = 4"

lemmas ec_sizes = PRIVATE_KEY_SIZE_def PUBLIC_KEY_SIZE_def UNCOMPRESSED_PUBLIC_KEY_SIZE_def
  SIGNATURE_SIZE_def HASH_SIZE_def
lemmas ec_prefixes = COMPRESSED_EVEN_PREFIX_def COMPRESSED_ODD_PREFIX_def UNCOMPRESSED_PREFIX_def

section \<open>Points\<close>

record ec_point =
  px :: int
  py :: int
  pp :: int
  pa :: int
  pb :: int
  is_infinity :: bool

definition ECPoint :: "int \<Rightarrow> int \<Rightarrow> int \<Rightarrow> int \<Rightarrow> int \<Rightarrow> ec_point" where
  "ECPoint gx gy prime curve_a curve_b =
     \<lparr>px = gx, py = gy, pp = prime, pa = curve_a, pb = curve_b, is_infinity = False\<rparr>"

definition secp_G :: ec_point where
  "secp_G = ECPoint secp_GX secp_GY secp_P secp_A secp_B"

definition pointAtInfinity :: "ec_point \<Rightarrow> ec_point" where
  "pointAtInfinity Q = (ECPoint 0 0 (pp Q) (pa Q) (pb Q))\<lparr>is_infinity := True\<rparr>"

definition doubledPoint :: "ec_point \<Rightarrow> ec_point" where
  "doubledPoint Q =
     (if py Q = 0 then pointAtInfinity Q
      else
        let p = pp Q; x = px Q; y = py Q;
            slope = ((squared x * 3 + pa Q) * bigint_inverse (y * 2) p) mod p;
            new_x = (squared slope - x * 2) mod p;
            new_y = (slope * (x - new_x) - y) mod p
        in ECPoint new_x new_y p (pa Q) (pb Q))"

definition ec_add :: "ec_point \<Rightarrow> ec_point \<Rightarrow> ec_point" where
  "ec_add Q R =
     (if is_infinity Q \<and> is_infinity R then pointAtInfinity Q
      else if \<not> is_infinity Q \<and> is_infinity R then Q
      else if is_infinity Q \<and> \<not> is_infinity R then R
      else if px Q = px R \<and> py Q = py R then doubledPoint Q
      else if px Q = px R \<and> py Q \<noteq> py R then pointAtInfinity Q
      else
        let p = pp Q; x = px Q; y = py Q;
            slope = ((py R - y) * bigint_inverse (px R - x) p) mod p;
            new_x = (squared slope - x - px R) mod p;
            new_y = (slope * (x - new_x) - y) mod p
        in ECPoint new_x new_y p (pa Q) (pb Q))"

text \<open>\<open>operator*\<close>: double and add from the digit after the leading one.\<close>

fun ec_mult_loop :: "string \<Rightarrow> ec_point \<Rightarrow> ec_point \<Rightarrow> ec_point" where
  "ec_mult_loop [] base current = current"
| "ec_mult_loop (c # cs) base current =
     (let d = doubledPoint current
      in ec_mult_loop cs base (if c = CHR ''1'' then ec_add d base else d))"

definition ec_mult :: "ec_point \<Rightarrow> int \<Rightarrow> ec_point" where
  "ec_mult Q scalar =
     (if scalar = 0 then pointAtInfinity Q
      else ec_mult_loop (drop 1 (dropWhile (\<lambda>c. c \<noteq> CHR ''1'') (to_binary_string scalar))) Q Q)"

section \<open>Hex\<close>

definition ec_bytesToHex :: "byte list \<Rightarrow> string" where
  "ec_bytesToHex data = concat (map hex_byte data)"

definition hexNibble :: "char \<Rightarrow> int" where
  "hexNibble c =
     (let n = (of_char c :: nat)
      in if 48 \<le> n \<and> n \<le> 57 then int n - 48
         else if 97 \<le> n \<and> n \<le> 102 then int n - 97 + 10
         else if 65 \<le> n \<and> n \<le> 70 then int n - 65 + 10
         else -1)"

text \<open>
  The decoding loop writes into the caller's buffer as it goes: a bad digit stops it with count 0
  but leaves the bytes already written.
\<close>

fun hex_loop :: "string \<Rightarrow> byte list \<Rightarrow> byte list option \<times> byte list" where
  "hex_loop (h # l # cs) acc =
     (let hi = hexNibble h; lo = hexNibble l
      in if hi < 0 \<or> lo < 0 then (None, acc)
         else hex_loop cs (acc @ [word_of_int (hi * 16 + lo)]))"
| "hex_loop _ acc = (Some acc, acc)"

definition overwrite :: "byte list \<Rightarrow> byte list \<Rightarrow> byte list" where
  "overwrite new output = new @ drop (length new) output"

definition hexToBytes :: "string \<Rightarrow> byte list \<Rightarrow> nat \<Rightarrow> nat \<times> byte list" where
  "hexToBytes hex output maxSize =
     (if length hex mod 2 \<noteq> 0 then (0, output)
      else if length hex div 2 > maxSize then (0, output)
      else case hex_loop hex [] of
             (Some bs, _) \<Rightarrow> (length hex div 2, overwrite bs output)
           | (None, written) \<Rightarrow> (0, overwrite written output))"

section \<open>Hashes, addresses, 32-byte integers\<close>

definition zeros :: "nat \<Rightarrow> byte list" where "zeros n = replicate n 0"

definition sha256Hash_string :: "string \<Rightarrow> byte list" where
  "sha256Hash_string message = snd (hexToBytes (hash_string message) (zeros HASH_SIZE) HASH_SIZE)"

definition sha256Hash :: "byte list \<Rightarrow> byte list" where
  "sha256Hash data = snd (hexToBytes (hash_bytes data) (zeros HASH_SIZE) HASH_SIZE)"

definition deriveAddress :: "byte list \<Rightarrow> string" where
  "deriveAddress publicKey = ec_bytesToHex (take 20 (sha256Hash publicKey))"

text \<open>The loop that prepends hex digits while the value is positive.\<close>

function hex_of_int :: "int \<Rightarrow> string \<Rightarrow> string" where
  "hex_of_int temp hex =
     (if temp > 0 then hex_of_int (temp div 16) (hex_digit (nat (temp mod 16)) # hex) else hex)"
  by pat_completeness auto
termination
  by (relation "measure (\<lambda>(temp, hex). nat temp)") auto

declare hex_of_int.simps [simp del]

definition padded_hex :: "int \<Rightarrow> string" where
  "padded_hex num =
     (let hex = (if num = 0 then ''0'' else hex_of_int num [])
      in replicate (64 - length hex) (CHR ''0'') @ hex)"

definition nibble_pair :: "char \<Rightarrow> char \<Rightarrow> byte" where
  "nibble_pair h l = word_of_int (hexNibble h * 16 + hexNibble l)"

definition bigIntToBytes32 :: "int \<Rightarrow> byte list" where
  "bigIntToBytes32 num =
     (let hex = padded_hex num
      in map (\<lambda>i. nibble_pair (hex ! (i * 2)) (hex ! (i * 2 + 1))) [0..<32])"

definition bytes32ToBigInt :: "byte list \<Rightarrow> int" where
  "bytes32ToBigInt data =
     (case bigint_of_string (concat (map hex_byte (take 32 data))) 16 of Inr v \<Rightarrow> v | Inl _ \<Rightarrow> 0)"

definition isValidPrivateKey :: "byte list \<Rightarrow> bool" where
  "isValidPrivateKey privateKey =
     (let key = bytes32ToBigInt privateKey in key > 0 \<and> key < secp_N)"

section \<open>Public keys\<close>

definition modSqrt :: "int \<Rightarrow> int \<Rightarrow> int" where
  "modSqrt n p =
     (if n = 0 then 0
      else if modPow n ((p - 1) div 2) p \<noteq> 1 then 0
      else modPow n ((p + 1) div 4) p)"

definition compressPublicKey :: "ec_point \<Rightarrow> byte list" where
  "compressPublicKey point =
     (if is_infinity point then zeros PUBLIC_KEY_SIZE
      else (if py point mod 2 = 0 then COMPRESSED_EVEN_PREFIX else COMPRESSED_ODD_PREFIX)
             # bigIntToBytes32 (px point))"

definition decompressPublicKey :: "byte list \<Rightarrow> ec_point" where
  "decompressPublicKey compressedKey =
     (if compressedKey ! 0 \<noteq> COMPRESSED_EVEN_PREFIX \<and> compressedKey ! 0 \<noteq> COMPRESSED_ODD_PREFIX
      then pointAtInfinity secp_G
      else
        let x = bytes32ToBigInt (drop 1 compressedKey)
        in if x < 0 \<or> x \<ge> secp_P then pointAtInfinity secp_G
           else
             let x_cubed = (x * x * x) mod secp_P;
                 y_squared = (x_cubed + secp_B) mod secp_P;
                 y0 = modSqrt y_squared secp_P
             in if y0 = 0 \<and> y_squared \<noteq> 0 then pointAtInfinity secp_G
                else
                  let yMod2 = (if y0 mod 2 < 0 then y0 mod 2 + 2 else y0 mod 2);
                      yIsEven = (yMod2 = 0);
                      needEven = (compressedKey ! 0 = COMPRESSED_EVEN_PREFIX);
                      y = (if yIsEven \<noteq> needEven then secp_P - y0 else y0)
                  in ECPoint x y secp_P secp_A secp_B)"

definition isValidPublicKey :: "byte list \<Rightarrow> bool" where
  "isValidPublicKey publicKey =
     (if publicKey ! 0 \<noteq> COMPRESSED_EVEN_PREFIX \<and> publicKey ! 0 \<noteq> COMPRESSED_ODD_PREFIX then False
      else \<not> is_infinity (decompressPublicKey publicKey))"

definition toUncompressedPublicKey :: "ec_point \<Rightarrow> byte list" where
  "toUncompressedPublicKey point =
     (if is_infinity point then zeros UNCOMPRESSED_PUBLIC_KEY_SIZE
      else UNCOMPRESSED_PREFIX # bigIntToBytes32 (px point) @ bigIntToBytes32 (py point))"

definition fromUncompressedPublicKey :: "byte list \<Rightarrow> ec_point" where
  "fromUncompressedPublicKey uncompressedKey =
     (if uncompressedKey ! 0 \<noteq> UNCOMPRESSED_PREFIX then pointAtInfinity secp_G
      else ECPoint (bytes32ToBigInt (drop 1 uncompressedKey))
                   (bytes32ToBigInt (drop 33 uncompressedKey)) secp_P secp_A secp_B)"

definition compressUncompressedKey :: "byte list \<Rightarrow> byte list" where
  "compressUncompressedKey uncompressedKey =
     compressPublicKey (fromUncompressedPublicKey uncompressedKey)"

definition decompressToUncompressed :: "byte list \<Rightarrow> byte list" where
  "decompressToUncompressed compressedKey =
     toUncompressedPublicKey (decompressPublicKey compressedKey)"

definition isCompressedPublicKey :: "byte list \<Rightarrow> bool" where
  "isCompressedPublicKey data =
     (if length data \<noteq> PUBLIC_KEY_SIZE then False
      else data ! 0 = COMPRESSED_EVEN_PREFIX \<or> data ! 0 = COMPRESSED_ODD_PREFIX)"

definition isUncompressedPublicKey :: "byte list \<Rightarrow> bool" where
  "isUncompressedPublicKey data =
     (if length data \<noteq> UNCOMPRESSED_PUBLIC_KEY_SIZE then False
      else data ! 0 = UNCOMPRESSED_PREFIX)"

section \<open>Key pairs and randomness\<close>

record key_pair =
  kp_private_key :: int
  kp_public_key :: ec_point
  kp_private_key_hex :: string
  kp_public_key_hex :: string
  kp_address :: string

definition KeyPair :: "int \<Rightarrow> ec_point \<Rightarrow> key_pair" where
  "KeyPair priv_key pub_key =
     (let compressed = compressPublicKey pub_key
      in \<lparr>kp_private_key = priv_key, kp_public_key = pub_key,
          kp_private_key_hex = padded_hex priv_key,
          kp_public_key_hex = ec_bytesToHex compressed,
          kp_address = deriveAddress compressed\<rparr>)"

definition empty_KeyPair :: key_pair where
  "empty_KeyPair =
     \<lparr>kp_private_key = 0, kp_public_key = pointAtInfinity secp_G, kp_private_key_hex = [],
      kp_public_key_hex = [], kp_address = []\<rparr>"

definition keyPairFromPrivateKey :: "int \<Rightarrow> key_pair" where
  "keyPairFromPrivateKey priv_key = KeyPair priv_key (ec_mult secp_G (priv_key mod secp_N))"

definition keyPairFromPrivateKeyHex :: "string \<Rightarrow> bigint_error + key_pair" where
  "keyPairFromPrivateKeyHex priv_key_hex =
     (case bigint_of_string priv_key_hex 16 of
        Inl e \<Rightarrow> Inl e
      | Inr priv_key \<Rightarrow> Inr (KeyPair priv_key (ec_mult secp_G (priv_key mod secp_N))))"

text \<open>
  \<open>secureRandomBytes\<close> reads the operating system's generator.  Its successive answers are a
  list: \<open>Some bytes\<close> for a draw, \<open>None\<close> for a failure.  A draw that does not fill the
  requested buffer, a failure and an exhausted source are the exception of the code.
\<close>

type_synonym entropy = "byte list option list"

datatype entropy_error = EntropyUnavailable | NoScalarDrawn

definition secureRandomBytes :: "entropy \<Rightarrow> nat \<Rightarrow> entropy_error + byte list \<times> entropy" where
  "secureRandomBytes es n =
     (if n = 0 then Inr ([], es)
      else case es of
             Some bs # es' \<Rightarrow> if length bs = n then Inr (bs, es') else Inl EntropyUnavailable
           | _ \<Rightarrow> Inl EntropyUnavailable)"

fun randomScalar_loop :: "nat \<Rightarrow> entropy \<Rightarrow> entropy_error + int \<times> entropy" where
  "randomScalar_loop 0 es = Inl NoScalarDrawn"
| "randomScalar_loop (Suc attempts) es =
     (case secureRandomBytes es PRIVATE_KEY_SIZE of
        Inl e \<Rightarrow> Inl e
      | Inr (bytes, es') \<Rightarrow>
          (let candidate = bytes32ToBigInt bytes
           in if candidate > 0 \<and> candidate < secp_N then Inr (candidate, es')
              else randomScalar_loop attempts es'))"

definition randomScalar :: "entropy \<Rightarrow> entropy_error + int \<times> entropy" where
  "randomScalar es = randomScalar_loop 128 es"

definition generateKeyPair :: "entropy \<Rightarrow> entropy_error + key_pair \<times> entropy" where
  "generateKeyPair es =
     (case randomScalar es of Inl e \<Rightarrow> Inl e | Inr (k, es') \<Rightarrow> Inr (keyPairFromPrivateKey k, es'))"

section \<open>Signatures\<close>

definition signatureToHex :: "byte list \<Rightarrow> string" where
  "signatureToHex signature = ec_bytesToHex signature"

definition signatureFromHex :: "string \<Rightarrow> byte list" where
  "signatureFromHex hex =
     (let result = zeros SIGNATURE_SIZE
      in if length hex \<noteq> SIGNATURE_SIZE * 2 then result
         else snd (hexToBytes hex result SIGNATURE_SIZE))"

definition challenge :: "int \<Rightarrow> int \<Rightarrow> byte list \<Rightarrow> int" where
  "challenge rx pubx hash =
     bytes32ToBigInt (sha256Hash (bigIntToBytes32 rx @ bigIntToBytes32 pubx @ hash)) mod secp_N"

definition signHash :: "entropy \<Rightarrow> byte list \<Rightarrow> int \<Rightarrow> ec_point \<Rightarrow> entropy_error + byte list \<times> entropy" where
  "signHash es hash privateKey publicKey =
     (if privateKey \<le> 0 \<or> privateKey \<ge> secp_N then Inr (zeros SIGNATURE_SIZE, es)
      else if is_infinity publicKey then Inr (zeros SIGNATURE_SIZE, es)
      else case randomScalar es of
             Inl e \<Rightarrow> Inl e
           | Inr (k, es') \<Rightarrow>
               (let R = ec_mult secp_G k;
                    e = challenge (px R) (px publicKey) hash;
                    s0 = (k + e * privateKey) mod secp_N;
                    s = (if s0 < 0 then s0 + secp_N else s0)
                in Inr (bigIntToBytes32 (px R) @ bigIntToBytes32 s, es')))"

definition signHash_key :: "entropy \<Rightarrow> byte list \<Rightarrow> int \<Rightarrow> entropy_error + byte list \<times> entropy" where
  "signHash_key es hash privateKey =
     (if privateKey \<le> 0 \<or> privateKey \<ge> secp_N then Inr (zeros SIGNATURE_SIZE, es)
      else signHash es hash privateKey (ec_mult secp_G privateKey))"

definition signMessage :: "entropy \<Rightarrow> string \<Rightarrow> int \<Rightarrow> ec_point \<Rightarrow> entropy_error + byte list \<times> entropy" where
  "signMessage es message privateKey publicKey =
     signHash es (sha256Hash_string message) privateKey publicKey"

definition signMessage_key :: "entropy \<Rightarrow> string \<Rightarrow> int \<Rightarrow> entropy_error + byte list \<times> entropy" where
  "signMessage_key es message privateKey = signHash_key es (sha256Hash_string message) privateKey"

text \<open>The overloads that take the private key as bytes.\<close>

definition signHash_bytes :: "entropy \<Rightarrow> byte list \<Rightarrow> byte list \<Rightarrow> entropy_error + byte list \<times> entropy" where
  "signHash_bytes es hash privateKey = signHash_key es hash (bytes32ToBigInt privateKey)"

definition signMessage_bytes :: "entropy \<Rightarrow> string \<Rightarrow> byte list \<Rightarrow> entropy_error + byte list \<times> entropy" where
  "signMessage_bytes es message privateKey = signMessage_key es message (bytes32ToBigInt privateKey)"

definition verifySignature :: "byte list \<Rightarrow> byte list \<Rightarrow> byte list \<Rightarrow> bool" where
  "verifySignature hash signature publicKey =
     (let Rx = bytes32ToBigInt signature; s = bytes32ToBigInt (drop 32 signature)
      in if s \<le> 0 \<or> s \<ge> secp_N then False
         else if Rx \<le> 0 \<or> Rx \<ge> secp_P then False
         else
           let Pk = decompressPublicKey publicKey
           in if is_infinity Pk then False
              else
                let e = challenge Rx (px Pk) hash;
                    sG = ec_mult secp_G s;
                    eP = ec_mult Pk e;
                    negEP = (if \<not> is_infinity eP
                             then ECPoint (px eP) (secp_P - py eP) secp_P secp_A secp_B else eP);
                    computedR = ec_add sG negEP
                in if is_infinity computedR then False else px computedR = Rx)"

definition verifyMessageSignature :: "string \<Rightarrow> byte list \<Rightarrow> byte list \<Rightarrow> bool" where
  "verifyMessageSignature message signature publicKey =
     verifySignature (sha256Hash_string message) signature publicKey"

end
