(* ===== verification/EC_Correct.thy ===== *)
theory EC_Correct
  imports ECCrypto
begin

text \<open>
  What the definitions of \<open>ECCrypto\<close> compute: the hex and 32-byte encodings are mutually
  inverse and strict, \<open>sha256Hash\<close> is the raw digest, modular square roots are square roots,
  decompressed keys lie on the curve and compress back, the sum of two points of the curve is on the
  curve whenever its denominator is invertible, and accepted signatures are canonical.
\<close>

section \<open>Hex decoding\<close>

lemma hexNibble_hex_digit: "n < 16 \<Longrightarrow> hexNibble (hex_digit n) = int n"
  by (auto simp: hexNibble_def hex_digit_def)

lemma hexNibble_range: "hexNibble c < 16" "-1 \<le> hexNibble c"
  by (auto simp: hexNibble_def Let_def)

lemma ec_bytesToHex_hex_bytes: "ec_bytesToHex = hex_bytes"
  by (simp add: ec_bytesToHex_def hex_bytes_def fun_eq_iff)

lemma int_nibbles: "int (n div 16) * 16 + int (n mod 16) = int n"
  using div_mult_mod_eq [of n 16] by (metis of_nat_add of_nat_mult of_nat_numeral)

lemma nibbles_of_byte: "word_of_int (int (unat (b :: byte) div 16) * 16 + int (unat b mod 16)) = b"
  by (simp only: int_nibbles) simp

lemma hex_loop_hex_bytes: "hex_loop (hex_bytes bs) acc = (Some (acc @ bs), acc @ bs)"
proof (induction bs arbitrary: acc)
  case Nil
  then show ?case by simp
next
  case (Cons b bs)
  have "hex_loop (hex_bytes (b # bs)) acc = hex_loop (hex_bytes bs) (acc @ [b])"
    using nibbles_of_byte [of b] by (simp add: hex_byte_def hexNibble_hex_digit Let_def)
  then show ?case using Cons by simp
qed

text \<open>Decoding the rendering of a byte list returns it and fills the buffer from the start.\<close>

lemma hexToBytes_bytesToHex:
  assumes "length bs \<le> maxSize" "length bs \<le> length output"
  shows "hexToBytes (ec_bytesToHex bs) output maxSize = (length bs, bs @ drop (length bs) output)"
  using assms by (simp add: hexToBytes_def ec_bytesToHex_hex_bytes hex_loop_hex_bytes overwrite_def)

lemma hex_loop_Some_iff:
  "even (length s) \<Longrightarrow> (\<exists>bs w. hex_loop s acc = (Some bs, w)) \<longleftrightarrow> list_all (\<lambda>c. 0 \<le> hexNibble c) s"
  by (induction s acc rule: hex_loop.induct) (auto simp: Let_def not_less)

lemma hex_loop_length:
  "hex_loop s acc = (Some bs, w) \<Longrightarrow> even (length s) \<Longrightarrow> length bs = length acc + length s div 2"
  by (induction s acc rule: hex_loop.induct) (auto simp: Let_def split: if_splits)

text \<open>
  Strictness: for a buffer of the full size, the count equals that size exactly when the text has
  twice as many characters, all of them hex digits.
\<close>

lemma hexToBytes_strict:
  assumes "0 < n"
  shows "fst (hexToBytes hex output n) = n \<longleftrightarrow>
     length hex = 2 * n \<and> list_all (\<lambda>c. 0 \<le> hexNibble c) hex"
proof (cases "even (length hex) \<and> length hex div 2 \<le> n")
  case False
  with assms show ?thesis by (auto simp: hexToBytes_def odd_iff_mod_2_eq_one)
next
  case True
  then show ?thesis
    using assms hex_loop_Some_iff [of hex "[]"]
    by (auto simp: hexToBytes_def split: prod.splits option.splits)
qed

lemma sha256Hash_raw: "sha256Hash data = hashRaw data"
  using hexToBytes_bytesToHex [of "hashRaw data" 32 "zeros 32"]
  by (simp add: sha256Hash_def ec_sizes zeros_def hash_bytes_hex ec_bytesToHex_hex_bytes)

lemma sha256Hash_string_raw: "sha256Hash_string s = hashRaw (bytes_of_string s)"
  using sha256Hash_raw [of "bytes_of_string s"]
  by (simp add: sha256Hash_def sha256Hash_string_def hash_string_def)

lemma signatureFromHex_signatureToHex: "length sig = 64 \<Longrightarrow> signatureFromHex (signatureToHex sig) = sig"
  by (simp add: signatureFromHex_def signatureToHex_def hexToBytes_bytesToHex ec_sizes zeros_def
      ec_bytesToHex_hex_bytes Let_def flip: ec_bytesToHex_hex_bytes)
     (simp add: ec_bytesToHex_hex_bytes)

lemma length_deriveAddress: "length (deriveAddress k) = 40"
  by (simp add: deriveAddress_def ec_bytesToHex_hex_bytes sha256Hash_raw)

lemma deriveAddress_lower: "list_all is_lower_hex (deriveAddress k)"
  by (simp add: deriveAddress_def ec_bytesToHex_hex_bytes hex_bytes_lower)

section \<open>32-byte integers\<close>

definition be_value :: "byte list \<Rightarrow> int" where
  "be_value bs = foldl (\<lambda>a b. 256 * a + uint b) 0 bs"

lemma be_value_snoc: "be_value (bs @ [b]) = 256 * be_value bs + uint b"
  by (simp add: be_value_def)

lemma foldl_be: "foldl (\<lambda>a b. 256 * a + uint b) v (bs :: byte list) = v * 256 ^ length bs + be_value bs"
proof (induction bs rule: rev_induct)
  case Nil
  then show ?case by (simp add: be_value_def)
next
  case (snoc b bs)
  then show ?case by (simp add: be_value_snoc algebra_simps)
qed

lemma be_value_Cons: "be_value (b # bs) = uint b * 256 ^ length bs + be_value bs"
  using foldl_be [of "uint b" bs] by (simp add: be_value_def)

lemma be_value_bounds: "0 \<le> be_value bs \<and> be_value bs < 256 ^ length bs"
proof (induction bs rule: rev_induct)
  case Nil
  then show ?case by (simp add: be_value_def)
next
  case (snoc b bs)
  have "0 \<le> uint b \<and> uint b < 256" using uint_lt2p [of b] by simp
  with snoc show ?case by (simp add: be_value_snoc)
qed

lemma digitValue_hex_digit: "n < 16 \<Longrightarrow> digitValue (hex_digit n) = int n"
  by (auto simp: digitValue_def hex_digit_def)

lemma digits_in_base_hex_bytes:
  "digits_in_base 16 (hex_bytes bs) acc = Some (acc * 256 ^ length bs + be_value bs)"
proof (induction bs arbitrary: acc)
  case Nil
  then show ?case by (simp add: be_value_def)
next
  case (Cons b bs)
  have "(acc * 16 + d) * 16 + m = acc * 256 + (d * 16 + m)" for d m :: int by simp
  then have "(acc * 16 + int (unat b div 16)) * 16 + int (unat b mod 16) = acc * 256 + int (unat b)"
    by (simp only: int_nibbles)
  then have "digits_in_base 16 (hex_byte b) acc = Some (acc * 256 + uint b)"
    by (simp add: hex_byte_def digitValue_hex_digit Let_def not_le)
  then show ?case
    by (simp add: digits_in_base_append Cons.IH be_value_Cons algebra_simps)
qed

lemma hex_byte_not_sign: "hd (hex_byte b) \<noteq> CHR ''+''" "hd (hex_byte b) \<noteq> CHR ''-''"
  using hex_byte_lower [of "hd (hex_byte b)" b]
  by (auto simp: hex_byte_def is_lower_hex_def is_digit_def)

lemma bytes32ToBigInt_be:
  assumes "32 \<le> length data"
  shows "bytes32ToBigInt data = be_value (take 32 data)"
proof -
  obtain b bs where t: "take 32 data = b # bs" using assms by (cases "take 32 data") auto
  then have ne: "hex_bytes (take 32 data) \<noteq> []"
    and "hd (hex_bytes (take 32 data)) = hd (hex_byte b)" by (simp_all add: hex_byte_def)
  then have "hd (hex_bytes (take 32 data)) \<noteq> CHR ''+''" "hd (hex_bytes (take 32 data)) \<noteq> CHR ''-''"
    using hex_byte_not_sign by simp_all
  then have "bigint_of_string (hex_bytes (take 32 data)) 16 = Inr (be_value (take 32 data))"
    using ne by (simp add: bigint_of_string_def digits_in_base_hex_bytes)
  then show ?thesis by (simp add: bytes32ToBigInt_def hex_bytes_def)
qed

lemma hex_of_int_append: "hex_of_int n (s @ t) = hex_of_int n s @ t"
proof (induction n s rule: hex_of_int.induct)
  case (1 temp hex)
  then show ?case
    by (subst (1 2) hex_of_int.simps) simp
qed


lemma hex_of_int_snoc:
  "0 < n \<Longrightarrow> hex_of_int n [] = hex_of_int (n div 16) [] @ [hex_digit (nat (n mod 16))]"
  using hex_of_int_append [of "n div 16" "[]" "[hex_digit (nat (n mod 16))]"]
  by (subst hex_of_int.simps) simp

lemma hex_of_int_zero: "hex_of_int 0 [] = []"
  by (subst hex_of_int.simps) simp

text \<open>The \<open>k\<close>-digit hex rendering, most significant digit first.\<close>

fun hex_fixed :: "nat \<Rightarrow> int \<Rightarrow> string" where
  "hex_fixed 0 n = []"
| "hex_fixed (Suc k) n = hex_fixed k (n div 16) @ [hex_digit (nat (n mod 16))]"

lemma div_16_less: "n < 16 * m \<Longrightarrow> n div 16 < (m :: int)"
  by presburger

lemma hex_digit_zero [simp]: "hex_digit 0 = CHR ''0''"
  by code_simp

lemma hex_of_int_fixed:
  "0 \<le> n \<Longrightarrow> n < 16 ^ k \<Longrightarrow>
     length (hex_of_int n []) \<le> k \<and>
     replicate (k - length (hex_of_int n [])) (CHR ''0'') @ hex_of_int n [] = hex_fixed k n"
proof (induction k arbitrary: n)
  case 0
  then have "n = 0" by simp
  then show ?case by (simp add: hex_of_int_zero)
next
  case (Suc k)
  then have IH: "length (hex_of_int (n div 16) []) \<le> k"
    "replicate (k - length (hex_of_int (n div 16) [])) (CHR ''0'') @ hex_of_int (n div 16) []
      = hex_fixed k (n div 16)"
    using Suc.IH [of "n div 16"] by (auto simp: pos_imp_zdiv_nonneg_iff intro!: div_16_less)
  show ?case
  proof (cases "n = 0")
    case True
    with IH have "replicate k (CHR ''0'') = hex_fixed k 0" by (simp add: hex_of_int_zero)
    then have "replicate (Suc k) (CHR ''0'') = hex_fixed (Suc k) 0"
      using replicate_append_same [of k "CHR ''0''"] by simp
    with True show ?thesis by (simp add: hex_of_int_zero del: replicate.simps hex_fixed.simps)
  next
    case False
    with Suc.prems have "hex_of_int n [] = hex_of_int (n div 16) [] @ [hex_digit (nat (n mod 16))]"
      by (intro hex_of_int_snoc) simp
    with IH show ?thesis by (simp flip: append_assoc)
  qed
qed

lemma padded_hex_fixed:
  assumes "0 \<le> n" "n < 16 ^ 64"
  shows "padded_hex n = hex_fixed 64 n"
proof (cases "n = 0")
  case True
  have "replicate 63 (CHR ''0'') @ ''0'' = replicate 64 (CHR ''0'')"
    by (simp add: replicate_append_same flip: replicate_Suc)
  then show ?thesis
    using True hex_of_int_fixed [of 0 64] by (simp add: padded_hex_def hex_of_int_zero)
next
  case False
  then show ?thesis using hex_of_int_fixed [OF assms] by (simp add: padded_hex_def Let_def)
qed

lemma byte_shift_div:
  fixes v u :: int
  assumes "0 \<le> u" "u < 256"
  shows "(256 * v + u) div 16 div 16 = v" "(256 * v + u) mod 16 = u mod 16"
    "((256 * v + u) div 16) mod 16 = u div 16"
proof -
  have m: "(256 * v + u) mod 16 = u mod 16" using mod_mult_self4 [of 16 "16 * v" u] by simp
  have d: "(256 * v + u) div 16 = 16 * v + u div 16"
    using div_mult_self4 [of 16 "16 * v" u] by simp
  have "0 \<le> u div 16" "u div 16 < 16" using assms by simp_all
  then show "(256 * v + u) div 16 div 16 = v" "((256 * v + u) div 16) mod 16 = u div 16"
    by (simp_all add: d)
  show "(256 * v + u) mod 16 = u mod 16" by (rule m)
qed

lemma nat_uint_nibbles:
  "nat (uint (b :: byte) div 16) = unat b div 16" "nat (uint (b :: byte) mod 16) = unat b mod 16"
  by (simp_all add: nat_div_distrib nat_mod_distrib)

lemma hex_bytes_fixed: "hex_bytes bs = hex_fixed (2 * length bs) (be_value bs)"
proof (induction bs rule: rev_induct)
  case Nil
  then show ?case by simp
next
  case (snoc b bs)
  let ?v = "256 * be_value bs + uint b"
  have "0 \<le> uint b" "uint b < 256" using uint_lt2p [of b] by simp_all
  note d = byte_shift_div [OF this, of "be_value bs"]
  have len: "2 * length (bs @ [b]) = Suc (Suc (2 * length bs))" by simp
  have "hex_fixed (2 * length (bs @ [b])) ?v = hex_fixed (2 * length bs) (be_value bs)
      @ [hex_digit (nat (uint b div 16)), hex_digit (nat (uint b mod 16))]"
    by (simp only: len hex_fixed.simps d append_assoc append.simps)
  also have "[hex_digit (nat (uint b div 16)), hex_digit (nat (uint b mod 16))] = hex_byte b"
    by (simp only: hex_byte_def nat_uint_nibbles)
  finally have "hex_fixed (2 * length (bs @ [b])) ?v =
      hex_fixed (2 * length bs) (be_value bs) @ hex_byte b" .
  moreover have "hex_bytes (bs @ [b]) = hex_bytes bs @ hex_byte b"
    by (simp add: hex_bytes_def)
  ultimately show ?case using snoc by (simp add: be_value_snoc)
qed

lemma nibble_pair_byte: "nibble_pair (hex_digit (unat b div 16)) (hex_digit (unat b mod 16)) = b"
  using nibbles_of_byte [of b] by (simp add: nibble_pair_def hexNibble_hex_digit)

lemma hex_bytes_nth:
  "i < length bs \<Longrightarrow>
     hex_bytes bs ! (i * 2) = hex_digit (unat (bs ! i) div 16) \<and>
     hex_bytes bs ! (i * 2 + 1) = hex_digit (unat (bs ! i) mod 16)"
proof (induction bs arbitrary: i)
  case Nil
  then show ?case by simp
next
  case (Cons b bs)
  then show ?case by (cases i) (simp_all add: hex_byte_def)
qed

lemma length_bigIntToBytes32 [simp]: "length (bigIntToBytes32 n) = 32"
  by (simp add: bigIntToBytes32_def Let_def)

lemma bigIntToBytes32_be_value:
  assumes "length bs = 32"
  shows "bigIntToBytes32 (be_value bs) = bs"
proof -
  have "be_value bs < 16 ^ 64" "0 \<le> be_value bs"
    using be_value_bounds [of bs] assms by simp_all
  then have hex: "padded_hex (be_value bs) = hex_bytes bs"
    using assms by (simp add: padded_hex_fixed hex_bytes_fixed)
  show ?thesis
  proof (rule nth_equalityI)
    fix i assume "i < length (bigIntToBytes32 (be_value bs))"
    then have i: "i < 32" by simp
    then show "bigIntToBytes32 (be_value bs) ! i = bs ! i"
      using hex_bytes_nth [of i bs] assms
      by (simp add: bigIntToBytes32_def hex nibble_pair_byte Let_def)
  qed (simp add: assms)
qed

lemma bigIntToBytes32_bytes32ToBigInt:
  "length bs = 32 \<Longrightarrow> bigIntToBytes32 (bytes32ToBigInt bs) = bs"
  by (simp add: bytes32ToBigInt_be bigIntToBytes32_be_value)

lemma div_256_less: "n < 256 * m \<Longrightarrow> n div 256 < (m :: int)"
  by presburger

lemma be_value_surj: "0 \<le> n \<Longrightarrow> n < 256 ^ k \<Longrightarrow> \<exists>bs. length bs = k \<and> be_value bs = n"
proof (induction k arbitrary: n)
  case 0
  then show ?case by (simp add: be_value_def)
next
  case (Suc k)
  have "n div 256 < 256 ^ k" using Suc.prems(2) by (intro div_256_less) simp
  with Suc.prems(1) obtain bs where bs: "length bs = k" "be_value bs = n div 256"
    using Suc.IH [of "n div 256"] by (auto simp: pos_imp_zdiv_nonneg_iff)
  have "uint (word_of_int (n mod 256) :: byte) = n mod 256"
    by (simp add: uint_word_of_int take_bit_int_eq_self)
  with bs have "length (bs @ [word_of_int (n mod 256)]) = Suc k \<and>
      be_value (bs @ [word_of_int (n mod 256)]) = n"
    by (simp add: be_value_snoc)
  then show ?case by blast
qed

lemma bytes32ToBigInt_bigIntToBytes32:
  assumes "0 \<le> n" "n < 2 ^ 256"
  shows "bytes32ToBigInt (bigIntToBytes32 n) = n"
proof -
  obtain bs where "length bs = 32" "be_value bs = n"
    using be_value_surj [of n 32] assms by auto
  then show ?thesis by (auto simp: bigIntToBytes32_be_value bytes32ToBigInt_be)
qed

lemma bytes32ToBigInt_range:
  "32 \<le> length bs \<Longrightarrow> 0 \<le> bytes32ToBigInt bs \<and> bytes32ToBigInt bs < 2 ^ 256"
  using be_value_bounds [of "take 32 bs"] by (simp add: bytes32ToBigInt_be)

lemma bytes32ToBigInt_take: "bytes32ToBigInt (take 32 bs) = bytes32ToBigInt bs"
  by (simp add: bytes32ToBigInt_def)

section \<open>Square roots and key decompression\<close>

text \<open>
  For a modulus that is 3 modulo 4, the exponentiation \<open>modSqrt\<close> returns a square root whenever
  its Euler test passes; primality of the modulus is not needed for this direction.
\<close>

lemma modSqrt_square:
  assumes "p mod 4 = 3" "3 \<le> p" "modSqrt n p \<noteq> 0"
  shows "(modSqrt n p * modSqrt n p) mod p = n mod p"
proof -
  let ?h = "(p - 1) div 2" and ?q = "(p + 1) div 4"
  have h: "n ^ nat ?h mod p = 1" and r: "modSqrt n p = n ^ nat ?q mod p"
    using assms by (auto simp: modSqrt_def modPow_correct split: if_splits)
  have "2 * ?q = ?h + 1" using assms(1) by presburger
  moreover have "0 \<le> ?q" "0 \<le> ?h" using assms(2) by simp_all
  ultimately have "nat ?q + nat ?q = Suc (nat ?h)" by linarith
  then have sq: "n ^ nat ?q * n ^ nat ?q = n * n ^ nat ?h" by (simp flip: power_add)
  have "(modSqrt n p * modSqrt n p) mod p = (n * (n ^ nat ?h mod p)) mod p"
    by (simp only: r mod_mult_left_eq mod_mult_right_eq sq)
  then show ?thesis by (simp add: h)
qed

lemma modSqrt_range: "3 \<le> p \<Longrightarrow> 0 \<le> modSqrt n p \<and> modSqrt n p < p"
  by (auto simp: modSqrt_def modPow_correct)

definition on_curve :: "ec_point \<Rightarrow> bool" where
  "on_curve Q \<longleftrightarrow> (py Q * py Q - (px Q * px Q * px Q + pa Q * px Q + pb Q)) mod pp Q = 0"

lemma on_curve_iff:
  "on_curve Q \<longleftrightarrow> pp Q dvd py Q * py Q - (px Q * px Q * px Q + pa Q * px Q + pb Q)"
  by (simp add: on_curve_def dvd_eq_mod_eq_0)

lemma secp_P_mod_4: "secp_P mod 4 = 3" and secp_P_odd: "secp_P mod 2 = 1" and secp_P_pos: "3 \<le> secp_P"
  by (simp_all add: secp_P_def)

lemma generator_on_curve: "on_curve secp_G"
proof -
  have "secp_GY * secp_GY - (secp_GX * secp_GX * secp_GX + 7) = secp_P *
    -1442042049659660869506300006036683750029629333882594701370927246876626245108435922902327776681700708714008192087431130951749952236093997894375239788520937"
    by (simp add: secp_P_def secp_GX_def secp_GY_def)
  then have "secp_P dvd secp_GY * secp_GY - (secp_GX * secp_GX * secp_GX + 7)" by (simp only: dvd_triv_left)
  then show ?thesis
    by (simp add: on_curve_iff secp_G_def ECPoint_def secp_A_def secp_B_def)
qed

lemma pointAtInfinity_infinite [simp]: "is_infinity (pointAtInfinity Q)"
  by (simp add: pointAtInfinity_def)

lemma ECPoint_sel [simp]:
  "px (ECPoint x y p a b) = x" "py (ECPoint x y p a b) = y" "pp (ECPoint x y p a b) = p"
  "pa (ECPoint x y p a b) = a" "pb (ECPoint x y p a b) = b" "\<not> is_infinity (ECPoint x y p a b)"
  by (simp_all add: ECPoint_def)

text \<open>The shape of every finite result of \<open>decompressPublicKey\<close>.\<close>

lemma decompress_finite:
  assumes "\<not> is_infinity (decompressPublicKey k)"
  obtains x y0 y where
    "decompressPublicKey k = ECPoint x y secp_P secp_A secp_B"
    "k ! 0 = COMPRESSED_EVEN_PREFIX \<or> k ! 0 = COMPRESSED_ODD_PREFIX"
    "x = bytes32ToBigInt (drop 1 k)" "0 \<le> x" "x < secp_P"
    "y0 = modSqrt ((x * x * x mod secp_P + secp_B) mod secp_P) secp_P"
    "y0 = 0 \<longrightarrow> (x * x * x mod secp_P + secp_B) mod secp_P = 0"
    "y = (if (y0 mod 2 = 0) \<noteq> (k ! 0 = COMPRESSED_EVEN_PREFIX) then secp_P - y0 else y0)"
proof -
  let ?x = "bytes32ToBigInt (drop 1 k)"
  let ?sq = "(?x * ?x * ?x mod secp_P + secp_B) mod secp_P"
  let ?y0 = "modSqrt ?sq secp_P"
  have pre: "k ! 0 = COMPRESSED_EVEN_PREFIX \<or> k ! 0 = COMPRESSED_ODD_PREFIX"
    and x: "0 \<le> ?x" "?x < secp_P" and y0: "?y0 = 0 \<longrightarrow> ?sq = 0"
    using assms by (auto simp: decompressPublicKey_def Let_def split: if_splits)
  have m: "\<not> ?y0 mod 2 < 0" by simp
  show thesis
  proof (rule that [OF _ pre refl x refl y0 refl])
    show "decompressPublicKey k = ECPoint ?x
       (if (?y0 mod 2 = 0) \<noteq> (k ! 0 = COMPRESSED_EVEN_PREFIX) then secp_P - ?y0 else ?y0)
       secp_P secp_A secp_B"
      unfolding decompressPublicKey_def Let_def using pre x y0 m by auto
  qed
qed

lemma dvd_square_sum_cong:
  assumes "(y * y) mod p = c mod (p :: int)" "c mod p = (x3 mod p + b) mod p"
  shows "p dvd y * y - (x3 + b)"
  using assms by (simp add: mod_eq_dvd_iff mod_add_left_eq)

lemma decompress_on_curve:
  assumes "\<not> is_infinity (decompressPublicKey k)"
  shows "on_curve (decompressPublicKey k)"
proof -
  obtain x y0 y where d: "decompressPublicKey k = ECPoint x y secp_P secp_A secp_B"
    and y0: "y0 = modSqrt ((x * x * x mod secp_P + secp_B) mod secp_P) secp_P"
      "y0 = 0 \<longrightarrow> (x * x * x mod secp_P + secp_B) mod secp_P = 0"
    and y: "y = (if (y0 mod 2 = 0) \<noteq> (k ! 0 = COMPRESSED_EVEN_PREFIX) then secp_P - y0 else y0)"
    by (rule decompress_finite [OF assms], rule that)
  let ?sq = "(x * x * x mod secp_P + secp_B) mod secp_P"
  have "(y0 * y0) mod secp_P = ?sq mod secp_P"
    using y0 modSqrt_square [OF secp_P_mod_4 secp_P_pos, of ?sq] by (cases "y0 = 0") auto
  then have dvd: "secp_P dvd y0 * y0 - (x * x * x + secp_B)"
    by (rule dvd_square_sum_cong) simp
  have "(secp_P - y0) * (secp_P - y0) - (x * x * x + secp_B)
      = secp_P * (secp_P - 2 * y0) + (y0 * y0 - (x * x * x + secp_B))"
    by (simp add: algebra_simps)
  then have "secp_P dvd (secp_P - y0) * (secp_P - y0) - (x * x * x + secp_B)"
    using dvd by (simp only: dvd_add_triv_right_iff dvd_triv_left dvd_add)
  with dvd have "secp_P dvd y * y - (x * x * x + secp_B)" by (simp add: y)
  then show ?thesis by (simp add: d on_curve_iff secp_A_def)
qed

lemma compress_decompress:
  assumes "length k = 33" "\<not> is_infinity (decompressPublicKey k)"
  shows "compressPublicKey (decompressPublicKey k) = k"
proof -
  obtain x y0 y where d: "decompressPublicKey k = ECPoint x y secp_P secp_A secp_B"
    and pre: "k ! 0 = COMPRESSED_EVEN_PREFIX \<or> k ! 0 = COMPRESSED_ODD_PREFIX"
    and x: "x = bytes32ToBigInt (drop 1 k)"
    and y: "y = (if (y0 mod 2 = 0) \<noteq> (k ! 0 = COMPRESSED_EVEN_PREFIX) then secp_P - y0 else y0)"
    by (rule decompress_finite [OF assms(2)], rule that)
  have "(secp_P - y0) mod 2 = 0 \<longleftrightarrow> y0 mod 2 \<noteq> 0" using secp_P_odd by presburger
  then have "y mod 2 = 0 \<longleftrightarrow> k ! 0 = COMPRESSED_EVEN_PREFIX" by (auto simp: y)
  then have "compressPublicKey (decompressPublicKey k) = k ! 0 # bigIntToBytes32 x"
    using pre by (auto simp: d compressPublicKey_def)
  also have "bigIntToBytes32 x = drop 1 k"
    unfolding x by (rule bigIntToBytes32_bytes32ToBigInt) (simp add: assms(1))
  also have "k ! 0 # drop 1 k = k" using assms(1) by (cases k) simp_all
  finally show ?thesis .
qed

section \<open>The addition stays on the curve\<close>

definition curve_expr :: "int \<Rightarrow> int \<Rightarrow> int \<Rightarrow> int \<Rightarrow> int" where
  "curve_expr a b x y = y * y - (x * x * x + a * x + b)"

lemma on_curve_expr: "on_curve Q \<longleftrightarrow> pp Q dvd curve_expr (pa Q) (pb Q) (px Q) (py Q)"
  by (simp add: on_curve_iff curve_expr_def)

lemma curve_expr_cong:
  assumes "p dvd x - x'" "p dvd y - y'"
  shows "p dvd curve_expr a b x y \<longleftrightarrow> p dvd curve_expr a b x' y'"
proof -
  have "curve_expr a b x y - curve_expr a b x' y' =
      (y - y') * (y + y') - (x - x') * (x * x + x * x' + x' * x' + a)"
    by (simp add: curve_expr_def algebra_simps)
  then have "p dvd curve_expr a b x y - curve_expr a b x' y'"
    using assms by (simp only: dvd_diff dvd_mult2)
  then show ?thesis using dvd_diff_commute dvd_add_right_iff [of p] by (metis diff_add_cancel)
qed

text \<open>
  The line through a curve point with slope \<open>s\<close>; \<open>chord s x1 x2 y1\<close> vanishes modulo the prime
  exactly when the line meets the curve again at \<open>x2\<close>.
\<close>

definition chord :: "int \<Rightarrow> int \<Rightarrow> int \<Rightarrow> int \<Rightarrow> int \<Rightarrow> int" where
  "chord a s x1 x2 y1 = x2 * x2 + x2 * x1 + x1 * x1 + a - s * s * (x2 - x1) - 2 * s * y1"

lemma third_point:
  assumes "p dvd curve_expr a b x1 y1" "p dvd chord a s x1 x2 y1"
    and x3: "x3 = (s * s - x1 - x2) mod p" and y3: "y3 = (s * (x1 - x3) - y1) mod p"
  shows "p dvd curve_expr a b x3 y3"
proof -
  let ?x = "s * s - x1 - x2"
  let ?y = "s * (x1 - ?x) - y1"
  have "curve_expr a b ?x ?y = curve_expr a b x1 y1 - (?x - x1) * chord a s x1 x2 y1"
    by (simp add: curve_expr_def chord_def algebra_simps)
  then have "p dvd curve_expr a b ?x ?y" using assms(1,2) by simp
  moreover have dx: "p dvd x3 - ?x" by (simp add: x3 mod_eq_dvd_iff [symmetric])
  moreover have "p dvd y3 - ?y"
  proof -
    have "p dvd y3 - (s * (x1 - x3) - y1)" by (simp add: y3 mod_eq_dvd_iff [symmetric])
    moreover have "(s * (x1 - x3) - y1) - ?y = (x3 - ?x) * (- s)" by (simp add: algebra_simps)
    then have "p dvd (s * (x1 - x3) - y1) - ?y" using dx by (simp only: dvd_mult2)
    ultimately have "p dvd (y3 - (s * (x1 - x3) - y1)) + ((s * (x1 - x3) - y1) - ?y)"
      by (rule dvd_add)
    moreover have "(y3 - (s * (x1 - x3) - y1)) + ((s * (x1 - x3) - y1) - ?y) = y3 - ?y" by linarith
    ultimately show ?thesis by (simp only:)
  qed
  ultimately show ?thesis by (simp add: curve_expr_cong)
qed

lemma chord_vanishes:
  assumes "p dvd curve_expr a b x1 y1" "p dvd curve_expr a b x2 y2"
    and "p dvd s * (x2 - x1) - (y2 - y1)" "coprime (x2 - x1) p"
  shows "p dvd chord a s x1 x2 y1"
proof -
  let ?L = "s * (x2 - x1) - (y2 - y1)"
  have "(x2 - x1) * chord a s x1 x2 y1
      = curve_expr a b x1 y1 - curve_expr a b x2 y2 - ?L * (2 * y2 + ?L)"
    by (simp add: curve_expr_def chord_def algebra_simps)
  then have "p dvd (x2 - x1) * chord a s x1 x2 y1"
    using assms(1-3) by (simp only: dvd_diff dvd_mult2)
  then show ?thesis
    using assms(4) by (simp add: coprime_dvd_mult_right_iff coprime_commute)
qed

lemma slope_solves:
  assumes "coprime d p" "0 < p"
  shows "p dvd (n * bigint_inverse d p) mod p * d - n"
proof -
  have "(n * bigint_inverse d p) mod p * d mod p = n * bigint_inverse d p * d mod p"
    by (rule mod_mult_left_eq)
  also have "\<dots> = n * (d * bigint_inverse d p) mod p" by (simp only: ac_simps)
  also have "\<dots> = n * (d * bigint_inverse d p mod p) mod p" by (simp only: mod_mult_right_eq)
  also have "\<dots> = n mod p" by (simp add: inverse_correct [OF assms] mod_mult_right_eq)
  finally show ?thesis by (simp add: mod_eq_dvd_iff)
qed

text \<open>
  Two finite points of one curve: their sum is the point at infinity or a point of the curve, as
  soon as the difference of their first coordinates (for a doubling: twice the second coordinate)
  is invertible modulo the curve's prime.
\<close>

lemma doubledPoint_on_curve:
  assumes "on_curve Q" "0 < pp Q" "py Q \<noteq> 0 \<Longrightarrow> coprime (py Q * 2) (pp Q)"
  shows "is_infinity (doubledPoint Q) \<or> on_curve (doubledPoint Q)"
proof (cases "py Q = 0")
  case True
  then show ?thesis by (simp add: doubledPoint_def)
next
  case False
  let ?x = "px Q" and ?y = "py Q" and ?p = "pp Q"
  let ?s = "((squared ?x * 3 + pa Q) * bigint_inverse (?y * 2) ?p) mod ?p"
  have "?p dvd ?s * (?y * 2) - (squared ?x * 3 + pa Q)"
    using assms(2,3) False by (intro slope_solves) auto
  moreover have "chord (pa Q) ?s ?x ?x ?y = - (?s * (?y * 2) - (squared ?x * 3 + pa Q))"
    by (simp add: chord_def squared_def)
  ultimately have c: "?p dvd chord (pa Q) ?s ?x ?x ?y" by (simp only: dvd_minus_iff)
  have "on_curve (doubledPoint Q)"
    using False assms(1) c
    by (auto simp: on_curve_expr doubledPoint_def Let_def squared_def mult_2_right
        intro!: third_point [of _ _ _ ?x ?y ?s ?x] arg_cong [where f = "\<lambda>z. z mod ?p"])
  then show ?thesis ..
qed

lemma ec_add_on_curve:
  assumes Q: "on_curve Q" "\<not> is_infinity Q" and R: "on_curve R" "\<not> is_infinity R"
    and same: "pp R = pp Q" "pa R = pa Q" "pb R = pb Q" "0 < pp Q"
    and chord: "px Q \<noteq> px R \<Longrightarrow> coprime (px R - px Q) (pp Q)"
    and tangent: "Q = R \<Longrightarrow> py Q \<noteq> 0 \<Longrightarrow> coprime (py Q * 2) (pp Q)"
  shows "is_infinity (ec_add Q R) \<or> on_curve (ec_add Q R)"
proof (cases "px Q = px R")
  case True
  show ?thesis
  proof (cases "py Q = py R")
    case eq: True
    then have "Q = R" using True same Q(2) R(2) by simp
    then show ?thesis
      using doubledPoint_on_curve [OF Q(1) same(4) tangent] Q(2) by (simp add: ec_add_def)
  next
    case False
    then show ?thesis using True Q(2) R(2) by (simp add: ec_add_def)
  qed
next
  case False
  let ?p = "pp Q"
  let ?s = "((py R - py Q) * bigint_inverse (px R - px Q) ?p) mod ?p"
  have "?p dvd ?s * (px R - px Q) - (py R - py Q)"
    using chord [OF False] same(4) by (rule slope_solves)
  then have "?p dvd chord (pa Q) ?s (px Q) (px R) (py Q)"
    using Q(1) R(1) same chord [OF False]
    by (intro chord_vanishes [where b = "pb Q" and ?y2.0 = "py R"]) (auto simp: on_curve_expr)
  then have "on_curve (ec_add Q R)"
    using False Q R
    by (auto simp: on_curve_expr ec_add_def Let_def squared_def
        intro!: third_point [of _ _ _ "px Q" "py Q" ?s "px R"])
  then show ?thesis ..
qed

section \<open>Accepted signatures\<close>

lemma verifySignature_canonical:
  assumes "verifySignature hash signature publicKey"
  shows "0 < bytes32ToBigInt signature \<and> bytes32ToBigInt signature < secp_P \<and>
         0 < bytes32ToBigInt (drop 32 signature) \<and> bytes32ToBigInt (drop 32 signature) < secp_N \<and>
         on_curve (decompressPublicKey publicKey) \<and> \<not> is_infinity (decompressPublicKey publicKey)"
  using assms decompress_on_curve
  by (auto simp: verifySignature_def Let_def split: if_splits)

lemma randomScalar_loop_range:
  "randomScalar_loop n es = Inr (k, es') \<Longrightarrow> 0 < k \<and> k < secp_N"
  by (induction n es rule: randomScalar_loop.induct)
     (auto simp: Let_def split: sum.splits prod.splits if_splits)

lemma randomScalar_range: "randomScalar es = Inr (k, es') \<Longrightarrow> 0 < k \<and> k < secp_N"
  by (auto simp: randomScalar_def dest: randomScalar_loop_range)

lemma signHash_length: "signHash es h d Q = Inr (sig, es') \<Longrightarrow> length sig = 64"
  by (auto simp: signHash_def Let_def zeros_def ec_sizes split: if_splits sum.splits prod.splits)

end
