(* ===== verification/Keystore.thy ===== *)
theory Keystore
  imports EC_Correct
begin

text \<open>
  \<open>src/src/keystore.cpp\<close>: HMAC-SHA256, PBKDF2, the keystream cipher built from them, and the
  text format that seals a wallet under a password.  The random salt and nonce come from the
  generator of \<open>ECCrypto\<close>.  A byte pointer with its length is a byte list.

  The lemmas: the cipher is its own inverse, a sealed text opens to itself, every accepted blob
  carries the tag of its header and ciphertext, and equal tags mean equal contents or a collision
  of SHA-256.  What a client of the keystore relies on is the locale \<open>vault\<close>.
\<close>

unbundle bit_operations_syntax

section \<open>Helpers\<close>

definition SALT_SIZE :: nat where "SALT_SIZE = 16"
definition NONCE_SIZE :: nat where "NONCE_SIZE = 16"
definition KEY_SIZE :: nat where "KEY_SIZE = 32"
definition DEFAULT_ITERATIONS :: u32 where "DEFAULT_ITERATIONS = 200000"
definition HMAC_BLOCK_SIZE :: nat where "HMAC_BLOCK_SIZE = 64"
definition FORMAT_TAG :: string where "FORMAT_TAG = ''KEYSTORE1''"

lemmas keystore_sizes = SALT_SIZE_def NONCE_SIZE_def KEY_SIZE_def HMAC_BLOCK_SIZE_def

definition sha256Of :: "byte list \<Rightarrow> byte list" where
  "sha256Of data = overwrite (sha256Hash data) (zeros KEY_SIZE)"

definition ks_appendU32BE :: "byte list \<Rightarrow> u32 \<Rightarrow> byte list" where
  "ks_appendU32BE out value =
     out @ map (\<lambda>shift. ucast (drop_bit shift value AND 0xFF)) [24, 16, 8, 0]"

definition constantTimeEquals :: "byte list \<Rightarrow> byte list \<Rightarrow> bool" where
  "constantTimeEquals a b = (fold (\<lambda>(x, y) difference. difference OR (x XOR y)) (zip a b) 0 = 0)"

definition ks_toHex :: "byte list \<Rightarrow> string" where "ks_toHex data = ec_bytesToHex data"

definition fromHex :: "string \<Rightarrow> byte list option" where
  "fromHex hex =
     (if length hex mod 2 \<noteq> 0 then None
      else
        let out = zeros (length hex div 2)
        in if out = [] then Some out
           else case hexToBytes hex out (length out) of
                  (n, out') \<Rightarrow> if n \<noteq> length out' then None else Some out')"

definition xor_bytes :: "byte list \<Rightarrow> byte list \<Rightarrow> byte list" where
  "xor_bytes xs ys = map (\<lambda>(x, y). x XOR y) (zip xs ys)"

section \<open>HMAC and PBKDF2\<close>

definition padded_key :: "byte list \<Rightarrow> byte list" where
  "padded_key key =
     (if length key > HMAC_BLOCK_SIZE then overwrite (sha256Hash key) (zeros HMAC_BLOCK_SIZE)
      else overwrite key (zeros HMAC_BLOCK_SIZE))"

definition hmacSha256 :: "byte list \<Rightarrow> byte list \<Rightarrow> byte list" where
  "hmacSha256 key data =
     (let inner = map (\<lambda>b. b XOR 0x36) (padded_key key) @ data;
          inner_hash = sha256Of inner;
          outer = map (\<lambda>b. b XOR 0x5C) (padded_key key) @ inner_hash
      in sha256Of outer)"

text \<open>The rounds \<open>U_2, \<dots>, U_c\<close> of one block, counted down.\<close>

fun pbkdf2_rounds :: "byte list \<Rightarrow> nat \<Rightarrow> byte list \<Rightarrow> byte list \<Rightarrow> byte list" where
  "pbkdf2_rounds key 0 u accumulator = accumulator"
| "pbkdf2_rounds key (Suc n) u accumulator =
     (let u' = hmacSha256 key u in pbkdf2_rounds key n u' (xor_bytes accumulator u'))"

definition pbkdf2_block :: "byte list \<Rightarrow> byte list \<Rightarrow> u32 \<Rightarrow> u32 \<Rightarrow> byte list" where
  "pbkdf2_block key salt iterations block =
     (let u = hmacSha256 key (ks_appendU32BE salt block)
      in pbkdf2_rounds key (unat iterations - 1) u u)"

lemma length_sha256Of [simp]: "length (sha256Of data) = 32"
  by (simp add: sha256Of_def overwrite_def sha256Hash_raw zeros_def KEY_SIZE_def)

lemma sha256Of_raw: "sha256Of data = hashRaw data"
  by (simp add: sha256Of_def overwrite_def sha256Hash_raw zeros_def KEY_SIZE_def)

lemma length_hmacSha256 [simp]: "length (hmacSha256 key data) = 32"
  by (simp add: hmacSha256_def)

lemma length_xor_bytes [simp]: "length (xor_bytes xs ys) = min (length xs) (length ys)"
  by (simp add: xor_bytes_def)

lemma length_pbkdf2_rounds: "length acc = 32 \<Longrightarrow> length (pbkdf2_rounds key n u acc) = 32"
  by (induction n arbitrary: u acc) (simp_all add: Let_def)

lemma length_pbkdf2_block [simp]: "length (pbkdf2_block key salt iterations block) = 32"
  by (simp add: pbkdf2_block_def length_pbkdf2_rounds Let_def)

function pbkdf2_loop ::
  "byte list \<Rightarrow> byte list \<Rightarrow> u32 \<Rightarrow> nat \<Rightarrow> u32 \<Rightarrow> byte list \<Rightarrow> byte list" where
  "pbkdf2_loop key salt iterations output_length block output =
     (if length output < output_length
      then
        let accumulator = pbkdf2_block key salt iterations block;
            span = min (length accumulator) (output_length - length output)
        in pbkdf2_loop key salt iterations output_length (block + 1) (output @ take span accumulator)
      else output)"
  by pat_completeness auto
termination
  by (relation "measure (\<lambda>(key, salt, iterations, n, block, output). n - length output)") auto

declare pbkdf2_loop.simps [simp del]

definition pbkdf2Sha256 :: "string \<Rightarrow> byte list \<Rightarrow> u32 \<Rightarrow> nat \<Rightarrow> byte list" where
  "pbkdf2Sha256 password salt iterations output_length =
     pbkdf2_loop (bytes_of_string password) salt iterations output_length 1 []"

section \<open>The cipher\<close>

text \<open>The loop over the offset; the data is changed in place.\<close>

function keystream_loop :: "byte list \<Rightarrow> byte list \<Rightarrow> nat \<Rightarrow> byte list \<Rightarrow> byte list" where
  "keystream_loop key nonce offset data =
     (if offset < length data
      then
        let block = hmacSha256 key (ks_appendU32BE nonce (of_nat (offset div KEY_SIZE)));
            span = min KEY_SIZE (length data - offset)
        in keystream_loop key nonce (offset + KEY_SIZE)
             (take offset data @ xor_bytes (take span (drop offset data)) block @ drop (offset + span) data)
      else data)"
  by pat_completeness auto
termination
  by (relation "measure (\<lambda>(key, nonce, offset, data). length data - offset)")
    (auto simp: keystore_sizes min_def)

declare keystream_loop.simps [simp del]

definition applyKeystream :: "byte list \<Rightarrow> byte list \<Rightarrow> byte list \<Rightarrow> byte list" where
  "applyKeystream key nonce data = keystream_loop key nonce 0 data"

section \<open>Sealing and opening\<close>

abbreviation newline :: char where "newline \<equiv> CHR 0x0A"

definition derived_keys :: "string \<Rightarrow> byte list \<Rightarrow> u32 \<Rightarrow> byte list \<times> byte list" where
  "derived_keys password salt iterations =
     (let derived = pbkdf2Sha256 password salt iterations (KEY_SIZE * 2)
      in (take KEY_SIZE derived, drop KEY_SIZE derived))"

definition header_text :: "string \<Rightarrow> string \<Rightarrow> string \<Rightarrow> string" where
  "header_text salt_hex iterations_text nonce_hex =
     FORMAT_TAG @ newline # salt_hex @ newline # iterations_text @ newline # nonce_hex @ [newline]"

definition encrypt :: "entropy \<Rightarrow> string \<Rightarrow> string \<Rightarrow> u32 \<Rightarrow> string \<times> entropy" where
  "encrypt es plaintext password iterations =
     (case secureRandomBytes es SALT_SIZE of
        Inl _ \<Rightarrow> ([], [])
      | Inr (salt, es1) \<Rightarrow>
          (case secureRandomBytes es1 NONCE_SIZE of
             Inl _ \<Rightarrow> ([], [])
           | Inr (nonce, es2) \<Rightarrow>
               if iterations = 0 then ([], es2)
               else
                 let (enc_key, mac_key) = derived_keys password salt iterations;
                     ciphertext = applyKeystream enc_key nonce (bytes_of_string plaintext);
                     header = header_text (ks_toHex salt) (show_word iterations) (ks_toHex nonce);
                     tag = hmacSha256 mac_key (bytes_of_string header @ ciphertext)
                 in (header @ ec_bytesToHex tag @ newline # ks_toHex ciphertext @ [newline], es2)))"

record sealed =
  s_header :: string
  s_salt :: "byte list"
  s_iterations :: u32
  s_nonce :: "byte list"
  s_tag :: "byte list"
  s_ciphertext :: "byte list"

text \<open>\<open>decrypt\<close> up to the key derivation: the six lines and their checks.\<close>

definition read_sealed :: "string \<Rightarrow> sealed option" where
  "read_sealed armored =
     (let (format, s1) = getline newline [] (Good armored)
      in if \<not> stream_ok s1 \<or> format \<noteq> FORMAT_TAG then None
         else
           let (salt_hex, s2) = getline newline [] s1;
               (iterations_text, s3) = getline newline [] s2;
               (nonce_hex, s4) = getline newline [] s3;
               (tag_hex, s5) = getline newline [] s4
           in if \<not> stream_ok s2 \<or> \<not> stream_ok s3 \<or> \<not> stream_ok s4 \<or> \<not> stream_ok s5 then None
              else
                let (ciphertext_hex, s6) = getline newline [] s5
                in if \<not> stream_ok s6 then None
                   else (case extract_unsigned (Good iterations_text) of
                           None \<Rightarrow> None
                         | Some (iterations, _) \<Rightarrow>
                             if iterations = 0 then None
                             else (case (fromHex salt_hex, fromHex nonce_hex, fromHex tag_hex, fromHex ciphertext_hex) of
                                     (Some salt, Some nonce, Some tag_bytes, Some ciphertext) \<Rightarrow>
                                       if length salt \<noteq> SALT_SIZE \<or> length nonce \<noteq> NONCE_SIZE \<or>
                                          length tag_bytes \<noteq> KEY_SIZE then None
                                       else Some \<lparr>s_header = header_text salt_hex iterations_text nonce_hex,
                                              s_salt = salt, s_iterations = iterations, s_nonce = nonce,
                                              s_tag = tag_bytes, s_ciphertext = ciphertext\<rparr>
                                   | _ \<Rightarrow> None)))"

definition decrypt :: "string \<Rightarrow> string \<Rightarrow> string option" where
  "decrypt armored password =
     (case read_sealed armored of
        None \<Rightarrow> None
      | Some s \<Rightarrow>
          let (enc_key, mac_key) = derived_keys password (s_salt s) (s_iterations s);
              expected = hmacSha256 mac_key (bytes_of_string (s_header s) @ s_ciphertext s);
              actual = overwrite (s_tag s) (zeros KEY_SIZE)
          in if \<not> constantTimeEquals expected actual then None
             else Some (string_of_bytes (applyKeystream enc_key (s_nonce s) (s_ciphertext s))))"

section \<open>The cipher is its own inverse\<close>

text \<open>Byte \<open>j\<close> of the keystream.\<close>

definition key_byte :: "byte list \<Rightarrow> byte list \<Rightarrow> nat \<Rightarrow> byte" where
  "key_byte key nonce j = hmacSha256 key (ks_appendU32BE nonce (of_nat (j div KEY_SIZE))) ! (j mod KEY_SIZE)"

lemma nth_xor_bytes [simp]:
  "i < length xs \<Longrightarrow> i < length ys \<Longrightarrow> xor_bytes xs ys ! i = xs ! i XOR ys ! i"
  by (simp add: xor_bytes_def)

lemma keystream_loop_masks:
  "KEY_SIZE dvd offset \<Longrightarrow> keystream_loop key nonce offset data =
     map (\<lambda>j. if j < offset then data ! j else data ! j XOR key_byte key nonce j) [0..<length data]"
proof (induction key nonce offset data rule: keystream_loop.induct)
  case (1 key nonce offset data)
  show ?case
  proof (cases "offset < length data")
    case False
    then have "keystream_loop key nonce offset data = data" by (subst keystream_loop.simps) simp
    then show ?thesis using False by (auto intro: nth_equalityI)
  next
    case True
    define block where "block = hmacSha256 key (ks_appendU32BE nonce (of_nat (offset div KEY_SIZE)))"
    define span where "span = min KEY_SIZE (length data - offset)"
    define data' where
      "data' = take offset data @ xor_bytes (take span (drop offset data)) block @ drop (offset + span) data"
    have len: "length block = KEY_SIZE" "length data' = length data"
      using True by (simp_all add: block_def data'_def span_def KEY_SIZE_def)
    have key_byte: "key_byte key nonce j = block ! (j - offset)" if j: "offset \<le> j" "j < offset + KEY_SIZE" for j
    proof -
      obtain q where q: "offset = KEY_SIZE * q" using "1.prems" by blast
      then obtain r where "j = KEY_SIZE * q + r" "r < KEY_SIZE"
        using j by (metis le_Suc_ex nat_add_left_cancel_less)
      then show ?thesis by (simp add: key_byte_def block_def q KEY_SIZE_def)
    qed
    have at: "data' ! j = (if j < offset then data ! j
        else if j < offset + KEY_SIZE then data ! j XOR key_byte key nonce j else data ! j)"
      if j: "j < length data" for j
      using j len(1) key_byte [of j]
      by (auto simp: data'_def nth_append span_def min_def)
    have "keystream_loop key nonce offset data = keystream_loop key nonce (offset + KEY_SIZE) data'"
      using True by (subst keystream_loop.simps) (simp add: Let_def block_def span_def data'_def)
    also have "\<dots> = map (\<lambda>j. if j < offset + KEY_SIZE then data' ! j else data' ! j XOR key_byte key nonce j)
        [0..<length data]"
      using "1.IH" [OF True block_def span_def] "1.prems" by (simp add: data'_def [symmetric] len)
    also have "\<dots> = map (\<lambda>j. if j < offset then data ! j else data ! j XOR key_byte key nonce j) [0..<length data]"
      by (auto simp: at)
    finally show ?thesis .
  qed
qed

lemma applyKeystream_masks:
  "applyKeystream key nonce data = map (\<lambda>j. data ! j XOR key_byte key nonce j) [0..<length data]"
  by (simp add: applyKeystream_def keystream_loop_masks)

lemma length_applyKeystream [simp]: "length (applyKeystream key nonce data) = length data"
  by (simp add: applyKeystream_masks)

lemma applyKeystream_involutive [simp]: "applyKeystream key nonce (applyKeystream key nonce data) = data"
  by (rule nth_equalityI) (simp_all add: applyKeystream_masks xor.assoc)

section \<open>Tags\<close>

text \<open>The two inputs of the hash function in one HMAC.\<close>

definition hmac_inputs :: "byte list \<Rightarrow> byte list \<Rightarrow> byte list list" where
  "hmac_inputs key data =
     [map (\<lambda>b. b XOR 0x36) (padded_key key) @ data,
      map (\<lambda>b. b XOR 0x5C) (padded_key key) @ hashRaw (map (\<lambda>b. b XOR 0x36) (padded_key key) @ data)]"

lemma hmac_binds:
  assumes "hmacSha256 key a = hmacSha256 key b"
  shows "a = b \<or> collides hashRaw (hmac_inputs key a) (hmac_inputs key b)"
proof -
  let ?i = "\<lambda>d. map (\<lambda>b. b XOR 0x36) (padded_key key) @ d"
  let ?o = "\<lambda>d. map (\<lambda>b. b XOR 0x5C) (padded_key key) @ hashRaw (?i d)"
  have "hashRaw (?o a) = hashRaw (?o b)"
    using assms by (simp add: hmacSha256_def sha256Of_raw)
  then consider "?o a = ?o b" | "collides hashRaw (hmac_inputs key a) (hmac_inputs key b)"
    using collidesI [of "?o a" "hmac_inputs key a" "?o b" "hmac_inputs key b" hashRaw]
    by (auto simp: hmac_inputs_def)
  then show ?thesis
  proof cases
    case 1
    then have "hashRaw (?i a) = hashRaw (?i b)" by simp
    then show ?thesis
      using collidesI [of "?i a" "hmac_inputs key a" "?i b" "hmac_inputs key b" hashRaw]
      by (auto simp: hmac_inputs_def)
  qed simp
qed

lemma byte_xor_eq_0: "x XOR y = (0 :: byte) \<longleftrightarrow> x = y"
  by (metis xor.assoc xor.left_neutral xor.right_neutral xor_self_eq)

lemma fold_or_eq_0:
  "fold (\<lambda>(x, y) d. d OR (x XOR y)) ps d = (0 :: byte) \<longleftrightarrow> d = 0 \<and> (\<forall>(x, y) \<in> set ps. x = y)"
  by (induction ps arbitrary: d) (auto simp: or_eq_0_iff byte_xor_eq_0)

lemma constantTimeEquals_iff: "length a = length b \<Longrightarrow> constantTimeEquals a b \<longleftrightarrow> a = b"
  unfolding constantTimeEquals_def fold_or_eq_0
  by (auto simp: set_zip list_eq_iff_nth_eq)

section \<open>Sealed texts open\<close>

lemma fromHex_toHex [simp]: "fromHex (ks_toHex bs) = Some bs"
proof (cases "bs = []")
  case False
  then show ?thesis
    by (simp add: fromHex_def ks_toHex_def zeros_def ec_bytesToHex_hex_bytes
        hexToBytes_bytesToHex [unfolded ec_bytesToHex_hex_bytes])
qed (simp add: fromHex_def ks_toHex_def ec_bytesToHex_hex_bytes zeros_def)

lemma newline_hex [simp]: "newline \<notin> set (ec_bytesToHex bs)"
  using hex_bytes_lower [of bs]
  by (auto simp: ec_bytesToHex_hex_bytes list_all_iff is_lower_hex_def is_digit_def)

lemma newline_show_word [simp]: "newline \<notin> set (show_word w)"
  by (auto simp: show_word_def is_digit_def dest: set_show_nat)

lemma newline_format [simp]: "newline \<notin> set FORMAT_TAG"
  by (simp add: FORMAT_TAG_def)

lemma extract_show_word: "extract_unsigned (Good (show_word (w :: u32))) = Some (w, AtEof)"
proof -
  have "unat w < 2 ^ 32" using unsigned_less [of w, where ?'a = nat] by simp
  then show ?thesis
    by (simp add: extract_unsigned_def show_word_def scan_show_nat_all unsigned_value_def after_read_def)
qed

lemma getline_no_delim: "d \<notin> set (fst (getline d [] s))"
  by (auto simp: getline_def dropWhile_eq_Nil_conv split: istream.split list.split dest: set_takeWhileD)

text \<open>The blob as its six lines.\<close>

definition sealed_text :: "string \<Rightarrow> string \<Rightarrow> string \<Rightarrow> string \<Rightarrow> string \<Rightarrow> string" where
  "sealed_text salt_hex iterations_text nonce_hex tag_hex ciphertext_hex =
     header_text salt_hex iterations_text nonce_hex @ tag_hex @ newline # ciphertext_hex @ [newline]"

lemma read_sealed_text:
  assumes "length salt = SALT_SIZE" "length nonce = NONCE_SIZE" "length tag = KEY_SIZE" "iterations \<noteq> 0"
  shows "read_sealed (sealed_text (ks_toHex salt) (show_word iterations) (ks_toHex nonce) (ec_bytesToHex tag)
       (ks_toHex ciphertext)) =
     Some \<lparr>s_header = header_text (ks_toHex salt) (show_word iterations) (ks_toHex nonce), s_salt = salt,
       s_iterations = iterations, s_nonce = nonce, s_tag = tag, s_ciphertext = ciphertext\<rparr>"
  using assms fromHex_toHex [of tag]
  by (simp add: read_sealed_def sealed_text_def header_text_def getline_delim stream_ok_def ks_toHex_def
      extract_show_word del: fromHex_toHex) (simp add: fromHex_toHex [unfolded ks_toHex_def] header_text_def)

lemma secureRandomBytes_length: "secureRandomBytes es n = Inr (bs, es') \<Longrightarrow> length bs = n"
  by (auto simp: secureRandomBytes_def split: if_splits list.splits option.splits)

text \<open>What \<open>encrypt\<close> returns when it returns a text.\<close>

lemma encrypt_cases:
  assumes "encrypt es plaintext password iterations = (armored, es')" "armored \<noteq> []"
  obtains salt nonce enc_key mac_key tag ciphertext where
    "length salt = SALT_SIZE" "length nonce = NONCE_SIZE" "iterations \<noteq> 0"
    "derived_keys password salt iterations = (enc_key, mac_key)"
    "ciphertext = applyKeystream enc_key nonce (bytes_of_string plaintext)"
    "tag = hmacSha256 mac_key
       (bytes_of_string (header_text (ks_toHex salt) (show_word iterations) (ks_toHex nonce)) @ ciphertext)"
    "armored = sealed_text (ks_toHex salt) (show_word iterations) (ks_toHex nonce) (ec_bytesToHex tag)
       (ks_toHex ciphertext)"
proof -
  obtain salt es1 where salt: "secureRandomBytes es SALT_SIZE = Inr (salt, es1)"
    using assms by (cases "secureRandomBytes es SALT_SIZE") (auto simp: encrypt_def)
  obtain nonce es2 where nonce: "secureRandomBytes es1 NONCE_SIZE = Inr (nonce, es2)"
    using assms salt by (cases "secureRandomBytes es1 NONCE_SIZE") (auto simp: encrypt_def)
  obtain enc_key mac_key where keys: "derived_keys password salt iterations = (enc_key, mac_key)" by fastforce
  have "iterations \<noteq> 0" using assms salt nonce by (auto simp: encrypt_def)
  then show thesis
    using assms salt nonce keys
    by (intro that [OF secureRandomBytes_length [OF salt] secureRandomBytes_length [OF nonce] _ keys refl refl])
      (auto simp: encrypt_def sealed_text_def Let_def)
qed

lemma decrypt_encrypt:
  assumes "encrypt es plaintext password iterations = (armored, es')" "armored \<noteq> []"
  shows "decrypt armored password = Some plaintext"
  using assms
proof (cases rule: encrypt_cases)
  case (1 salt nonce enc_key mac_key tag ciphertext)
  have "length tag = KEY_SIZE" using 1(6) by (simp add: KEY_SIZE_def)
  then have "read_sealed armored = Some \<lparr>s_header = header_text (ks_toHex salt) (show_word iterations) (ks_toHex nonce),
      s_salt = salt, s_iterations = iterations, s_nonce = nonce, s_tag = tag, s_ciphertext = ciphertext\<rparr>"
    unfolding 1(7) using 1(1-3) by (intro read_sealed_text)
  moreover have "overwrite tag (zeros KEY_SIZE) = tag"
    using \<open>length tag = KEY_SIZE\<close> by (simp add: overwrite_def zeros_def)
  ultimately show ?thesis
    using 1(4-6) by (simp add: decrypt_def constantTimeEquals_iff)
qed

section \<open>What an accepted blob proves\<close>

definition tag_inputs :: "string \<Rightarrow> sealed \<Rightarrow> byte list list" where
  "tag_inputs password s =
     hmac_inputs (snd (derived_keys password (s_salt s) (s_iterations s)))
       (bytes_of_string (s_header s) @ s_ciphertext s)"

lemma read_sealedE:
  assumes "read_sealed armored = Some s"
  obtains salt_hex iterations_text nonce_hex where
    "s_header s = header_text salt_hex iterations_text nonce_hex"
    "newline \<notin> set salt_hex" "newline \<notin> set iterations_text" "newline \<notin> set nonce_hex"
    "fromHex salt_hex = Some (s_salt s)" "fromHex nonce_hex = Some (s_nonce s)"
    "length (s_tag s) = KEY_SIZE"
proof -
  let ?next = "\<lambda>st. snd (getline newline [] st)" and ?line = "\<lambda>st. fst (getline newline [] st)"
  let ?s1 = "?next (Good armored)"
  let ?salt = "?line ?s1" and ?its = "?line (?next ?s1)" and ?nonce = "?line (?next (?next ?s1))"
  note assms [unfolded read_sealed_def Let_def case_prod_unfold]
  then have read: "s_header s = header_text ?salt ?its ?nonce" "fromHex ?salt = Some (s_salt s)"
    "fromHex ?nonce = Some (s_nonce s)" "length (s_tag s) = KEY_SIZE"
    by (simp_all split: if_split_asm option.split_asm) (auto simp: prod_eq_iff)
  then show thesis
    by (intro that [OF read(1) getline_no_delim getline_no_delim getline_no_delim read(2-4)])
qed

lemma header_prefix:
  assumes "bytes_of_string (header_text a b c) @ x = bytes_of_string (header_text a' b' c') @ y"
    and "newline \<notin> set a" "newline \<notin> set b" "newline \<notin> set c"
    and "newline \<notin> set a'" "newline \<notin> set b'" "newline \<notin> set c'"
  shows "a = a' \<and> b = b' \<and> c = c' \<and> x = y"
proof -
  have "header_text a b c @ string_of_bytes x = header_text a' b' c' @ string_of_bytes y"
    using arg_cong [OF assms(1), of string_of_bytes] by (simp add: string_of_bytes_append)
  then have *: "a @ newline # b @ newline # c @ newline # string_of_bytes x =
      a' @ newline # b' @ newline # c' @ newline # string_of_bytes y"
    by (simp add: header_text_def)
  then have "a = a' \<and> b = b' \<and> c = c' \<and> string_of_bytes x = string_of_bytes y"
    by (simp only: split_first [OF assms(2,5)] split_first [OF assms(3,6)] split_first [OF assms(4,7)])
  then show ?thesis by (metis bytes_of_string_of_bytes)
qed

text \<open>
  Two blobs that open under one password, with the same salt, iteration count and tag, hold the
  same text, or their tags exhibit a collision of SHA-256.
\<close>

lemma tag_binds_contents:
  assumes "decrypt a password = Some p" "decrypt b password = Some q"
    and "read_sealed a = Some s" "read_sealed b = Some t"
    and "s_salt s = s_salt t" "s_iterations s = s_iterations t" "s_tag s = s_tag t"
  shows "p = q \<or> collides hashRaw (tag_inputs password s) (tag_inputs password t)"
proof -
  obtain sa si sn where s: "s_header s = header_text sa si sn"
    "newline \<notin> set sa" "newline \<notin> set si" "newline \<notin> set sn" "fromHex sn = Some (s_nonce s)"
    "length (s_tag s) = KEY_SIZE" using assms(3) by (rule read_sealedE)
  obtain ta ti tn where t: "s_header t = header_text ta ti tn"
    "newline \<notin> set ta" "newline \<notin> set ti" "newline \<notin> set tn" "fromHex tn = Some (s_nonce t)"
    using assms(4) by (rule read_sealedE)
  obtain ek mk where k: "derived_keys password (s_salt t) (s_iterations t) = (ek, mk)" by fastforce
  have open_s: "hmacSha256 mk (bytes_of_string (s_header s) @ s_ciphertext s) = s_tag s"
      "p = string_of_bytes (applyKeystream ek (s_nonce s) (s_ciphertext s))"
    using assms(1,3,5,6) k s(6)
    by (auto simp: decrypt_def constantTimeEquals_iff overwrite_def zeros_def KEY_SIZE_def split: if_splits)
  have open_t: "hmacSha256 mk (bytes_of_string (s_header t) @ s_ciphertext t) = s_tag s"
      "q = string_of_bytes (applyKeystream ek (s_nonce t) (s_ciphertext t))"
    using assms(2,4,7) k s(6)
    by (auto simp: decrypt_def constantTimeEquals_iff overwrite_def zeros_def KEY_SIZE_def split: if_splits)
  consider "bytes_of_string (s_header s) @ s_ciphertext s = bytes_of_string (s_header t) @ s_ciphertext t"
    | "collides hashRaw (tag_inputs password s) (tag_inputs password t)"
    using hmac_binds [OF trans [OF open_s(1) open_t(1) [symmetric]]] assms(5,6) k
    by (auto simp: tag_inputs_def)
  then show ?thesis
  proof cases
    case 1
    then have "sn = tn" "s_ciphertext s = s_ciphertext t"
      using header_prefix [OF _ s(2-4) t(2-4)] s(1) t(1) by auto
    then show ?thesis using open_s(2) open_t(2) s(5) t(5) by simp
  qed simp
qed

section \<open>The keystore as its client sees it\<close>

text \<open>Whatever is sealed opens under the same password; the empty text is the failure.\<close>

locale vault =
  fixes seal :: "entropy \<Rightarrow> string \<Rightarrow> string \<Rightarrow> string \<times> entropy"
    and unseal :: "string \<Rightarrow> string \<Rightarrow> string option"
  assumes unseal_seal: "seal es body password = (armored, es') \<Longrightarrow> armored \<noteq> [] \<Longrightarrow> unseal armored password = Some body"
begin

lemma sealed_determines:
  assumes "seal es body password = (armored, es1)" "seal es' body' password = (armored, es2)" "armored \<noteq> []"
  shows "body = body'"
  using unseal_seal [OF assms(1,3)] unseal_seal [OF assms(2,3)] by simp

end

interpretation keystore: vault "\<lambda>es body password. encrypt es body password DEFAULT_ITERATIONS" decrypt
  by unfold_locales (rule decrypt_encrypt)

end
