(* ===== verification/Money.thy ===== *)
theory Money
  imports Utils
begin

text \<open>
  \<open>src/src/money.cpp\<close> and \<open>src/src/include/money.h\<close>: monetary amounts as an integer count of
  the smallest unit.  An amount is an \<^typ>\<open>int\<close> in the \<open>int64_t\<close> range; the unsigned
  arithmetic of the parser is done on 64-bit words as in the code.  The lemmas determine the
  parser on every decimal figure, and give the round trip with the formatter.
\<close>

section \<open>Amounts\<close>

definition COIN :: int where "COIN = 100000000"

definition MAX_MONEY :: int where "MAX_MONEY = 21000000 * COIN"

definition coins :: "int \<Rightarrow> int" where "coins whole = to_int64 (whole * COIN)"

definition isValidAmount :: "int \<Rightarrow> bool" where
  "isValidAmount amount \<longleftrightarrow> amount > 0 \<and> amount \<le> MAX_MONEY"

definition DECIMALS :: nat where "DECIMALS = 8"

lemmas money_consts = COIN_def MAX_MONEY_def DECIMALS_def

lemma isValidAmount_in_int64: "isValidAmount a \<Longrightarrow> in_int64 a"
  by (simp add: isValidAmount_def in_int64_def int_bounds money_consts)

section \<open>Formatting\<close>

definition pad_zeros :: "nat \<Rightarrow> string \<Rightarrow> string" where
  "pad_zeros n s = replicate (n - length s) (CHR ''0'') @ s"

definition format_amount :: "int \<Rightarrow> string" where
  "format_amount amount =
     (let negative = amount < 0;
          magnitude = (if negative then nat (- (amount + 1)) + 1 else nat amount);
          whole = magnitude div nat COIN;
          fraction = magnitude mod nat COIN
      in (if negative then ''-'' else []) @ show_nat whole @ ''.'' @ pad_zeros 8 (show_nat fraction))"

section \<open>Parsing\<close>

definition allDigits :: "string \<Rightarrow> bool" where
  "allDigits text = (if text = [] then False else list_all is_digit text)"

fun scale_loop :: "nat \<Rightarrow> u64" where
  "scale_loop 0 = 1"
| "scale_loop (Suc n) = scale_loop n * 10"

definition parse_fraction :: "string \<Rightarrow> u64 option" where
  "parse_fraction fraction_text =
     (if fraction_text = [] then Some 0
      else case from_chars_u64 fraction_text of
             None \<Rightarrow> None
           | Some digits \<Rightarrow> Some (digits * scale_loop (DECIMALS - length fraction_text)))"

text \<open>The part of \<open>parse\<close> after the two digit runs have been isolated.\<close>

definition parse_parts :: "string \<Rightarrow> string \<Rightarrow> int option" where
  "parse_parts whole_text fraction_text =
     (case from_chars_u64 whole_text of
        None \<Rightarrow> None
      | Some whole \<Rightarrow>
          if whole > word_of_int (MAX_MONEY div COIN) then None
          else case parse_fraction fraction_text of
                 None \<Rightarrow> None
               | Some fraction \<Rightarrow>
                   (let amount = whole * word_of_int COIN + fraction
                    in if amount > word_of_int MAX_MONEY then None else Some (uint amount)))"

definition parse_amount :: "string \<Rightarrow> int option" where
  "parse_amount text0 =
     (let text = trim text0
      in if text = [] then None
         else
           let point = CHR ''.'' \<in> set text;
               whole_text = takeWhile (\<lambda>c. c \<noteq> CHR ''.'') text;
               fraction_text = (if point then tl (dropWhile (\<lambda>c. c \<noteq> CHR ''.'') text) else [])
           in if \<not> allDigits whole_text then None
              else if point \<and> \<not> allDigits fraction_text then None
              else if length fraction_text > DECIMALS then None
              else parse_parts whole_text fraction_text)"

subsection \<open>The value of a decimal figure\<close>

text \<open>What a figure with whole part \<open>w\<close> and fraction digits \<open>f\<close> denotes, in units.\<close>

definition figure_value :: "string \<Rightarrow> string \<Rightarrow> nat" where
  "figure_value w f = digits_value w * 10 ^ 8 + digits_value f * 10 ^ (8 - length f)"

lemma is_digit_not_point: "is_digit c \<Longrightarrow> c \<noteq> CHR ''.''"
  by (auto simp: is_digit_def)

lemma unat_scale_loop: "n \<le> 8 \<Longrightarrow> unat (scale_loop n) = 10 ^ n"
proof (induction n)
  case 0
  then show ?case by simp
next
  case (Suc n)
  have "(10::nat) ^ n \<le> 10 ^ 8" by (rule power_increasing) (use Suc.prems in auto)
  then have "(10::nat) ^ n * 10 < 2 ^ 64" by simp
  with Suc show ?case
    by (simp add: unat_word_ariths take_bit_eq_mod mod_less)
qed

lemma parse_fraction_digits:
  assumes "list_all is_digit f" "length f \<le> 8"
  shows "\<exists>x. parse_fraction f = Some x \<and> unat x = digits_value f * 10 ^ (8 - length f)
           \<and> unat x < 10 ^ 8"
proof (cases "f = []")
  case True
  then show ?thesis by (simp add: parse_fraction_def)
next
  case False
  have b: "digits_value f < 10 ^ length f"
    using assms(1) by (intro digits_value_bound) (simp add: all_digits_def)
  have "(10::nat) ^ length f \<le> 10 ^ 8" using assms(2) by (intro power_increasing) auto
  with b have b8: "digits_value f < 10 ^ 8" by linarith
  have "digits_value f * 10 ^ (8 - length f) < 10 ^ length f * 10 ^ (8 - length f)"
    using b by simp
  also have "\<dots> = (10::nat) ^ 8" using assms(2) by (simp flip: power_add)
  finally have p: "digits_value f * 10 ^ (8 - length f) < 10 ^ 8" .
  have "unat (word_of_nat (digits_value f) :: u64) = digits_value f"
    using b8 by (simp add: unsigned_of_nat take_bit_nat_eq_self)
  then have "unat (word_of_nat (digits_value f) * scale_loop (8 - length f)) =
      digits_value f * 10 ^ (8 - length f)"
    using p by (simp add: unat_word_ariths unat_scale_loop)
  then show ?thesis
    using False assms(1) b8 p
    by (simp add: parse_fraction_def from_chars_u64_def all_digits_def DECIMALS_def uint64_max_def)
qed

lemma parse_parts_digits:
  assumes w: "list_all is_digit w" "w \<noteq> []" and f: "list_all is_digit f" "length f \<le> 8"
  shows "parse_parts w f =
    (if int (figure_value w f) \<le> MAX_MONEY then Some (int (figure_value w f)) else None)"
    (is "_ = ?rhs")
proof -
  let ?n = "digits_value w"
  obtain x where x: "parse_fraction f = Some x" "unat x = digits_value f * 10 ^ (8 - length f)"
    "unat x < 10 ^ 8"
    using parse_fraction_digits [OF f] by blast
  have fv: "figure_value w f = ?n * 100000000 + unat x" by (simp add: figure_value_def x)
  show ?thesis
  proof (cases "?n \<le> 21000000")
    case False
    then have "2100000100000000 \<le> figure_value w f" by (simp add: fv)
    then have "?rhs = None" by (simp add: money_consts)
    moreover have "(word_of_nat ?n :: u64) > 21000000" if "int ?n \<le> uint64_max"
      using that False
      by (simp add: word_less_nat_alt uint64_max_def unsigned_of_nat take_bit_nat_eq_self)
    then have "parse_parts w f = None"
      by (simp add: parse_parts_def from_chars_u64_def money_consts)
    ultimately show ?thesis by simp
  next
    case True
    have un: "unat (word_of_nat ?n :: u64) = ?n"
      using True by (simp add: unsigned_of_nat take_bit_nat_eq_self)
    have am: "unat (word_of_nat ?n * 100000000 + x :: u64) = ?n * 100000000 + unat x"
      using True un x(3) by (simp add: unat_word_ariths)
    then have gt: "word_of_nat ?n * 100000000 + x > (2100000000000000 :: u64) \<longleftrightarrow>
        ?n * 100000000 + unat x > 2100000000000000"
      by (simp add: word_less_nat_alt)
    have ui: "uint (word_of_nat ?n * 100000000 + x :: u64) = int (?n * 100000000 + unat x)"
      by (metis am int_nat_eq uint_ge_0 unat_eq_nat_uint)
    have "from_chars_u64 w = Some (word_of_nat ?n)"
      using True w by (simp add: from_chars_u64_def all_digits_def uint64_max_def)
    moreover have "\<not> (word_of_nat ?n :: u64) > 21000000"
      using True un by (simp add: word_less_nat_alt)
    ultimately have "parse_parts w f = (if figure_value w f > 2100000000000000 then None
        else Some (int (figure_value w f)))"
      by (simp add: parse_parts_def money_consts x(1) gt ui fv Let_def del: of_nat_add of_nat_mult)
    moreover have "figure_value w f > 2100000000000000 \<longleftrightarrow> \<not> int (figure_value w f) \<le> MAX_MONEY"
      by (simp add: money_consts not_le)
    ultimately show ?thesis by simp
  qed
qed

text \<open>The parser on a figure without and with a decimal point, surrounded by white space.\<close>

lemma parse_amount_whole:
  assumes "list_all is_space pre" "list_all is_space post" "list_all is_digit w" "w \<noteq> []"
  shows "parse_amount (pre @ w @ post) =
     (if int (figure_value w []) \<le> MAX_MONEY then Some (int (figure_value w [])) else None)"
proof -
  have sp: "\<not> is_space (hd w)" "\<not> is_space (last w)"
    using assms(3,4) by (auto simp: list_all_iff digit_not_space)
  have t: "trim (pre @ w @ post) = w" by (rule trim_padded [OF assms(1,2,4) sp])
  have np: "CHR ''.'' \<notin> set w" using assms(3) by (auto simp: list_all_iff dest: is_digit_not_point)
  then have tw: "takeWhile (\<lambda>c. c \<noteq> CHR ''.'') w = w" by (simp add: takeWhile_eq_all_conv) metis
  show ?thesis
    unfolding parse_amount_def Let_def t tw
    using np assms(3,4) by (simp add: allDigits_def parse_parts_digits)
qed

lemma parse_amount_point:
  assumes "list_all is_space pre" "list_all is_space post" "list_all is_digit w" "w \<noteq> []"
    and f: "list_all is_digit f" "f \<noteq> []"
  shows "parse_amount (pre @ (w @ CHR ''.'' # f) @ post) =
     (if length f \<le> 8 \<and> int (figure_value w f) \<le> MAX_MONEY then Some (int (figure_value w f)) else None)"
proof -
  let ?t = "w @ CHR ''.'' # f"
  have sp: "\<not> is_space (hd ?t)" "\<not> is_space (last ?t)"
    using assms(3,4) f by (auto simp: list_all_iff digit_not_space)
  have t: "trim (pre @ ?t @ post) = ?t" by (rule trim_padded [OF assms(1,2) _ sp]) simp
  have np: "list_all (\<lambda>c. c \<noteq> CHR ''.'') w"
    using assms(3) by (auto simp: list_all_iff dest: is_digit_not_point)
  have tw: "takeWhile (\<lambda>c. c \<noteq> CHR ''.'') ?t = w" "dropWhile (\<lambda>c. c \<noteq> CHR ''.'') ?t = CHR ''.'' # f"
    using takeWhile_append_hd [OF np, of "CHR ''.'' # f"] dropWhile_append_hd [OF np, of "CHR ''.'' # f"]
    by simp_all
  show ?thesis
  proof (cases "length f \<le> 8")
    case True
    show ?thesis
      unfolding parse_amount_def Let_def t tw
      using True assms(3,4) f by (simp add: allDigits_def DECIMALS_def parse_parts_digits)
  next
    case False
    then show ?thesis
      unfolding parse_amount_def Let_def t tw
      using assms(3,4) f by (simp add: allDigits_def DECIMALS_def)
  qed
qed


subsection \<open>Formatting and parsing\<close>

lemma list_all_is_digit_show_nat [simp]: "list_all is_digit (show_nat n)"
  using all_digits_show_nat by (simp add: all_digits_def)

lemma pad_zeros_digits: "list_all is_digit (pad_zeros n (show_nat k))"
  by (auto simp: pad_zeros_def list_all_iff is_digit_def dest: set_show_nat)

lemma digits_value_replicate_zero: "digits_value (replicate n (CHR ''0'')) = 0"
  by (induction n) (simp_all add: digits_value_snoc digit_val_def flip: replicate_append_same)

lemma digits_value_pad_zeros: "digits_value (pad_zeros n (show_nat k)) = k"
  by (simp add: pad_zeros_def digits_value_append digits_value_replicate_zero)

lemma length_pad_zeros: "k < 10 ^ 8 \<Longrightarrow> length (pad_zeros 8 (show_nat k)) = 8"
  using show_nat_length_le [of k 8] by (simp add: pad_zeros_def)

lemma format_amount_nonneg:
  "0 \<le> a \<Longrightarrow> format_amount a =
     show_nat (nat a div 100000000) @ CHR ''.'' # pad_zeros 8 (show_nat (nat a mod 100000000))"
  by (simp add: format_amount_def Let_def money_consts)

lemma figure_value_format:
  "figure_value (show_nat (n div 100000000)) (pad_zeros 8 (show_nat (n mod 100000000))) = n"
  by (simp add: figure_value_def digits_value_pad_zeros length_pad_zeros)

lemma parse_format_amount:
  assumes "0 \<le> a" "a \<le> MAX_MONEY"
  shows "parse_amount (format_amount a) = Some a"
proof -
  let ?w = "show_nat (nat a div 100000000)" and ?f = "pad_zeros 8 (show_nat (nat a mod 100000000))"
  have len: "length ?f = 8" by (rule length_pad_zeros) simp
  then have "?f \<noteq> []" by auto
  then have "parse_amount ([] @ (?w @ CHR ''.'' # ?f) @ []) = Some a"
    using assms len
    by (subst parse_amount_point) (auto simp: figure_value_format pad_zeros_digits)
  then show ?thesis using assms(1) by (simp add: format_amount_nonneg)
qed

lemma parse_amount_range:
  assumes "parse_amount s = Some a"
  shows "0 \<le> a \<and> a \<le> MAX_MONEY"
  using assms
  by (auto simp: parse_amount_def parse_parts_def Let_def money_consts word_less_def
      split: if_splits option.splits)

end
