(* ===== verification/Transaction.thy ===== *)
theory Transaction
  imports EC_Correct Money
begin

text \<open>
  \<open>Transaction.cpp\<close> and \<open>Transaction.h\<close>: the record of a payment, its signed
  pre-image and hash, signing, signature checks and the validity test every component applies.
  The clock and the operating system's random generator are arguments: a timestamp in seconds and
  the list of the generator's answers.  The lemmas show that the pre-image of a valid transaction
  determines its five signed fields, what a valid transaction guarantees, and what signing leaves
  in the record.
\<close>

section \<open>The record and its constructors\<close>

record transaction =
  sender :: string
  receiver :: string
  amount :: int
  timestamp :: int
  nonce :: u64
  signature :: string
  sender_pubkey :: string

text \<open>
  \<open>freshNonce\<close>: eight bytes of the generator (read little-endian), or, when they are zero or
  the generator throws, the shifted clock mixed with the process-wide counter.
\<close>

definition le_value :: "byte list \<Rightarrow> u64" where
  "le_value bs = word_rcat (rev bs)"

definition freshNonce :: "int \<Rightarrow> entropy \<times> u64 \<Rightarrow> u64 \<times> entropy \<times> u64" where
  "freshNonce now st =
     (let (es, counter) = st;
          fallback = xor (xor (push_bit 20 (word_of_int now)) counter) 1
      in case secureRandomBytes es 8 of
           Inr (bytes, es') \<Rightarrow>
             (if le_value bytes \<noteq> 0 then (le_value bytes, es', counter)
              else (fallback, es', counter + 1))
         | Inl _ \<Rightarrow> (fallback, tl es, counter + 1))"

definition new_transaction :: "int \<Rightarrow> u64 \<Rightarrow> string \<Rightarrow> string \<Rightarrow> int \<Rightarrow> transaction" where
  "new_transaction now fresh from to val =
     \<lparr>sender = from, receiver = to, amount = val, timestamp = now, nonce = fresh,
      signature = [], sender_pubkey = []\<rparr>"

definition restore_transaction ::
  "string \<Rightarrow> string \<Rightarrow> int \<Rightarrow> int \<Rightarrow> string \<Rightarrow> u64 \<Rightarrow> transaction" where
  "restore_transaction from to val tx_timestamp tx_signature tx_nonce =
     \<lparr>sender = from, receiver = to, amount = val, timestamp = tx_timestamp, nonce = tx_nonce,
      signature = tx_signature, sender_pubkey = []\<rparr>"

definition setSignature :: "string \<Rightarrow> transaction \<Rightarrow> transaction" where
  "setSignature sig t = t\<lparr>signature := sig\<rparr>"

definition setSenderPublicKey :: "string \<Rightarrow> transaction \<Rightarrow> transaction" where
  "setSenderPublicKey pubkey_hex t = t\<lparr>sender_pubkey := pubkey_hex\<rparr>"

section \<open>Pre-image, hash and the address of the attached key\<close>

definition getTransactionData :: "transaction \<Rightarrow> string" where
  "getTransactionData t =
     sender t @ '':'' @ receiver t @ '':'' @ show_int (amount t) @ '':''
       @ show_int (timestamp t) @ '':'' @ show_word (nonce t)"

definition tx_hash :: "transaction \<Rightarrow> string" where
  "tx_hash t = sha256 (getTransactionData t)"

definition derivedAddressFromKey :: "transaction \<Rightarrow> string" where
  "derivedAddressFromKey t =
     (if length (sender_pubkey t) \<noteq> PUBLIC_KEY_SIZE * 2 then []
      else case hexToBytes (sender_pubkey t) (zeros PUBLIC_KEY_SIZE) PUBLIC_KEY_SIZE of
             (n, pub_key) \<Rightarrow> if n \<noteq> PUBLIC_KEY_SIZE then [] else deriveAddress pub_key)"

section \<open>Signing\<close>

text \<open>
  Signing returns the success flag, the transaction and the rest of the generator's answers; an
  exception of the generator is caught, and leaves the transaction as it was.
\<close>

definition signTransaction ::
  "entropy \<Rightarrow> byte list \<Rightarrow> transaction \<Rightarrow> bool \<times> transaction \<times> entropy" where
  "signTransaction es private_key t =
     (if \<not> isValidPrivateKey private_key then (False, t, es)
      else
        let priv = bytes32ToBigInt private_key;
            kp = keyPairFromPrivateKey priv
        in case signMessage es (getTransactionData t) priv (kp_public_key kp) of
             Inl _ \<Rightarrow> (False, t, [])
           | Inr (sig, es') \<Rightarrow>
               (True, t\<lparr>signature := signatureToHex sig, sender_pubkey := kp_public_key_hex kp\<rparr>, es'))"

definition signTransaction_hex ::
  "entropy \<Rightarrow> string \<Rightarrow> transaction \<Rightarrow> bool \<times> transaction \<times> entropy" where
  "signTransaction_hex es private_key_hex t =
     (if length private_key_hex \<noteq> PRIVATE_KEY_SIZE * 2 then (False, t, es)
      else case hexToBytes private_key_hex (zeros PRIVATE_KEY_SIZE) PRIVATE_KEY_SIZE of
             (n, priv_key) \<Rightarrow>
               if n \<noteq> PRIVATE_KEY_SIZE then (False, t, es) else signTransaction es priv_key t)"

section \<open>Signature checks and validity\<close>

definition tx_verifySignature :: "transaction \<Rightarrow> byte list \<Rightarrow> bool" where
  "tx_verifySignature t public_key =
     (if signature t = [] then False
      else if \<not> isValidPublicKey public_key then False
      else verifyMessageSignature (getTransactionData t) (signatureFromHex (signature t)) public_key)"

definition tx_verifySignature_hex :: "transaction \<Rightarrow> string \<Rightarrow> bool" where
  "tx_verifySignature_hex t public_key_hex =
     (if length public_key_hex \<noteq> PUBLIC_KEY_SIZE * 2 then False
      else case hexToBytes public_key_hex (zeros PUBLIC_KEY_SIZE) PUBLIC_KEY_SIZE of
             (n, pub_key) \<Rightarrow>
               if n \<noteq> PUBLIC_KEY_SIZE then False else tx_verifySignature t pub_key)"

definition verifySignatureByAddress :: "transaction \<Rightarrow> string \<Rightarrow> bool" where
  "verifySignatureByAddress t address =
     (if signature t = [] \<or> address = [] \<or> sender_pubkey t = [] then False
      else
        let derived = derivedAddressFromKey t
        in if derived = [] \<or> derived \<noteq> address then False
           else tx_verifySignature_hex t (sender_pubkey t))"

definition tx_valid :: "transaction \<Rightarrow> bool" where
  "tx_valid t =
     (if sender t = [] \<or> receiver t = [] then False
      else if \<not> isValidAmount (amount t) then False
      else if sender t = receiver t then False
      else if sender t = ''system'' then True
      else if signature t = [] then False
      else if length (signature t) \<noteq> SIGNATURE_SIZE * 2 then False
      else
        let derived = derivedAddressFromKey t
        in if derived = [] \<or> derived \<noteq> sender t then False
           else if \<not> tx_verifySignature_hex t (sender_pubkey t) then False
           else True)"

definition tx_toString :: "transaction \<Rightarrow> string" where
  "tx_toString t =
     ''Transaction {'' @ [CHR 0x0A] @
     ''  From: '' @ sender t @ [CHR 0x0A] @
     ''  To: '' @ receiver t @ [CHR 0x0A] @
     ''  Amount: '' @ format_amount (amount t) @ [CHR 0x0A] @
     ''  Timestamp: '' @ show_int (timestamp t) @ [CHR 0x0A] @
     ''  Hash: '' @ tx_hash t @ [CHR 0x0A] @
     ''  Signature: '' @ (if signature t = [] then ''Not signed'' else take 16 (signature t) @ ''...'')
       @ [CHR 0x0A] @ ''}'' @ [CHR 0x0A]"

section \<open>The pre-image determines the signed fields\<close>

definition signed_fields :: "transaction \<Rightarrow> string \<times> string \<times> int \<times> int \<times> u64" where
  "signed_fields t = (sender t, receiver t, amount t, timestamp t, nonce t)"

lemma colon_number [simp]: "CHR '':'' \<notin> set (show_int i)" "CHR '':'' \<notin> set (show_word w)"
  by (auto simp: show_word_def is_digit_def dest: set_show_nat set_show_int)

lemma show_word_inject [simp]: "show_word v = show_word w \<longleftrightarrow> v = (w :: u64)"
  by (metis stoull_show_word sum.inject(2))

lemma getTransactionData_inject:
  assumes "CHR '':'' \<notin> set (sender s)" "CHR '':'' \<notin> set (sender t)"
  shows "getTransactionData s = getTransactionData t \<longleftrightarrow> signed_fields s = signed_fields t"
proof -
  have "getTransactionData u = sender u @ CHR '':'' # ((receiver u @ CHR '':'' # show_int (amount u))
      @ CHR '':'' # show_int (timestamp u)) @ CHR '':'' # show_word (nonce u)" for u
    by (simp add: getTransactionData_def)
  then show ?thesis
    using assms by (auto simp: split_first split_last signed_fields_def simp del: append_assoc)
qed

lemma tx_hash_collision:
  assumes "tx_hash s = tx_hash t"
  shows "getTransactionData s = getTransactionData t \<or>
     collides hashRaw [bytes_of_string (getTransactionData s)] [bytes_of_string (getTransactionData t)]"
  using assms by (auto simp: tx_hash_def sha256_def hash_string_def hash_bytes_hex collides_def)

section \<open>What a valid transaction guarantees\<close>

lemma hexToBytes_length:
  assumes "hexToBytes h (zeros n) n = (n, out)" "length h = n * 2"
  shows "length out = n"
  using assms hex_loop_length [of h "[]"]
  by (auto simp: hexToBytes_def overwrite_def zeros_def split: prod.splits option.splits if_splits)

lemma derivedAddressFromKey_hex:
  "derivedAddressFromKey t \<noteq> [] \<Longrightarrow>
     length (derivedAddressFromKey t) = 40 \<and> list_all is_lower_hex (derivedAddressFromKey t)"
  by (auto simp: derivedAddressFromKey_def length_deriveAddress deriveAddress_lower
      split: prod.splits if_splits)

lemma tx_valid_basic:
  assumes "tx_valid t"
  shows "sender t \<noteq> []" "receiver t \<noteq> []" "sender t \<noteq> receiver t" "isValidAmount (amount t)"
  using assms by (auto simp: tx_valid_def split: if_splits)

lemma tx_valid_iff:
  "tx_valid t \<longleftrightarrow>
     sender t \<noteq> [] \<and> receiver t \<noteq> [] \<and> isValidAmount (amount t) \<and> sender t \<noteq> receiver t \<and>
     (sender t = ''system'' \<or>
      length (signature t) = 128 \<and> verifySignatureByAddress t (sender t))"
  by (auto simp: tx_valid_def verifySignatureByAddress_def Let_def ec_sizes
      tx_verifySignature_hex_def derivedAddressFromKey_def)

lemma tx_valid_sender:
  assumes "tx_valid t" "sender t \<noteq> ''system''"
  shows "length (sender t) = 40 \<and> list_all is_lower_hex (sender t)"
  using assms derivedAddressFromKey_hex [of t]
  by (auto simp: tx_valid_iff verifySignatureByAddress_def Let_def split: if_splits)

lemma tx_valid_sender_colon: "tx_valid t \<Longrightarrow> CHR '':'' \<notin> set (sender t)"
  using tx_valid_sender [of t]
  by (cases "sender t = ''system''") (auto simp: list_all_iff is_lower_hex_def is_digit_def)

lemma valid_data_inject:
  "tx_valid s \<Longrightarrow> tx_valid t \<Longrightarrow>
     getTransactionData s = getTransactionData t \<longleftrightarrow> signed_fields s = signed_fields t"
  by (simp add: getTransactionData_inject tx_valid_sender_colon)

lemma tx_valid_system:
  "sender t = ''system'' \<Longrightarrow>
     tx_valid t \<longleftrightarrow> receiver t \<noteq> [] \<and> receiver t \<noteq> ''system'' \<and> isValidAmount (amount t)"
  by (auto simp: tx_valid_def)

section \<open>Signing\<close>

lemma keyPair_public_hex: "\<exists>bs. length bs = 33 \<and> kp_public_key_hex (keyPairFromPrivateKey k) = ec_bytesToHex bs
    \<and> kp_address (keyPairFromPrivateKey k) = deriveAddress bs"
  by (intro exI [of _ "compressPublicKey (kp_public_key (keyPairFromPrivateKey k))"])
     (simp add: keyPairFromPrivateKey_def KeyPair_def Let_def compressPublicKey_def zeros_def ec_sizes)

lemma length_ec_bytesToHex [simp]: "length (ec_bytesToHex bs) = 2 * length bs"
  by (simp add: ec_bytesToHex_hex_bytes)

lemma signTransaction_success:
  assumes "signTransaction es key t = (True, t', es')"
  shows "signed_fields t' = signed_fields t" "length (signature t') = 128"
    and "derivedAddressFromKey t' = kp_address (keyPairFromPrivateKey (bytes32ToBigInt key))"
    and "length (sender_pubkey t') = 66"
proof -
  let ?kp = "keyPairFromPrivateKey (bytes32ToBigInt key)"
  from assms obtain sig where
    sig: "signMessage es (getTransactionData t) (bytes32ToBigInt key) (kp_public_key ?kp) = Inr (sig, es')"
    and t': "t' = t\<lparr>signature := signatureToHex sig, sender_pubkey := kp_public_key_hex ?kp\<rparr>"
    by (auto simp: signTransaction_def Let_def split: if_splits sum.splits)
  obtain bs where bs: "length bs = 33" "kp_public_key_hex ?kp = ec_bytesToHex bs"
      "kp_address ?kp = deriveAddress bs"
    using keyPair_public_hex by blast
  show "signed_fields t' = signed_fields t" by (simp add: t' signed_fields_def)
  show "length (signature t') = 128"
    using sig by (simp add: t' signatureToHex_def signMessage_def signHash_length)
  show "length (sender_pubkey t') = 66" by (simp add: t' bs)
  show "derivedAddressFromKey t' = kp_address ?kp"
    by (simp add: t' derivedAddressFromKey_def bs ec_sizes hexToBytes_bytesToHex zeros_def)
qed

lemma signTransaction_failure: "signTransaction es key t = (False, t', es') \<Longrightarrow> t' = t"
  by (auto simp: signTransaction_def Let_def split: if_splits sum.splits)

text \<open>
  After a successful signing the only part of the validity test left open is the curve equation:
  a non-system transaction from the key's own address is valid exactly when its signature verifies.
\<close>

lemma signTransaction_valid_iff:
  assumes "signTransaction es key t = (True, t', es')"
    and "sender t = kp_address (keyPairFromPrivateKey (bytes32ToBigInt key))"
    and "receiver t \<noteq> []" "receiver t \<noteq> sender t" "isValidAmount (amount t)"
  shows "tx_valid t' \<longleftrightarrow> tx_verifySignature_hex t' (sender_pubkey t')"
proof -
  have f: "sender t' = sender t" "receiver t' = receiver t" "amount t' = amount t"
    using signTransaction_success(1) [OF assms(1)] by (simp_all add: signed_fields_def)
  have len: "length (sender t) = 40"
    using keyPair_public_hex [of "bytes32ToBigInt key"] assms(2) by (auto simp: length_deriveAddress)
  then have ne: "sender t \<noteq> ''system''" "sender t \<noteq> []" by auto
  moreover have "signature t' \<noteq> []" "sender_pubkey t' \<noteq> []"
    using signTransaction_success(2,4) [OF assms(1)] by auto
  ultimately show ?thesis
    using assms signTransaction_success [OF assms(1)]
    by (auto simp: tx_valid_iff f verifySignatureByAddress_def Let_def)
qed

end
