(* ===== verification/Wallet.thy ===== *)
theory Wallet
  imports Keystore Transaction
begin

text \<open>
  \<open>src/src/Wallet.cpp\<close>: the key pairs a user holds, the address transactions are signed with,
  and the encrypted wallet file.  The map \<open>key_pairs\<close> is an association list in the order in
  which the code iterates over it; a new key is put at its end.  Operations that draw keys or salts
  take the generator's answers and return the rest; messages on the error stream are left out.

  The lemmas: every operation keeps the wallet's invariant, a key made from its private part signs
  for its own address, a saved wallet loads back, and a wallet holding an unusable key does not.
\<close>

section \<open>State\<close>

record wallet_key =
  wk_private :: "byte list"
  wk_public :: "byte list"
  wk_address :: string

record wallet =
  key_pairs :: "(string \<times> wallet_key) list"
  default_address :: string

definition empty_wallet :: wallet where
  "empty_wallet = \<lparr>key_pairs = [], default_address = []\<rparr>"

section \<open>Keys\<close>

text \<open>The end of the three operations that add a key.\<close>

definition store_key_pair :: "wallet_key \<Rightarrow> wallet \<Rightarrow> wallet" where
  "store_key_pair kp w =
     (let address = wk_address kp;
          w1 = w\<lparr>key_pairs := AList.update address kp (key_pairs w)\<rparr>
      in if default_address w1 = [] then w1\<lparr>default_address := address\<rparr> else w1)"

text \<open>The bytes of a key pair given in hex, if both have the right size.\<close>

definition key_bytes :: "key_pair \<Rightarrow> wallet_key option" where
  "key_bytes k =
     (case hexToBytes (kp_private_key_hex k) (zeros PRIVATE_KEY_SIZE) PRIVATE_KEY_SIZE of
        (n, priv) \<Rightarrow>
          if n \<noteq> PRIVATE_KEY_SIZE then None
          else case hexToBytes (kp_public_key_hex k) (zeros PUBLIC_KEY_SIZE) PUBLIC_KEY_SIZE of
                 (m, pub) \<Rightarrow>
                   if m \<noteq> PUBLIC_KEY_SIZE then None
                   else Some \<lparr>wk_private = priv, wk_public = pub, wk_address = kp_address k\<rparr>)"

definition generateNewAddress :: "entropy \<Rightarrow> wallet \<Rightarrow> string \<times> wallet \<times> entropy" where
  "generateNewAddress es w =
     (case generateKeyPair es of
        Inl _ \<Rightarrow> ([], w, [])
      | Inr (k, es') \<Rightarrow>
          (case key_bytes k of
             None \<Rightarrow> ([], w, es')
           | Some kp \<Rightarrow> (wk_address kp, store_key_pair kp w, es')))"

definition importKeyPair :: "string \<Rightarrow> string \<Rightarrow> wallet \<Rightarrow> bool \<times> wallet" where
  "importKeyPair priv_key_hex pub_key_hex w =
     (if length priv_key_hex \<noteq> PRIVATE_KEY_SIZE * 2 \<or> length pub_key_hex \<noteq> PUBLIC_KEY_SIZE * 2
      then (False, w)
      else
        case (hexToBytes priv_key_hex (zeros PRIVATE_KEY_SIZE) PRIVATE_KEY_SIZE,
              hexToBytes pub_key_hex (zeros PUBLIC_KEY_SIZE) PUBLIC_KEY_SIZE) of
          ((n, priv_key), (m, pub_key)) \<Rightarrow>
            if n \<noteq> PRIVATE_KEY_SIZE \<or> m \<noteq> PUBLIC_KEY_SIZE then (False, w)
            else if \<not> isValidPrivateKey priv_key \<or> \<not> isValidPublicKey pub_key then (False, w)
            else
              (True, store_key_pair
                 \<lparr>wk_private = priv_key, wk_public = pub_key, wk_address = deriveAddress pub_key\<rparr> w))"

definition importPrivateKey :: "string \<Rightarrow> wallet \<Rightarrow> bool \<times> wallet" where
  "importPrivateKey priv_key_hex w =
     (case keyPairFromPrivateKeyHex priv_key_hex of
        Inl _ \<Rightarrow> (False, w)
      | Inr k \<Rightarrow>
          (case key_bytes k of None \<Rightarrow> (False, w) | Some kp \<Rightarrow> (True, store_key_pair kp w)))"

section \<open>Queries\<close>

definition getPrivateKey :: "wallet \<Rightarrow> string \<Rightarrow> byte list" where
  "getPrivateKey w address =
     (case map_of (key_pairs w) address of Some kp \<Rightarrow> wk_private kp | None \<Rightarrow> zeros PRIVATE_KEY_SIZE)"

definition getPublicKey :: "wallet \<Rightarrow> string \<Rightarrow> byte list" where
  "getPublicKey w address =
     (case map_of (key_pairs w) address of Some kp \<Rightarrow> wk_public kp | None \<Rightarrow> zeros PUBLIC_KEY_SIZE)"

definition getPrivateKeyHex :: "wallet \<Rightarrow> string \<Rightarrow> string" where
  "getPrivateKeyHex w address =
     (case map_of (key_pairs w) address of Some kp \<Rightarrow> ec_bytesToHex (wk_private kp) | None \<Rightarrow> [])"

definition getPublicKeyHex :: "wallet \<Rightarrow> string \<Rightarrow> string" where
  "getPublicKeyHex w address =
     (case map_of (key_pairs w) address of Some kp \<Rightarrow> ec_bytesToHex (wk_public kp) | None \<Rightarrow> [])"

definition hasAddress :: "wallet \<Rightarrow> string \<Rightarrow> bool" where
  "hasAddress w address = (map_of (key_pairs w) address \<noteq> None)"

definition getAllAddresses :: "wallet \<Rightarrow> string list" where
  "getAllAddresses w = map fst (key_pairs w)"

definition setDefaultAddress :: "string \<Rightarrow> wallet \<Rightarrow> wallet" where
  "setDefaultAddress address w = (if hasAddress w address then w\<lparr>default_address := address\<rparr> else w)"

definition wallet_clear :: "wallet \<Rightarrow> wallet" where
  "wallet_clear w = w\<lparr>key_pairs := [], default_address := []\<rparr>"

definition wallet_toString :: "wallet \<Rightarrow> string" where
  "wallet_toString w =
     ''Wallet Summary:'' @ newline # ''  Total Addresses: '' @ show_nat (length (key_pairs w)) @
     newline # ''  Default Address: '' @ (if default_address w = [] then ''None'' else default_address w) @
     newline # ''  Addresses:'' @ newline #
     concat (map (\<lambda>(address, kp). ''    '' @ address @
       (if address = default_address w then '' (default)'' else []) @ [newline]) (key_pairs w))"

definition createRandomWallet :: "entropy \<Rightarrow> wallet option \<times> entropy" where
  "createRandomWallet es =
     (let (address, w, es') = generateNewAddress es empty_wallet
      in if address = [] then (None, es') else (Some w, es'))"

definition isValidAddress :: "string \<Rightarrow> bool" where
  "isValidAddress address = (if length address \<noteq> 40 then False else list_all is_lower_hex address)"

section \<open>Signing\<close>

definition wallet_signTransaction ::
  "entropy \<Rightarrow> wallet \<Rightarrow> transaction \<Rightarrow> string \<Rightarrow> bool \<times> transaction \<times> entropy" where
  "wallet_signTransaction es w t from_address =
     (if \<not> hasAddress w from_address then (False, t, es)
      else if sender t \<noteq> from_address then (False, t, es)
      else signTransaction es (getPrivateKey w from_address) t)"

definition wallet_verifyTransaction :: "wallet \<Rightarrow> transaction \<Rightarrow> string \<Rightarrow> bool" where
  "wallet_verifyTransaction w t address =
     (if \<not> hasAddress w address then False else tx_verifySignature t (getPublicKey w address))"

section \<open>The wallet file\<close>

definition key_line :: "string \<times> wallet_key \<Rightarrow> string" where
  "key_line entry = (case entry of (address, kp) \<Rightarrow>
     address @ '':'' @ ec_bytesToHex (wk_private kp) @ '':'' @ ec_bytesToHex (wk_public kp))"

definition wallet_body :: "wallet \<Rightarrow> string" where
  "wallet_body w = lines_of ((''DEFAULT:'' @ default_address w) # map key_line (key_pairs w))"

text \<open>The text written to the file, \<open>None\<close> if the file is not touched; \<open>opened\<close> says
  whether it could be opened.\<close>

definition wallet_saveToFile ::
  "bool \<Rightarrow> entropy \<Rightarrow> string \<Rightarrow> wallet \<Rightarrow> bool \<times> string option \<times> entropy" where
  "wallet_saveToFile opened es password w =
     (let (armored, es') = encrypt es (wallet_body w) password DEFAULT_ITERATIONS
      in if armored = [] then (False, None, es')
         else if \<not> opened then (False, None, es')
         else (True, Some armored, es'))"

text \<open>One line of the file; the state is the default address read so far and the scratch wallet, or
  \<open>None\<close> once the load has failed.\<close>

definition load_line :: "string \<Rightarrow> (string \<times> wallet) option \<Rightarrow> (string \<times> wallet) option" where
  "load_line line acc =
     (case acc of
        None \<Rightarrow> None
      | Some (parsed_default, parsed) \<Rightarrow>
          if take 8 line = ''DEFAULT:'' then Some (drop 8 line, parsed)
          else
            let after_first = dropWhile (\<lambda>c. c \<noteq> CHR '':'') line;
                after_second = dropWhile (\<lambda>c. c \<noteq> CHR '':'') (tl after_first)
            in if after_first = [] \<or> after_second = [] then None
               else
                 let priv_hex = takeWhile (\<lambda>c. c \<noteq> CHR '':'') (tl after_first); pub_hex = tl after_second;
                     (ok, parsed') = importKeyPair priv_hex pub_hex parsed
                 in if \<not> ok then None else Some (parsed_default, parsed'))"

definition parse_wallet :: "string \<Rightarrow> (string \<times> wallet) option" where
  "parse_wallet body = for_lines load_line [] (Good body) (Some ([], empty_wallet))"

definition wallet_loadFromFile :: "string option \<Rightarrow> string \<Rightarrow> wallet \<Rightarrow> bool \<times> wallet" where
  "wallet_loadFromFile content password w =
     (case content of
        None \<Rightarrow> (False, w)
      | Some armored \<Rightarrow>
          (case decrypt armored password of
             None \<Rightarrow> (False, w)
           | Some body \<Rightarrow>
               (case parse_wallet body of
                  None \<Rightarrow> (False, w)
                | Some (parsed_default, parsed) \<Rightarrow>
                    (True, w\<lparr>key_pairs := key_pairs parsed,
                       default_address := (if parsed_default = [] then default_address parsed
                         else parsed_default)\<rparr>))))"

section \<open>Sequences of wallet operations\<close>

text \<open>Operations that make a key from its private part, and those that do not touch the keys.\<close>

inductive own_step :: "wallet \<Rightarrow> wallet \<Rightarrow> bool" where
  generate: "generateNewAddress es w = (address, w', es') \<Longrightarrow> own_step w w'"
| import_private: "importPrivateKey hex w = (ok, w') \<Longrightarrow> own_step w w'"
| select: "own_step w (setDefaultAddress address w)"
| clear_all: "own_step w (wallet_clear w)"

text \<open>Every operation: pairs of keys from outside, directly or from a file, are added.\<close>

inductive wallet_step :: "wallet \<Rightarrow> wallet \<Rightarrow> bool" where
  own: "own_step w w' \<Longrightarrow> wallet_step w w'"
| import_pair: "importKeyPair priv pub w = (ok, w') \<Longrightarrow> wallet_step w w'"
| load: "wallet_loadFromFile content password w = (ok, w') \<Longrightarrow> wallet_step w w'"

inductive_cases own_stepE: "own_step w w'"
inductive_cases wallet_stepE: "wallet_step w w'"

locale own_keys =
  fixes K :: "string \<times> wallet_key \<Rightarrow> bool"
  assumes fresh: "key_bytes (KeyPair k (ec_mult secp_G (k mod secp_N))) = Some kp \<Longrightarrow> K (wk_address kp, kp)"
begin

lemma store: "K (wk_address kp, kp) \<Longrightarrow> list_all K (key_pairs w) \<Longrightarrow> list_all K (key_pairs (store_key_pair kp w))"
  using set_alist_update [of "wk_address kp" kp "key_pairs w"]
  by (auto simp: store_key_pair_def Let_def list_all_iff)

lemma own_keep: "own_step w w' \<Longrightarrow> list_all K (key_pairs w) \<Longrightarrow> list_all K (key_pairs w')"
  by (erule own_stepE)
    (auto simp: generateNewAddress_def generateKeyPair_def importPrivateKey_def keyPairFromPrivateKey_def
      keyPairFromPrivateKeyHex_def setDefaultAddress_def wallet_clear_def store fresh
      split: sum.splits option.splits if_splits)

lemma own_reach: "own_step\<^sup>*\<^sup>* w w' \<Longrightarrow> list_all K (key_pairs w) \<Longrightarrow> list_all K (key_pairs w')"
  by (induction rule: rtranclp_induct) (auto intro: own_keep)

end

locale any_keys = own_keys +
  assumes pair: "isValidPrivateKey priv \<Longrightarrow> isValidPublicKey pub \<Longrightarrow> length priv = 32 \<Longrightarrow> length pub = 33 \<Longrightarrow>
    K (deriveAddress pub, \<lparr>wk_private = priv, wk_public = pub, wk_address = deriveAddress pub\<rparr>)"
begin

lemma imported:
  assumes "importKeyPair priv pub w = (ok, w')" "list_all K (key_pairs w)"
  shows "list_all K (key_pairs w')"
proof (cases ok)
  case False
  then show ?thesis using assms by (auto simp: importKeyPair_def Let_def split: if_splits prod.splits)
next
  case True
  then obtain a b where
    h: "hexToBytes priv (zeros 32) 32 = (32, a)" "hexToBytes pub (zeros 33) 33 = (33, b)"
    and k: "isValidPrivateKey a" "isValidPublicKey b" "length priv = 64" "length pub = 66"
    and w': "w' = store_key_pair \<lparr>wk_private = a, wk_public = b, wk_address = deriveAddress b\<rparr> w"
    using assms(1) by (auto simp: importKeyPair_def ec_sizes split: if_splits prod.splits)
  have "length a = 32" "length b = 33"
    using hexToBytes_length [OF h(1)] hexToBytes_length [OF h(2)] k by simp_all
  then show ?thesis using store [of "\<lparr>wk_private = a, wk_public = b, wk_address = deriveAddress b\<rparr>"] pair [OF k(1,2)] assms(2)
    by (simp add: w')
qed

lemma line_loaded:
  assumes "pred_option (\<lambda>(d, p). list_all K (key_pairs p)) acc"
  shows "pred_option (\<lambda>(d, p). list_all K (key_pairs p)) (load_line line acc)"
proof (cases acc)
  case (Some dp)
  obtain d p where dp: "dp = (d, p)" by fastforce
  let ?a = "dropWhile (\<lambda>c. c \<noteq> CHR '':'') line"
  obtain ok p' where i: "importKeyPair (takeWhile (\<lambda>c. c \<noteq> CHR '':'') (tl ?a))
      (tl (dropWhile (\<lambda>c. c \<noteq> CHR '':'') (tl ?a))) p = (ok, p')" by fastforce
  then have "list_all K (key_pairs p')" using imported assms by (simp add: Some dp)
  then show ?thesis using assms i by (simp add: load_line_def Some dp Let_def)
qed (simp add: load_line_def)

lemma parsed: "parse_wallet body = Some (d, p) \<Longrightarrow> list_all K (key_pairs p)"
  using for_lines_keeps [of "pred_option (\<lambda>(d, p). list_all K (key_pairs p))" load_line "Some ([], empty_wallet)",
      OF line_loaded, where l = "[]" and s = "Good body"]
  by (simp add: parse_wallet_def empty_wallet_def)

lemma keep: "wallet_step w w' \<Longrightarrow> list_all K (key_pairs w) \<Longrightarrow> list_all K (key_pairs w')"
  by (erule wallet_stepE)
    (auto simp: own_keep imported wallet_loadFromFile_def parsed split: option.splits prod.splits)

lemma reach: "wallet_step\<^sup>*\<^sup>* w w' \<Longrightarrow> list_all K (key_pairs w) \<Longrightarrow> list_all K (key_pairs w')"
  by (induction rule: rtranclp_induct) (auto intro: keep)

end

section \<open>Renderings of private keys\<close>

lemma hex_of_int_length: "0 < n \<Longrightarrow> n < 16 ^ length (hex_of_int n [])"
proof (induction "nat n" arbitrary: n rule: less_induct)
  case less
  have l: "length (hex_of_int n []) = Suc (length (hex_of_int (n div 16) []))"
    using hex_of_int_snoc [OF less.prems] by simp
  show ?case
  proof (cases "n div 16 = 0")
    case True
    then have "n < 16" using less.prems by linarith
    then show ?thesis by (simp add: l True hex_of_int_zero)
  next
    case False
    then have "n div 16 < 16 ^ length (hex_of_int (n div 16) [])"
      using less.prems by (intro less.hyps) (auto simp: pos_imp_zdiv_pos_iff)
    then show ?thesis unfolding l power_Suc by linarith
  qed
qed

lemma padded_hex_bound:
  assumes "0 \<le> k" "length (padded_hex k) = 64"
  shows "k < 16 ^ 64"
proof (cases "k = 0")
  case False
  then have "length (hex_of_int k []) \<le> 64" using assms(2) by (simp add: padded_hex_def Let_def)
  then have "(16::int) ^ length (hex_of_int k []) \<le> 16 ^ 64" by (rule power_increasing) simp
  moreover have "k < 16 ^ length (hex_of_int k [])" using assms(1) False by (intro hex_of_int_length) simp
  ultimately show ?thesis by (rule order.strict_trans2 [rotated])
qed simp

lemma ec_bytesToHex_zeros: "ec_bytesToHex (zeros n) = replicate (2 * n) (CHR ''0'')"
  by (induction n) (simp_all add: zeros_def ec_bytesToHex_hex_bytes hex_byte_def)

lemma padded_hex_negative: "k \<le> 0 \<Longrightarrow> padded_hex k = ec_bytesToHex (zeros 32)"
proof -
  assume k: "k \<le> 0"
  have "hex_of_int k [] = []" if "k < 0" using that by (subst hex_of_int.simps) simp
  then have "padded_hex k = replicate 64 (CHR ''0'')"
    using k replicate_append_same [of 63 "CHR ''0''"] by (auto simp: padded_hex_def Let_def simp flip: replicate_Suc)
  then show ?thesis by (simp add: ec_bytesToHex_zeros)
qed

lemma zero_key_invalid: "\<not> isValidPrivateKey (zeros 32)"
proof -
  have "be_value (replicate n 0) = 0" for n by (induction n) (simp_all add: be_value_Cons, simp add: be_value_def)
  then show ?thesis by (simp add: isValidPrivateKey_def bytes32ToBigInt_be zeros_def)
qed

section \<open>What the keys of a wallet satisfy\<close>

text \<open>A key is filed under the address of its public part, and has the sizes of a key.\<close>

definition filed :: "string \<times> wallet_key \<Rightarrow> bool" where
  "filed entry \<longleftrightarrow> (case entry of (address, kp) \<Rightarrow>
     address = deriveAddress (wk_public kp) \<and> wk_address kp = address \<and>
     length (wk_private kp) = 32 \<and> length (wk_public kp) = 33)"

text \<open>A private key that can sign belongs to the address the key is filed under.\<close>

definition self_signed :: "string \<times> wallet_key \<Rightarrow> bool" where
  "self_signed entry \<longleftrightarrow> (case entry of (address, kp) \<Rightarrow>
     isValidPrivateKey (wk_private kp) \<longrightarrow>
       address = kp_address (keyPairFromPrivateKey (bytes32ToBigInt (wk_private kp))))"

lemma key_bytes_filed:
  assumes "key_bytes (KeyPair k Q) = Some kp"
  shows "filed (wk_address kp, kp)"
proof -
  let ?c = "compressPublicKey Q"
  have c: "length ?c = 33" by (simp add: compressPublicKey_def zeros_def ec_sizes)
  obtain priv where priv: "hexToBytes (padded_hex k) (zeros 32) 32 = (32, priv)"
    and kp: "kp = \<lparr>wk_private = priv, wk_public = ?c, wk_address = deriveAddress ?c\<rparr>"
    using assms c
    by (auto simp: key_bytes_def KeyPair_def Let_def ec_sizes hexToBytes_bytesToHex zeros_def split: if_splits prod.splits)
  have "length (padded_hex k) = 32 * 2"
    using hexToBytes_strict [of 32 "padded_hex k" "zeros 32"] priv by simp
  then show ?thesis using hexToBytes_length [OF priv] c by (simp add: filed_def kp)
qed

lemma key_bytes_self_signed:
  assumes "key_bytes (KeyPair k (ec_mult secp_G (k mod secp_N))) = Some kp"
  shows "self_signed (wk_address kp, kp)"
proof -
  have hex: "length (padded_hex k) = 64" "hexToBytes (padded_hex k) (zeros 32) 32 = (32, wk_private kp)"
    "wk_address kp = kp_address (keyPairFromPrivateKey k)"
    using assms hexToBytes_strict [of 32 "padded_hex k" "zeros 32"]
    by (auto simp: key_bytes_def KeyPair_def keyPairFromPrivateKey_def Let_def ec_sizes split: if_splits prod.splits)
  show ?thesis
  proof (cases "0 \<le> k")
    case True
    then have "k < 16 ^ 64" using hex(1) by (rule padded_hex_bound)
    then have "k < 256 ^ 32" by simp
    then obtain bs where bs: "length bs = 32" "be_value bs = k" using be_value_surj True by blast
    then have "padded_hex k = ec_bytesToHex bs"
      using padded_hex_fixed [OF True \<open>k < 16 ^ 64\<close>] hex_bytes_fixed [of bs] by (simp add: ec_bytesToHex_hex_bytes)
    then have "wk_private kp = bs" using hex(2) bs(1) by (simp add: hexToBytes_bytesToHex zeros_def)
    then have "bytes32ToBigInt (wk_private kp) = k" using bs by (simp add: bytes32ToBigInt_be)
    then show ?thesis by (simp add: self_signed_def hex(3))
  next
    case False
    then have "padded_hex k = ec_bytesToHex (zeros 32)" by (simp add: padded_hex_negative)
    then have "wk_private kp = zeros 32" using hex(2) by (simp add: hexToBytes_bytesToHex zeros_def)
    then show ?thesis by (simp add: self_signed_def zero_key_invalid)
  qed
qed

interpretation filed_keys: any_keys filed
  by unfold_locales (erule key_bytes_filed, simp add: filed_def)

interpretation signers: own_keys self_signed
  by unfold_locales (rule key_bytes_self_signed)

text \<open>Keys are distinct, and the default address is one of them unless there is none.\<close>

definition well_addressed :: "wallet \<Rightarrow> bool" where
  "well_addressed w \<longleftrightarrow> distinct (map fst (key_pairs w)) \<and>
     (if key_pairs w = [] then default_address w = [] else default_address w \<in> fst ` set (key_pairs w))"

lemma filed_address:
  assumes "filed (a, kp)"
  shows "length a = 40" "list_all is_lower_hex a" "a \<noteq> []"
  using assms length_deriveAddress [of "wk_public kp"] deriveAddress_lower [of "wk_public kp"]
  by (auto simp: filed_def)

lemma filed_addresses: "list_all filed kps \<Longrightarrow> a \<in> fst ` set kps \<Longrightarrow> length a = 40 \<and> list_all is_lower_hex a"
  using filed_address by (fastforce simp: list_all_iff)

lemma store_well_addressed:
  assumes "well_addressed w" "list_all filed (key_pairs w)"
  shows "well_addressed (store_key_pair kp w)"
proof -
  have "default_address w = [] \<Longrightarrow> key_pairs w = []"
    using assms filed_addresses [of "key_pairs w" "[]"] by (auto simp: well_addressed_def split: if_splits)
  then show ?thesis
    using assms(1)
    by (auto simp: well_addressed_def store_key_pair_def Let_def distinct_update dom_update split: if_splits)
qed

lemma own_well_addressed:
  "own_step w w' \<Longrightarrow> well_addressed w \<and> list_all filed (key_pairs w) \<Longrightarrow>
     well_addressed w' \<and> list_all filed (key_pairs w')"
proof (rule conjI)
  assume w: "own_step w w'" "well_addressed w \<and> list_all filed (key_pairs w)"
  then show "list_all filed (key_pairs w')" by (blast intro: filed_keys.own_keep)
  from w show "well_addressed w'"
    by (elim own_stepE)
      (auto simp: generateNewAddress_def importPrivateKey_def store_well_addressed setDefaultAddress_def
        hasAddress_def wallet_clear_def split: sum.splits option.splits,
       auto simp: well_addressed_def map_of_eq_None_iff image_iff split: if_splits intro: rev_bexI dest: map_of_SomeD)
qed

lemma own_reach_well_addressed:
  "own_step\<^sup>*\<^sup>* empty_wallet w \<Longrightarrow> well_addressed w \<and> list_all filed (key_pairs w)"
  by (induction rule: rtranclp_induct) (simp add: empty_wallet_def well_addressed_def, rule own_well_addressed)

section \<open>Signing for an own address\<close>

lemma wallet_signs:
  assumes "list_all self_signed (key_pairs w)" "wallet_signTransaction es w t a = (True, t', es')"
  shows "signed_fields t' = signed_fields t" "sender t = a" "length (signature t') = 128" "derivedAddressFromKey t' = a"
    and "receiver t \<noteq> [] \<Longrightarrow> receiver t \<noteq> a \<Longrightarrow> isValidAmount (amount t) \<Longrightarrow>
      tx_valid t' \<longleftrightarrow> tx_verifySignature_hex t' (sender_pubkey t')"
proof -
  have sign: "hasAddress w a" "sender t = a" "signTransaction es (getPrivateKey w a) t = (True, t', es')"
    using assms(2) by (auto simp: wallet_signTransaction_def split: if_splits)
  then obtain kp where kp: "map_of (key_pairs w) a = Some kp" "getPrivateKey w a = wk_private kp"
    by (auto simp: hasAddress_def getPrivateKey_def)
  have "isValidPrivateKey (wk_private kp)"
    using sign(3) kp(2) by (auto simp: signTransaction_def split: if_splits)
  then have a: "a = kp_address (keyPairFromPrivateKey (bytes32ToBigInt (wk_private kp)))"
    using assms(1) map_of_SomeD [OF kp(1)] by (auto simp: list_all_iff self_signed_def)
  show "signed_fields t' = signed_fields t" "length (signature t') = 128"
    using signTransaction_success [OF sign(3)] by simp_all
  show "sender t = a" by (rule sign(2))
  show "derivedAddressFromKey t' = a"
    using signTransaction_success(3) [OF sign(3)] a kp(2) by simp
  show "tx_valid t' \<longleftrightarrow> tx_verifySignature_hex t' (sender_pubkey t')"
    if "receiver t \<noteq> []" "receiver t \<noteq> a" "isValidAmount (amount t)"
    using signTransaction_valid_iff [OF sign(3)] that a kp(2) sign(2) by simp
qed

section \<open>Saving and loading\<close>

text \<open>A key the loader accepts.\<close>

definition usable :: "string \<times> wallet_key \<Rightarrow> bool" where
  "usable entry \<longleftrightarrow> (case entry of (address, kp) \<Rightarrow>
     isValidPrivateKey (wk_private kp) \<and> isValidPublicKey (wk_public kp))"

lemma split_at_delim:
  assumes "d \<notin> set xs"
  shows "takeWhile (\<lambda>c. c \<noteq> d) (xs @ d # r) = xs" "dropWhile (\<lambda>c. c \<noteq> d) (xs @ d # r) = d # r"
  using assms by (induction xs) auto

lemma lower_hex_clean:
  "list_all is_lower_hex s \<Longrightarrow> CHR '':'' \<notin> set s" "list_all is_lower_hex s \<Longrightarrow> newline \<notin> set s"
  by (auto simp: list_all_iff is_lower_hex_def is_digit_def)

lemma import_hex:
  assumes "length priv = 32" "length pub = 33"
  shows "importKeyPair (ec_bytesToHex priv) (ec_bytesToHex pub) w =
    (if isValidPrivateKey priv \<and> isValidPublicKey pub
     then (True, store_key_pair \<lparr>wk_private = priv, wk_public = pub, wk_address = deriveAddress pub\<rparr> w)
     else (False, w))"
  using assms by (auto simp: importKeyPair_def ec_sizes hexToBytes_bytesToHex zeros_def)

lemma load_key_line:
  assumes "filed (a, kp)"
  shows "load_line (key_line (a, kp)) (Some (d, p)) =
    (if usable (a, kp) then Some (d, store_key_pair kp p) else None)"
proof -
  have kp: "\<lparr>wk_private = wk_private kp, wk_public = wk_public kp, wk_address = deriveAddress (wk_public kp)\<rparr> = kp"
    using assms by (cases kp) (simp add: filed_def)
  have "list_all is_lower_hex a" "length a = 40" using filed_address [OF assms] by simp_all
  moreover have "list_all is_lower_hex (ec_bytesToHex bs)" for bs by (simp add: ec_bytesToHex_hex_bytes hex_bytes_lower)
  ultimately have clean: "CHR '':'' \<notin> set a" "CHR '':'' \<notin> set (ec_bytesToHex bs)" for bs
    using lower_hex_clean(1) by blast+
  have "take 8 (key_line (a, kp)) \<noteq> ''DEFAULT:''"
  proof
    assume "take 8 (key_line (a, kp)) = ''DEFAULT:''"
    then have "take 8 a = ''DEFAULT:''" using \<open>length a = 40\<close> by (simp add: key_line_def)
    then have "CHR '':'' \<in> set (take 8 a)" by simp
    then show False using clean(1) by (meson in_set_takeD)
  qed
  then have "load_line (key_line (a, kp)) (Some (d, p)) =
      (case importKeyPair (ec_bytesToHex (wk_private kp)) (ec_bytesToHex (wk_public kp)) p of
         (ok, p') \<Rightarrow> if \<not> ok then None else Some (d, p'))"
    using clean by (simp add: load_line_def key_line_def split_at_delim Let_def)
  moreover have "importKeyPair (ec_bytesToHex (wk_private kp)) (ec_bytesToHex (wk_public kp)) p =
      (if usable (a, kp) then (True, store_key_pair kp p) else (False, p))"
    using assms import_hex [of "wk_private kp" "wk_public kp" p, unfolded kp] by (simp add: filed_def usable_def)
  ultimately show ?thesis by simp
qed

lemma key_line_clean:
  assumes "filed entry"
  shows "key_line entry \<noteq> [] \<and> newline \<notin> set (key_line entry)"
  using assms filed_address(2) [of "fst entry" "snd entry"] newline_hex
  by (cases entry) (auto simp: key_line_def dest: lower_hex_clean(2))

text \<open>The keys are stored one after the other; the first becomes the default.\<close>

lemma load_keys:
  "list_all filed kps \<Longrightarrow> list_all usable kps \<Longrightarrow> distinct (map fst (key_pairs p @ kps)) \<Longrightarrow>
     fold load_line (map key_line kps) (Some (d, p)) = Some (d, p\<lparr>key_pairs := key_pairs p @ kps,
       default_address := (if default_address p = [] \<and> kps \<noteq> [] then fst (hd kps) else default_address p)\<rparr>)"
proof (induction kps arbitrary: p)
  case (Cons e kps)
  obtain a kp where e: "e = (a, kp)" by fastforce
  have a: "filed (a, kp)" "a = wk_address kp" "a \<noteq> []"
    using Cons.prems(1) filed_address(3) [of a kp] by (auto simp: e filed_def)
  have "a \<notin> fst ` set (key_pairs p)" using Cons.prems(3) by (auto simp: e)
  then have stored: "store_key_pair kp p = p\<lparr>key_pairs := key_pairs p @ [(a, kp)],
      default_address := (if default_address p = [] then a else default_address p)\<rparr>"
    using a(2) by (simp add: store_key_pair_def Let_def alist_update_new)
  have "load_line (key_line e) (Some (d, p)) = Some (d, store_key_pair kp p)"
    using load_key_line [OF a(1)] Cons.prems(2) by (simp add: e)
  then show ?case
    using Cons.IH [of "store_key_pair kp p"] Cons.prems a(3) by (simp add: e stored)
qed simp

lemma load_bad_line:
  "l \<in> set ls \<Longrightarrow> (\<And>d p. load_line l (Some (d, p)) = None) \<Longrightarrow> fold load_line ls acc = None"
proof (induction ls arbitrary: acc)
  case (Cons x ls)
  have none: "fold load_line ls None = None" for ls by (induction ls) (simp_all add: load_line_def)
  show ?case
  proof (cases "x = l")
    case True
    then have "load_line x acc = None" using Cons.prems(2) by (cases acc) (auto simp: load_line_def)
    then show ?thesis by (simp add: none)
  next
    case False
    then show ?thesis using Cons by simp
  qed
qed simp

lemma parse_body:
  assumes "well_addressed w" "list_all filed (key_pairs w)"
  shows "parse_wallet (wallet_body w) =
    fold load_line (map key_line (key_pairs w)) (Some (default_address w, empty_wallet))"
proof -
  have "newline \<notin> set (default_address w)"
    using assms filed_addresses [of "key_pairs w" "default_address w"] lower_hex_clean(2)
    by (auto simp: well_addressed_def split: if_splits)
  then have "list_all (\<lambda>l. l \<noteq> [] \<and> newline \<notin> set l) ((''DEFAULT:'' @ default_address w) # map key_line (key_pairs w))"
    using assms(2) key_line_clean by (auto simp: list_all_iff)
  then show ?thesis
    unfolding parse_wallet_def wallet_body_def by (subst for_lines_file) (simp_all add: load_line_def)
qed

lemma saved:
  "wallet_saveToFile opened es password w = (True, Some file, es') \<Longrightarrow> decrypt file password = Some (wallet_body w)"
  using keystore.unseal_seal by (fastforce simp: wallet_saveToFile_def split: prod.splits if_splits)

lemma save_load_wallet:
  assumes "well_addressed w" "list_all filed (key_pairs w)" "list_all usable (key_pairs w)"
    and "wallet_saveToFile opened es password w = (True, Some file, es')"
  shows "wallet_loadFromFile (Some file) password d = (True, w)"
proof -
  have "parse_wallet (wallet_body w) = Some (default_address w, empty_wallet\<lparr>key_pairs := key_pairs w,
      default_address := (if key_pairs w \<noteq> [] then fst (hd (key_pairs w)) else [])\<rparr>)"
    using assms(1) parse_body [OF assms(1,2)] load_keys [OF assms(2,3), of empty_wallet "default_address w"]
    by (simp add: well_addressed_def empty_wallet_def)
  moreover have "default_address w = [] \<Longrightarrow> key_pairs w = []"
    using assms(1,2) filed_addresses [of "key_pairs w" "[]"] by (auto simp: well_addressed_def split: if_splits)
  ultimately show ?thesis
    using saved [OF assms(4)] assms(1) by (auto simp: wallet_loadFromFile_def well_addressed_def)
qed

lemma unusable_locks:
  assumes "well_addressed w" "list_all filed (key_pairs w)" "entry \<in> set (key_pairs w)" "\<not> usable entry"
    and "wallet_saveToFile opened es password w = (True, Some file, es')"
  shows "wallet_loadFromFile (Some file) password d = (False, d)"
proof -
  obtain a kp where e: "entry = (a, kp)" by fastforce
  have "load_line (key_line entry) (Some (x, p)) = None" for x p
    using assms(2-4) load_key_line [of a kp] by (auto simp: e list_all_iff)
  then have "fold load_line (map key_line (key_pairs w)) acc = None" for acc
    using assms(3) by (intro load_bad_line [of "key_line entry"]) simp_all
  then show ?thesis
    using saved [OF assms(5)] parse_body [OF assms(1,2)] by (simp add: wallet_loadFromFile_def)
qed

section \<open>The key 0\<close>

text \<open>\<open>importPrivateKey\<close> takes the number 0, whose public key is the point at infinity.\<close>

definition zero_key :: wallet_key where
  "zero_key = \<lparr>wk_private = zeros 32, wk_public = zeros 33, wk_address = deriveAddress (zeros 33)\<rparr>"

lemma import_zero: "importPrivateKey ''0'' w = (True, store_key_pair zero_key w)"
proof -
  have "bigint_of_string ''0'' 16 = Inr 0" by code_simp
  then have "keyPairFromPrivateKeyHex ''0'' = Inr (KeyPair 0 (pointAtInfinity secp_G))"
    by (simp add: keyPairFromPrivateKeyHex_def ec_mult_def)
  moreover have "key_bytes (KeyPair 0 (pointAtInfinity secp_G)) = Some zero_key"
    by (simp add: key_bytes_def KeyPair_def compressPublicKey_def pointAtInfinity_def padded_hex_negative ec_sizes
        hexToBytes_bytesToHex zeros_def zero_key_def Let_def)
  ultimately show ?thesis by (simp add: importPrivateKey_def)
qed

lemma alist_update_member: "(k, v) \<in> set (AList.update k v xs)"
  by (induction xs) auto

lemma zero_key_locks:
  assumes "own_step\<^sup>*\<^sup>* empty_wallet w" "importPrivateKey ''0'' w = (ok, w')"
    and "wallet_saveToFile opened es password w' = (True, Some file, es')"
  shows "ok \<and> wallet_loadFromFile (Some file) password d = (False, d)"
proof -
  have "own_step\<^sup>*\<^sup>* empty_wallet w'"
    using assms(1) own_step.import_private [OF assms(2)] by (rule rtranclp.rtrancl_into_rtrancl)
  then have ok: "well_addressed w'" "list_all filed (key_pairs w')" using own_reach_well_addressed by blast+
  have w': "ok" "w' = store_key_pair zero_key w" using assms(2) import_zero by simp_all
  then have "(wk_address zero_key, zero_key) \<in> set (key_pairs w')"
    by (simp add: store_key_pair_def Let_def alist_update_member)
  moreover have "\<not> usable (wk_address zero_key, zero_key)"
    by (simp add: usable_def zero_key_def zero_key_invalid)
  ultimately show ?thesis using unusable_locks [OF ok _ _ assms(3)] w'(1) by blast
qed

end
