(* ===== verification/Block.thy ===== *)
theory Block
  imports Utils Transaction
begin

text \<open>
  \<open>Block.cpp\<close> and \<open>Block.h\<close>: the block record, its constructors and mutators, the block
  hash, mining and validity.  A \<open>shared_ptr\<close> argument that may be null is an option.  Mining
  increments a 32-bit signed nonce; running past its maximum is undefined in C++ and is the result
  \<open>None\<close> here.  The lemmas characterise mining completely (the least nonce whose hash has
  the required zeros), show that a mined block passes the block's own validity test, and say how
  far the block hash commits to the block's content.
\<close>

section \<open>The record\<close>

record block =
  b_index :: int
  b_timestamp :: int
  b_transactions :: "transaction list"
  b_previous_hash :: string
  b_merkle_root :: string
  b_difficulty :: int
  b_nonce :: int
  b_hash :: string

definition tx_root :: "transaction list \<Rightarrow> string" where
  "tx_root txs = calculateMerkleRoot (map tx_hash txs)"

definition b_calculateMerkleRoot :: "block \<Rightarrow> block" where
  "b_calculateMerkleRoot b =
     (if b_transactions b = [] then b\<lparr>b_merkle_root := sha256 []\<rparr>
      else b\<lparr>b_merkle_root := calculateMerkleRoot (map tx_hash (b_transactions b))\<rparr>)"

definition new_block :: "int \<Rightarrow> string \<Rightarrow> int \<Rightarrow> int \<Rightarrow> block" where
  "new_block idx prev_hash block_difficulty block_timestamp =
     b_calculateMerkleRoot
       \<lparr>b_index = idx, b_timestamp = block_timestamp, b_transactions = [],
        b_previous_hash = prev_hash, b_merkle_root = [], b_difficulty = block_difficulty,
        b_nonce = 0, b_hash = []\<rparr>"

definition setMinedState :: "int \<Rightarrow> string \<Rightarrow> block \<Rightarrow> block" where
  "setMinedState mined_nonce mined_hash b = b\<lparr>b_nonce := mined_nonce, b_hash := mined_hash\<rparr>"

definition b_addTransaction :: "transaction option \<Rightarrow> block \<Rightarrow> bool \<times> block" where
  "b_addTransaction tx b =
     (case tx of
        None \<Rightarrow> (False, b)
      | Some t \<Rightarrow>
          if \<not> tx_valid t then (False, b)
          else (True, b_calculateMerkleRoot (b\<lparr>b_transactions := b_transactions b @ [t]\<rparr>)))"

definition setTransactions :: "transaction option list \<Rightarrow> block \<Rightarrow> block" where
  "setTransactions txs b =
     b_calculateMerkleRoot (b\<lparr>b_transactions := List.map_filter (\<lambda>x. x) txs\<rparr>)"

section \<open>Block hash and mining\<close>

definition block_data :: "block \<Rightarrow> string" where
  "block_data b =
     show_int (b_index b) @ show_int (b_timestamp b) @ b_previous_hash b @ b_merkle_root b
       @ show_int (b_difficulty b) @ show_int (b_nonce b)
       @ concat (map tx_hash (b_transactions b))"

definition block_hash :: "block \<Rightarrow> string" where
  "block_hash b = sha256 (block_data b)"

function mine_loop :: "block \<Rightarrow> block option" where
  "mine_loop b =
     (if b_nonce b \<ge> int32_max then None
      else
        let b1 = b\<lparr>b_nonce := b_nonce b + 1\<rparr>;
            b2 = b1\<lparr>b_hash := block_hash b1\<rparr>
        in if \<not> checkProofOfWork (b_hash b2) (b_difficulty b2) then mine_loop b2 else Some b2)"
  by pat_completeness auto
termination
  by (relation "measure (\<lambda>b. nat (int32_max - b_nonce b))") auto

declare mine_loop.simps [simp del]

definition mineBlock :: "block \<Rightarrow> block option" where
  "mineBlock b = mine_loop (b\<lparr>b_nonce := 0\<rparr>)"

section \<open>Validity\<close>

definition b_valid :: "block \<Rightarrow> bool" where
  "b_valid b =
     (if b_hash b \<noteq> block_hash b then False
      else if \<not> checkProofOfWork (b_hash b) (b_difficulty b) then False
      else if \<not> list_all tx_valid (b_transactions b) then False
      else
        let computed_root = calculateMerkleRoot (map tx_hash (b_transactions b))
        in if b_merkle_root b \<noteq> computed_root then False else True)"

definition isValidWithDifficulty :: "block \<Rightarrow> int \<Rightarrow> bool" where
  "isValidWithDifficulty b requiredDifficulty =
     (if b_difficulty b \<noteq> requiredDifficulty then False else b_valid b)"

definition isMined :: "block \<Rightarrow> int \<Rightarrow> bool" where
  "isMined b d = checkProofOfWork (b_hash b) d"

definition tx_line :: "nat \<Rightarrow> transaction \<Rightarrow> string" where
  "tx_line i t =
     ''    '' @ show_nat (i + 1) @ ''. From: '' @ sender t @ '' To: '' @ receiver t
       @ '' Amount: '' @ show_int (amount t) @ [CHR 0x0A]"

definition b_toString :: "block \<Rightarrow> string" where
  "b_toString b =
     ''Block '' @ show_int (b_index b) @ '' {'' @ [CHR 0x0A] @
     ''  Timestamp: '' @ show_int (b_timestamp b) @ [CHR 0x0A] @
     ''  Previous Hash: '' @ b_previous_hash b @ [CHR 0x0A] @
     ''  Merkle Root: '' @ b_merkle_root b @ [CHR 0x0A] @
     ''  Hash: '' @ b_hash b @ [CHR 0x0A] @
     ''  Nonce: '' @ show_int (b_nonce b) @ [CHR 0x0A] @
     ''  Transactions ('' @ show_nat (length (b_transactions b)) @ ''):'' @ [CHR 0x0A] @
     concat (map (\<lambda>(i, t). tx_line i t) (enumerate 0 (b_transactions b))) @
     ''}'' @ [CHR 0x0A]"

section \<open>The merkle root is always current\<close>

definition root_current :: "block \<Rightarrow> bool" where
  "root_current b \<longleftrightarrow> b_merkle_root b = tx_root (b_transactions b)"

lemma b_calculateMerkleRoot_eq:
  "b_calculateMerkleRoot b = b\<lparr>b_merkle_root := tx_root (b_transactions b)\<rparr>"
  by (simp add: b_calculateMerkleRoot_def tx_root_def calculateMerkleRoot_def)

lemma root_current_new [simp, intro]: "root_current (new_block i p d t)"
  by (simp add: root_current_def new_block_def b_calculateMerkleRoot_eq)

lemma root_current_set [simp, intro]: "root_current (setTransactions txs b)"
  by (simp add: root_current_def setTransactions_def b_calculateMerkleRoot_eq)

lemma root_current_add: "root_current b \<Longrightarrow> root_current (snd (b_addTransaction tx b))"
  by (simp add: root_current_def b_addTransaction_def b_calculateMerkleRoot_eq split: option.split)

lemma new_block_sel [simp]:
  "b_index (new_block i p d t) = i" "b_timestamp (new_block i p d t) = t"
  "b_transactions (new_block i p d t) = []" "b_previous_hash (new_block i p d t) = p"
  "b_difficulty (new_block i p d t) = d" "b_nonce (new_block i p d t) = 0"
  "b_hash (new_block i p d t) = []"
  by (simp_all add: new_block_def b_calculateMerkleRoot_eq)

lemma b_addTransaction_valid:
  "tx_valid t \<Longrightarrow> b_addTransaction (Some t) b =
     (True, b\<lparr>b_transactions := b_transactions b @ [t], b_merkle_root := tx_root (b_transactions b @ [t])\<rparr>)"
  by (simp add: b_addTransaction_def b_calculateMerkleRoot_eq)

lemma b_addTransaction_invalid: "\<not> tx_valid t \<Longrightarrow> b_addTransaction (Some t) b = (False, b)"
  by (simp add: b_addTransaction_def)

lemma b_valid_iff:
  "b_valid b \<longleftrightarrow> b_hash b = block_hash b \<and> checkProofOfWork (b_hash b) (b_difficulty b) \<and>
     list_all tx_valid (b_transactions b) \<and> root_current b"
  by (auto simp: b_valid_def Let_def root_current_def tx_root_def)

lemma isValidWithDifficulty_iff: "isValidWithDifficulty b d \<longleftrightarrow> b_difficulty b = d \<and> b_valid b"
  by (simp add: isValidWithDifficulty_def)

section \<open>Mining\<close>

text \<open>The nonces that satisfy the proof of work of a block.\<close>

definition works :: "block \<Rightarrow> int \<Rightarrow> bool" where
  "works b n \<longleftrightarrow> checkProofOfWork (block_hash (b\<lparr>b_nonce := n\<rparr>)) (b_difficulty b)"

definition mined_at :: "block \<Rightarrow> int \<Rightarrow> block" where
  "mined_at b n = b\<lparr>b_nonce := n, b_hash := block_hash (b\<lparr>b_nonce := n\<rparr>)\<rparr>"

lemma block_hash_ignores [simp]: "block_hash (b\<lparr>b_hash := h\<rparr>) = block_hash b"
  "block_hash (b\<lparr>b_nonce := n, b_hash := h\<rparr>) = block_hash (b\<lparr>b_nonce := n\<rparr>)"
  by (simp_all add: block_hash_def block_data_def)

lemma works_ignores [simp]: "works (b\<lparr>b_nonce := m\<rparr>) n = works b n"
  "works (b\<lparr>b_hash := h\<rparr>) n = works b n"
  by (simp_all add: works_def block_hash_def block_data_def)

lemma mined_at_ignores [simp]: "mined_at (b\<lparr>b_nonce := m\<rparr>) n = mined_at b n"
  "mined_at (b\<lparr>b_hash := h\<rparr>) n = mined_at b n"
  by (simp_all add: mined_at_def block_hash_def block_data_def)

lemma mine_loop_least:
  assumes "b_nonce b < n" "n \<le> int32_max" "works b n" "\<forall>m. b_nonce b < m \<and> m < n \<longrightarrow> \<not> works b m"
  shows "mine_loop b = Some (mined_at b n)"
  using assms
proof (induction b rule: mine_loop.induct)
  case (1 b)
  let ?m = "b_nonce b + 1"
  let ?b2 = "b\<lparr>b_nonce := ?m, b_hash := block_hash (b\<lparr>b_nonce := ?m\<rparr>)\<rparr>"
  show ?case
  proof (cases "n = ?m")
    case True
    then show ?thesis
      using 1 by (subst mine_loop.simps) (simp add: Let_def works_def mined_at_def)
  next
    case False
    then have nw: "\<not> works b ?m" using 1 by simp
    then have nw': "\<not> checkProofOfWork (block_hash (b\<lparr>b_nonce := ?m\<rparr>)) (b_difficulty b)"
      by (simp add: works_def)
    have "mine_loop ?b2 = Some (mined_at ?b2 n)"
      using 1 False nw' by (intro "1.IH") auto
    then show ?thesis
      using 1 nw' by (subst mine_loop.simps) (simp add: Let_def)
  qed
qed

lemma mine_loop_none:
  assumes "\<forall>m. b_nonce b < m \<and> m \<le> int32_max \<longrightarrow> \<not> works b m"
  shows "mine_loop b = None"
  using assms
proof (induction b rule: mine_loop.induct)
  case (1 b)
  show ?case
  proof (cases "b_nonce b \<ge> int32_max")
    case True
    then show ?thesis by (subst mine_loop.simps) simp
  next
    case False
    let ?m = "b_nonce b + 1"
    let ?b2 = "b\<lparr>b_nonce := ?m, b_hash := block_hash (b\<lparr>b_nonce := ?m\<rparr>)\<rparr>"
    have nw: "\<not> checkProofOfWork (block_hash (b\<lparr>b_nonce := ?m\<rparr>)) (b_difficulty b)"
      using 1 False by (auto simp: works_def)
    have "mine_loop ?b2 = None"
      using 1 False nw by (intro "1.IH") auto
    then show ?thesis
      using False nw by (subst mine_loop.simps) (simp add: Let_def)
  qed
qed

text \<open>The complete description of mining.\<close>

lemma mineBlock_least:
  "0 < n \<Longrightarrow> n \<le> int32_max \<Longrightarrow> works b n \<Longrightarrow> \<forall>m. 0 < m \<and> m < n \<longrightarrow> \<not> works b m \<Longrightarrow>
     mineBlock b = Some (mined_at b n)"
  using mine_loop_least [of "b\<lparr>b_nonce := 0\<rparr>" n] by (simp add: mineBlock_def)

lemma mineBlock_none:
  "\<forall>m. 0 < m \<and> m \<le> int32_max \<longrightarrow> \<not> works b m \<Longrightarrow> mineBlock b = None"
  using mine_loop_none [of "b\<lparr>b_nonce := 0\<rparr>"] by (simp add: mineBlock_def)

lemma least_int:
  assumes "0 < (n :: int)" "P n"
  shows "\<exists>k. 0 < k \<and> k \<le> n \<and> P k \<and> (\<forall>m. 0 < m \<and> m < k \<longrightarrow> \<not> P m)"
  using assms
proof (induction "nat n" arbitrary: n rule: less_induct)
  case less
  show ?case
  proof (cases "\<exists>m. 0 < m \<and> m < n \<and> P m")
    case True
    then obtain m where "0 < m" "m < n" "P m" by blast
    then show ?thesis using less(1) [of m] by force
  next
    case False
    then show ?thesis using less.prems by blast
  qed
qed

lemma mineBlock_Some_iff:
  "mineBlock b = Some b' \<longleftrightarrow>
     (\<exists>n. 0 < n \<and> n \<le> int32_max \<and> works b n \<and> (\<forall>m. 0 < m \<and> m < n \<longrightarrow> \<not> works b m) \<and> b' = mined_at b n)"
proof
  assume m: "mineBlock b = Some b'"
  then obtain n where n: "0 < n" "n \<le> int32_max" "works b n" using mineBlock_none by fastforce
  obtain k where "0 < k" "k \<le> n" "works b k" "\<forall>m. 0 < m \<and> m < k \<longrightarrow> \<not> works b m"
    using least_int [of n "works b"] n by blast
  then show "\<exists>n. 0 < n \<and> n \<le> int32_max \<and> works b n \<and> (\<forall>m. 0 < m \<and> m < n \<longrightarrow> \<not> works b m) \<and> b' = mined_at b n"
    using m n(2) mineBlock_least [of k b] by (intro exI [of _ k]) auto
qed (use mineBlock_least in blast)

lemma mineBlock_difficulty_zero: "b_difficulty b = 0 \<Longrightarrow> mineBlock b = Some (mined_at b 1)"
  by (rule mineBlock_least) (auto simp: works_def int_bounds)

lemma mined_at_sel [simp]:
  "b_index (mined_at b n) = b_index b" "b_timestamp (mined_at b n) = b_timestamp b"
  "b_transactions (mined_at b n) = b_transactions b"
  "b_previous_hash (mined_at b n) = b_previous_hash b"
  "b_merkle_root (mined_at b n) = b_merkle_root b"
  "b_difficulty (mined_at b n) = b_difficulty b" "b_nonce (mined_at b n) = n"
  by (simp_all add: mined_at_def)

lemma mined_at_valid:
  "works b n \<Longrightarrow> list_all tx_valid (b_transactions b) \<Longrightarrow> root_current b \<Longrightarrow> b_valid (mined_at b n)"
  by (simp add: b_valid_iff works_def root_current_def) (simp add: mined_at_def)

lemma mineBlock_valid:
  assumes "mineBlock b = Some b'" "list_all tx_valid (b_transactions b)" "root_current b"
  shows "b_valid b'"
  using assms by (auto simp: mineBlock_Some_iff intro: mined_at_valid)

lemma mineBlock_content:
  assumes "mineBlock b = Some b'"
  shows "b_index b' = b_index b" "b_timestamp b' = b_timestamp b"
    "b_transactions b' = b_transactions b" "b_previous_hash b' = b_previous_hash b"
    "b_merkle_root b' = b_merkle_root b" "b_difficulty b' = b_difficulty b"
  using assms by (auto simp: mineBlock_Some_iff)

section \<open>What the block hash commits to\<close>

text \<open>
  The pre-image concatenates its fields without separators.  With the same index and timestamp and
  previous hashes of the same length, the hash still fixes the previous hash, the merkle root and
  with it the list of transaction hashes, unless a SHA-256 collision is exhibited.
\<close>

definition hashed_inputs :: "block \<Rightarrow> byte list list" where
  "hashed_inputs b = bytes_of_string (block_data b) # merkle_inputs (map tx_hash (b_transactions b))"

lemma sha256_inject_or_collides:
  "sha256 s = sha256 t \<Longrightarrow> s = t \<or> collides hashRaw [bytes_of_string s] [bytes_of_string t]"
  by (auto simp: sha256_def hash_string_def hash_bytes_hex collides_def)

lemma block_hash_commits:
  assumes "block_hash a = block_hash b" "root_current a" "root_current b"
    and "b_index a = b_index b" "b_timestamp a = b_timestamp b"
    and "length (b_previous_hash a) = length (b_previous_hash b)"
  shows "collides hashRaw (hashed_inputs a) (hashed_inputs b) \<or>
     b_previous_hash a = b_previous_hash b \<and>
     map tx_hash (b_transactions a) = map tx_hash (b_transactions b)"
proof (cases "block_data a = block_data b")
  case False
  then have "collides hashRaw [bytes_of_string (block_data a)] [bytes_of_string (block_data b)]"
    using assms(1) sha256_inject_or_collides unfolding block_hash_def by blast
  then have "collides hashRaw (hashed_inputs a) (hashed_inputs b)"
    by (rule collides_mono) (auto simp: hashed_inputs_def)
  then show ?thesis ..
next
  case True
  then have "b_previous_hash a @ b_merkle_root a = b_previous_hash b @ b_merkle_root b"
    using assms(2-6) by (simp add: block_data_def root_current_def tx_root_def append_eq_append_conv)
  then have p: "b_previous_hash a = b_previous_hash b" and m: "b_merkle_root a = b_merkle_root b"
    using assms(6) by (auto simp: append_eq_append_conv)
  from m have "map tx_hash (b_transactions a) = map tx_hash (b_transactions b) \<or>
      collides hashRaw (merkle_inputs (map tx_hash (b_transactions a)))
        (merkle_inputs (map tx_hash (b_transactions b)))"
    using assms(2,3) by (intro merkle_root_binding) (simp add: root_current_def tx_root_def)
  then show ?thesis
    using p by (auto simp: hashed_inputs_def intro: collides_mono)
qed

text \<open>Without equal index and timestamp the pre-image is ambiguous.\<close>

lemma block_data_ambiguous:
  "block_data (b\<lparr>b_index := 1, b_timestamp := 23\<rparr>) = block_data (b\<lparr>b_index := 12, b_timestamp := 3\<rparr>)"
proof -
  have "show_int 1 @ show_int 23 = show_int 12 @ show_int 3"
    by (simp add: show_int_def show_nat.simps digit_char_def)
  then show ?thesis by (simp add: block_data_def flip: append_assoc)
qed

end
