(* ===== verification/Blockchain.thy ===== *)
theory Blockchain
  imports Block
begin

text \<open>
  \<open>Blockchain.cpp\<close> and \<open>Blockchain.h\<close>: the ledger's state and every operation of the
  class except the file format (theory \<open>Chain_File\<close>).  Each public method holds the class's
  recursive mutex for its whole duration, so an execution of several threads is an interleaving of
  whole operations, and the model has one function per operation.

  Where the C++ would be undefined (reading past the end of the chain, a nonce that overflows) the
  result is \<open>None\<close>; signed sums and differences of amounts and heights are reduced to
  their width.  The clock and the fresh nonce of a reward transaction are arguments.
\<close>

section \<open>State\<close>

definition DIFFICULTY_ADJUSTMENT_INTERVAL :: int where "DIFFICULTY_ADJUSTMENT_INTERVAL = 10"
definition TARGET_BLOCK_TIME :: int where "TARGET_BLOCK_TIME = 30"
definition INITIAL_DIFFICULTY :: int where "INITIAL_DIFFICULTY = 2"
definition INITIAL_MINING_REWARD :: int where "INITIAL_MINING_REWARD = coins 50"

lemmas schedule_consts = DIFFICULTY_ADJUSTMENT_INTERVAL_def TARGET_BLOCK_TIME_def

type_synonym balance_map = "string \<rightharpoonup> int"

record blockchain =
  chain :: "block list"
  pending_transactions :: "transaction list"
  difficulty :: int
  mining_reward :: int
  balances :: balance_map

section \<open>Balances\<close>

definition balance_of :: "balance_map \<Rightarrow> string \<Rightarrow> int" where
  "balance_of m a = (case m a of Some v \<Rightarrow> v | None \<Rightarrow> 0)"

definition apply_transaction :: "transaction \<Rightarrow> balance_map \<Rightarrow> balance_map" where
  "apply_transaction t m =
     (let m1 = m(receiver t \<mapsto> to_int64 (balance_of m (receiver t) + amount t))
      in if sender t \<noteq> ''system''
         then m1(sender t \<mapsto> to_int64 (balance_of m1 (sender t) - amount t)) else m1)"

definition updateBalances :: "blockchain \<Rightarrow> blockchain" where
  "updateBalances c =
     c\<lparr>balances := fold (\<lambda>b m. fold apply_transaction (b_transactions b) m) (chain c) Map.empty\<rparr>"

definition getBalance :: "blockchain \<Rightarrow> string \<Rightarrow> int" where
  "getBalance c address =
     (case balances c address of Some v \<Rightarrow> v | None \<Rightarrow> 0)"

definition pendingOutflow :: "blockchain \<Rightarrow> string \<Rightarrow> int" where
  "pendingOutflow c address =
     fold (\<lambda>t outflow. if sender t = address then to_int64 (outflow + amount t) else outflow)
       (pending_transactions c) 0"

section \<open>Queries\<close>

definition getLatestBlock :: "blockchain \<Rightarrow> block option" where
  "getLatestBlock c = (if chain c = [] then None else Some (last (chain c)))"

definition chain_at :: "blockchain \<Rightarrow> int \<Rightarrow> block option" where
  "chain_at c i = (if 0 \<le> i \<and> i < int (length (chain c)) then Some (chain c ! nat i) else None)"

definition transactionExists :: "blockchain \<Rightarrow> transaction \<Rightarrow> bool" where
  "transactionExists c t =
     (let h = tx_hash t
      in if list_ex (\<lambda>b. list_ex (\<lambda>existing. tx_hash existing = h) (b_transactions b)) (chain c)
         then True
         else list_ex (\<lambda>p. tx_hash p = h) (pending_transactions c))"

definition calculateRequiredDifficultyAtHeight :: "blockchain \<Rightarrow> int \<Rightarrow> int option" where
  "calculateRequiredDifficultyAtHeight c height =
     (if height < DIFFICULTY_ADJUSTMENT_INTERVAL then Some (difficulty c)
      else case (chain_at c (height - DIFFICULTY_ADJUSTMENT_INTERVAL), chain_at c (height - 1)) of
             (Some interval_start, Some previous) \<Rightarrow>
               (let expected = TARGET_BLOCK_TIME * DIFFICULTY_ADJUSTMENT_INTERVAL;
                    actual = to_int64 (b_timestamp previous - b_timestamp interval_start);
                    current = b_difficulty previous
                in if actual < expected div 2 then Some (to_int32 (current + 1))
                   else if actual > expected * 2 then Some (max 1 (to_int32 (current - 1)))
                   else Some current)
           | _ \<Rightarrow> None)"

definition chain_height :: "blockchain \<Rightarrow> int" where
  "chain_height c = to_int32 (int (length (chain c)))"

definition calculateRequiredDifficulty :: "blockchain \<Rightarrow> int option" where
  "calculateRequiredDifficulty c = calculateRequiredDifficultyAtHeight c (chain_height c)"

definition validateBlockDifficulty :: "blockchain \<Rightarrow> block \<Rightarrow> bool option" where
  "validateBlockDifficulty c b =
     (case calculateRequiredDifficultyAtHeight c (b_index b) of
        None \<Rightarrow> None
      | Some required \<Rightarrow> Some (b_difficulty b = required))"

function valid_from :: "blockchain \<Rightarrow> nat \<Rightarrow> bool option" where
  "valid_from c i =
     (if i < length (chain c) then
        let currentBlock = chain c ! i; previousBlock = chain c ! (i - 1)
        in case calculateRequiredDifficultyAtHeight c (to_int32 (int i)) of
             None \<Rightarrow> None
           | Some requiredDifficulty \<Rightarrow>
               if \<not> isValidWithDifficulty currentBlock requiredDifficulty then Some False
               else if b_previous_hash currentBlock \<noteq> b_hash previousBlock then Some False
               else if b_timestamp currentBlock < b_timestamp previousBlock then Some False
               else valid_from c (i + 1)
      else Some True)"
  by pat_completeness auto
termination
  by (relation "measure (\<lambda>(c, i). length (chain c) - i)") auto

declare valid_from.simps [simp del]

definition isChainValid :: "blockchain \<Rightarrow> bool option" where
  "isChainValid c =
     (if length (chain c) < 1 then Some False
      else if \<not> isValidWithDifficulty (chain c ! 0) (difficulty c) then Some False
      else valid_from c 1)"

section \<open>Construction and mutation\<close>

definition createGenesisBlock :: "int \<Rightarrow> int \<Rightarrow> block option" where
  "createGenesisBlock now diff = mineBlock (new_block 0 ''0'' diff now)"

definition new_blockchain :: "int \<Rightarrow> int \<Rightarrow> int \<Rightarrow> blockchain option" where
  "new_blockchain now initial_difficulty initial_reward =
     (case createGenesisBlock now initial_difficulty of
        None \<Rightarrow> None
      | Some genesis \<Rightarrow>
          Some (updateBalances
            \<lparr>chain = [genesis], pending_transactions = [], difficulty = initial_difficulty,
             mining_reward = initial_reward, balances = Map.empty\<rparr>))"

definition default_blockchain :: "int \<Rightarrow> blockchain option" where
  "default_blockchain now = new_blockchain now INITIAL_DIFFICULTY INITIAL_MINING_REWARD"

definition setMiningReward :: "int \<Rightarrow> blockchain \<Rightarrow> blockchain" where
  "setMiningReward reward c = c\<lparr>mining_reward := reward\<rparr>"

definition bc_addTransaction :: "transaction \<Rightarrow> blockchain \<Rightarrow> blockchain" where
  "bc_addTransaction t c =
     (if \<not> tx_valid t then c
      else if transactionExists c t then c
      else if sender t \<noteq> ''system'' \<and>
              to_int64 (getBalance c (sender t) - pendingOutflow c (sender t)) < amount t then c
      else c\<lparr>pending_transactions := pending_transactions c @ [t]\<rparr>)"

text \<open>
  \<open>minePendingTransactions\<close>: \<open>now\<close> is the clock when the block is created,
  \<open>now_tx\<close> and \<open>fresh\<close> the timestamp and nonce the reward transaction is given.
\<close>

definition block_template :: "int \<Rightarrow> blockchain \<Rightarrow> block \<Rightarrow> int \<Rightarrow> block" where
  "block_template now c tip required_difficulty =
     fold (\<lambda>t b. snd (b_addTransaction (Some t) b)) (pending_transactions c)
       (new_block (chain_height c) (b_hash tip) required_difficulty now)"

definition minePendingTransactions ::
  "int \<Rightarrow> int \<Rightarrow> u64 \<Rightarrow> string \<Rightarrow> blockchain \<Rightarrow> blockchain option" where
  "minePendingTransactions now now_tx fresh reward_address c =
     (case (calculateRequiredDifficulty c, getLatestBlock c) of
        (Some required_difficulty, Some tip) \<Rightarrow>
          (let template = block_template now c tip required_difficulty;
               reward_tx = new_transaction now_tx fresh ''system'' reward_address (mining_reward c)
           in case b_addTransaction (Some reward_tx) template of
                (False, _) \<Rightarrow> Some c
              | (True, filled) \<Rightarrow>
                  (case mineBlock filled of
                     None \<Rightarrow> None
                   | Some mined \<Rightarrow>
                       (case validateBlockDifficulty c mined of
                          None \<Rightarrow> None
                        | Some ok \<Rightarrow>
                            if \<not> ok then Some c
                            else Some (updateBalances
                              (c\<lparr>chain := chain c @ [mined], pending_transactions := []\<rparr>)))))
      | _ \<Rightarrow> None)"

text \<open>The two scans of a received block's transactions, in the code's order.\<close>

definition replayed :: "blockchain \<Rightarrow> block \<Rightarrow> bool" where
  "replayed c b = list_ex (\<lambda>t. sender t \<noteq> ''system'' \<and> transactionExists c t) (b_transactions b)"

fun count_rewards :: "int \<Rightarrow> transaction list \<Rightarrow> int \<Rightarrow> int option" where
  "count_rewards reward [] n = Some n"
| "count_rewards reward (t # ts) n =
     (if sender t = ''system'' then
        if amount t \<noteq> reward then None else count_rewards reward ts (to_int32 (n + 1))
      else count_rewards reward ts n)"

definition drop_included :: "block \<Rightarrow> transaction list \<Rightarrow> transaction list" where
  "drop_included b pool =
     (if pool = [] then []
      else
        let included = map tx_hash (b_transactions b)
        in filter (\<lambda>t. \<not> List.member included (tx_hash t)) pool)"

definition addBlock :: "block option \<Rightarrow> blockchain \<Rightarrow> (bool \<times> blockchain) option" where
  "addBlock blk c =
     (case blk of
        None \<Rightarrow> Some (False, c)
      | Some b \<Rightarrow>
         (case getLatestBlock c of
            None \<Rightarrow> None
          | Some tip \<Rightarrow>
              if b_index b \<noteq> chain_height c then Some (False, c)
              else if b_previous_hash b \<noteq> b_hash tip then Some (False, c)
              else if b_timestamp b < b_timestamp tip then Some (False, c)
              else
                (case calculateRequiredDifficultyAtHeight c (b_index b) of
                   None \<Rightarrow> None
                 | Some required \<Rightarrow>
                     if \<not> isValidWithDifficulty b required then Some (False, c)
                     else if replayed c b then Some (False, c)
                     else
                       (case count_rewards (mining_reward c) (b_transactions b) 0 of
                          None \<Rightarrow> Some (False, c)
                        | Some system_tx_count \<Rightarrow>
                            if system_tx_count \<noteq> 1 then Some (False, c)
                            else Some (True, updateBalances
                              (c\<lparr>chain := chain c @ [b],
                                 pending_transactions := drop_included b (pending_transactions c)\<rparr>))))))"

section \<open>Printing\<close>

definition pool_line :: "nat \<Rightarrow> transaction \<Rightarrow> string" where
  "pool_line i t = show_nat (i + 1) @ ''. '' @ tx_toString t @ [CHR 0x0A]"

definition printChain :: "blockchain \<Rightarrow> string" where
  "printChain c =
     ''=== BLOCKCHAIN ==='' @ [CHR 0x0A] @
     ''Chain length: '' @ show_nat (length (chain c)) @ '' blocks'' @ [CHR 0x0A] @
     ''Difficulty: '' @ show_int (difficulty c) @ [CHR 0x0A] @
     ''Mining reward: '' @ format_amount (mining_reward c) @ [CHR 0x0A] @
     ''Pending transactions: '' @ show_nat (length (pending_transactions c)) @ [CHR 0x0A] @
     [CHR 0x0A] @
     concat (map (\<lambda>b. b_toString b @ [CHR 0x0A]) (chain c)) @
     (if pending_transactions c = [] then []
      else ''=== PENDING TRANSACTIONS ==='' @ [CHR 0x0A] @
        concat (map (\<lambda>(i, t). pool_line i t) (enumerate 0 (pending_transactions c))))"

end
