(* ===== verification/Chain_Rules.thy ===== *)
theory Chain_Rules
  imports Blockchain
begin

text \<open>
  The acceptance rules of the ledger.  The difficulty schedule reads only blocks below the height
  asked for, so it is defined on every height up to the chain's and does not change when blocks
  are appended; the validity scan is described by one condition per block; appending a block that
  meets that condition keeps the chain valid, and both ways of appending (\<open>addBlock\<close> and
  mining) meet it.
\<close>

section \<open>The difficulty schedule\<close>

lemma to_int32_le: "0 \<le> i \<Longrightarrow> to_int32 i \<le> i"
  by (auto simp: to_int32_def signed_take_bit_int_less_eq_self_iff)

lemma chain_height_le: "chain_height c \<le> int (length (chain c))"
  by (simp add: chain_height_def to_int32_le)

lemma chain_at_Some: "0 \<le> i \<Longrightarrow> i < int (length (chain c)) \<Longrightarrow> chain_at c i = Some (chain c ! nat i)"
  by (simp add: chain_at_def)

lemma required_defined:
  "h \<le> int (length (chain c)) \<Longrightarrow> \<exists>d. calculateRequiredDifficultyAtHeight c h = Some d"
  by (simp add: calculateRequiredDifficultyAtHeight_def chain_at_Some schedule_consts Let_def)

lemma required_extend:
  assumes "h \<le> int (length (chain c))" "\<exists>bs. chain c' = chain c @ bs" "difficulty c' = difficulty c"
  shows "calculateRequiredDifficultyAtHeight c' h = calculateRequiredDifficultyAtHeight c h"
proof (cases "h < DIFFICULTY_ADJUSTMENT_INTERVAL")
  case True
  then show ?thesis by (simp add: calculateRequiredDifficultyAtHeight_def assms(3))
next
  case False
  from assms(2) obtain bs where bs: "chain c' = chain c @ bs" by blast
  have "chain_at c' (h - 10) = chain_at c (h - 10)" "chain_at c' (h - 1) = chain_at c (h - 1)"
    using False assms(1) bs by (auto simp: chain_at_def nth_append schedule_consts nat_less_iff)
  then show ?thesis
    by (simp add: calculateRequiredDifficultyAtHeight_def assms(3) DIFFICULTY_ADJUSTMENT_INTERVAL_def)
qed

lemma required_cong:
  "chain c' = chain c \<Longrightarrow> difficulty c' = difficulty c \<Longrightarrow>
     calculateRequiredDifficultyAtHeight c' h = calculateRequiredDifficultyAtHeight c h"
  by (simp add: calculateRequiredDifficultyAtHeight_def chain_at_def)

text \<open>One step of the schedule: the new difficulty is within one of the previous block's.\<close>

lemma required_step:
  assumes "calculateRequiredDifficultyAtHeight c h = Some d" "10 \<le> h"
    "in_int32 (b_difficulty (chain c ! nat (h - 1)) - 1)" "in_int32 (b_difficulty (chain c ! nat (h - 1)) + 1)"
    "1 \<le> b_difficulty (chain c ! nat (h - 1))"
  shows "\<bar>d - b_difficulty (chain c ! nat (h - 1))\<bar> \<le> 1 \<and> 1 \<le> d"
  using assms
  by (auto simp: calculateRequiredDifficultyAtHeight_def chain_at_def schedule_consts Let_def
      narrow_simps max_def split: if_splits)

section \<open>The validity scan\<close>

definition link_ok :: "blockchain \<Rightarrow> nat \<Rightarrow> block \<Rightarrow> block \<Rightarrow> bool" where
  "link_ok c i previousBlock currentBlock \<longleftrightarrow>
     (case calculateRequiredDifficultyAtHeight c (to_int32 (int i)) of
        None \<Rightarrow> False | Some d \<Rightarrow> isValidWithDifficulty currentBlock d) \<and>
     b_previous_hash currentBlock = b_hash previousBlock \<and>
     b_timestamp previousBlock \<le> b_timestamp currentBlock"

definition chain_ok :: "blockchain \<Rightarrow> bool" where
  "chain_ok c \<longleftrightarrow>
     chain c \<noteq> [] \<and> isValidWithDifficulty (hd (chain c)) (difficulty c) \<and>
     (\<forall>i. 1 \<le> i \<and> i < length (chain c) \<longrightarrow> link_ok c i (chain c ! (i - 1)) (chain c ! i))"

lemma required_index_defined:
  "i \<le> length (chain c) \<Longrightarrow> \<exists>d. calculateRequiredDifficultyAtHeight c (to_int32 (int i)) = Some d"
  using to_int32_le [of "int i"] by (intro required_defined) linarith

lemma valid_from_iff:
  "valid_from c i = Some (\<forall>j. i \<le> j \<and> j < length (chain c) \<longrightarrow> link_ok c j (chain c ! (j - 1)) (chain c ! j))"
proof (induction c i rule: valid_from.induct)
  case (1 c i)
  let ?ok = "\<lambda>j. link_ok c j (chain c ! (j - 1)) (chain c ! j)"
  show ?case
  proof (cases "i < length (chain c)")
    case False
    then show ?thesis by (subst valid_from.simps) auto
  next
    case True
    obtain d where d: "calculateRequiredDifficultyAtHeight c (to_int32 (int i)) = Some d"
      using required_index_defined [of i c] True by auto
    show ?thesis
    proof (cases "?ok i")
      case False
      have "valid_from c i = Some False"
        using True False d by (subst valid_from.simps) (auto simp: Let_def link_ok_def)
      moreover have no: "\<not> (\<forall>j. i \<le> j \<and> j < length (chain c) \<longrightarrow> ?ok j)"
        using True False by blast
      ultimately show ?thesis by (simp only: no)
    next
      case ok: True
      then have "valid_from c i = valid_from c (i + 1)"
        using True d by (subst valid_from.simps) (auto simp: Let_def link_ok_def)
      also have "\<dots> = Some (\<forall>j. i + 1 \<le> j \<and> j < length (chain c) \<longrightarrow> ?ok j)"
        using "1.IH" [OF True refl refl d] ok d by (simp add: link_ok_def)
      also have "(\<forall>j. i + 1 \<le> j \<and> j < length (chain c) \<longrightarrow> ?ok j)
          \<longleftrightarrow> (\<forall>j. i \<le> j \<and> j < length (chain c) \<longrightarrow> ?ok j)"
        using all_from_step [of i "length (chain c)" ?ok] True ok by simp
      finally show ?thesis .
    qed
  qed
qed

lemma isChainValid_chain_ok: "isChainValid c = Some (chain_ok c)"
  by (cases "chain c") (auto simp: isChainValid_def chain_ok_def valid_from_iff)

lemma link_ok_extend:
  assumes "i \<le> length (chain c)" "\<exists>bs. chain c' = chain c @ bs" "difficulty c' = difficulty c"
  shows "link_ok c' i p b = link_ok c i p b"
proof -
  have "calculateRequiredDifficultyAtHeight c' (to_int32 (int i))
      = calculateRequiredDifficultyAtHeight c (to_int32 (int i))"
    using assms to_int32_le [of "int i"] by (intro required_extend) auto
  then show ?thesis by (simp add: link_ok_def)
qed

lemma chain_ok_cong: "chain c' = chain c \<Longrightarrow> difficulty c' = difficulty c \<Longrightarrow> chain_ok c' = chain_ok c"
  by (simp add: chain_ok_def link_ok_def required_cong [of c' c])

lemma chain_ok_nonempty: "chain_ok c \<Longrightarrow> chain c \<noteq> []"
  by (simp add: chain_ok_def)

text \<open>Appending one block.\<close>

lemma chain_ok_append:
  assumes "chain c \<noteq> []" "chain c' = chain c @ [b]" "difficulty c' = difficulty c"
  shows "chain_ok c' \<longleftrightarrow> chain_ok c \<and> link_ok c (length (chain c)) (last (chain c)) b"
proof -
  have link: "link_ok c' i p x = link_ok c i p x" if "i \<le> length (chain c)" for i p x
    using that assms by (intro link_ok_extend) auto
  have old: "chain c' ! i = chain c ! i" if "i < length (chain c)" for i
    using that assms(2) by (simp add: nth_append)
  have new: "chain c' ! length (chain c) = b" "chain c' ! (length (chain c) - 1) = last (chain c)"
    using assms(1,2) by (simp_all add: nth_append last_conv_nth)
  have "(\<forall>i. 1 \<le> i \<and> i < length (chain c') \<longrightarrow> link_ok c' i (chain c' ! (i - 1)) (chain c' ! i))
      \<longleftrightarrow> (\<forall>i. 1 \<le> i \<and> i < length (chain c) \<longrightarrow> link_ok c i (chain c ! (i - 1)) (chain c ! i))
         \<and> link_ok c (length (chain c)) (last (chain c)) b"
    (is "?L \<longleftrightarrow> ?R \<and> ?N")
  proof
    assume L: ?L
    have ?R using L assms(2) old link by (metis add.commute diff_le_self length_append length_append_singleton
          less_SucI order.strict_implies_order order_le_less_trans)
    moreover have ?N
      using L [rule_format, of "length (chain c)"] assms new link
      by (simp add: Suc_leI)
    ultimately show "?R \<and> ?N" ..
  next
    assume R: "?R \<and> ?N"
    show ?L
    proof (intro allI impI)
      fix i assume i: "1 \<le> i \<and> i < length (chain c')"
      show "link_ok c' i (chain c' ! (i - 1)) (chain c' ! i)"
      proof (cases "i = length (chain c)")
        case True
        then show ?thesis using R new link by simp
      next
        case False
        then have "i < length (chain c)" "i - 1 < length (chain c)" using i assms(2) by auto
        then show ?thesis using R i by (simp only: old link)
      qed
    qed
  qed
  then show ?thesis
    using assms by (auto simp: chain_ok_def)
qed

section \<open>updateBalances and the other fields\<close>

lemma updateBalances_sel [simp]:
  "chain (updateBalances c) = chain c" "pending_transactions (updateBalances c) = pending_transactions c"
  "difficulty (updateBalances c) = difficulty c" "mining_reward (updateBalances c) = mining_reward c"
  by (simp_all add: updateBalances_def)

section \<open>addBlock\<close>

text \<open>The conditions a block has to meet, in the terms of the rules above.\<close>

definition acceptable :: "blockchain \<Rightarrow> block \<Rightarrow> bool" where
  "acceptable c b \<longleftrightarrow>
     b_index b = chain_height c \<and> link_ok c (length (chain c)) (last (chain c)) b \<and>
     (\<forall>t \<in> set (b_transactions b). sender t \<noteq> ''system'' \<longrightarrow> \<not> transactionExists c t) \<and>
     count_rewards (mining_reward c) (b_transactions b) 0 = Some 1"

definition appended :: "block \<Rightarrow> blockchain \<Rightarrow> blockchain" where
  "appended b c =
     updateBalances (c\<lparr>chain := chain c @ [b],
       pending_transactions := filter (\<lambda>t. tx_hash t \<notin> tx_hash ` set (b_transactions b)) (pending_transactions c)\<rparr>)"

lemma drop_included_filter:
  "drop_included b pool = filter (\<lambda>t. tx_hash t \<notin> tx_hash ` set (b_transactions b)) pool"
  by (simp add: drop_included_def)

lemma addBlock_iff:
  assumes "chain c \<noteq> []"
  shows "addBlock (Some b) c = Some (if acceptable c b then (True, appended b c) else (False, c))"
proof -
  obtain d where d: "calculateRequiredDifficultyAtHeight c (chain_height c) = Some d"
    using required_index_defined [of "length (chain c)" c] by (auto simp: chain_height_def)
  have r: "replayed c b \<longleftrightarrow> \<not> (\<forall>t \<in> set (b_transactions b). sender t \<noteq> ''system'' \<longrightarrow> \<not> transactionExists c t)"
    by (auto simp: replayed_def list_ex_iff)
  show ?thesis
    using assms d
    by (auto simp: addBlock_def getLatestBlock_def acceptable_def link_ok_def r chain_height_def
        appended_def drop_included_filter split: option.splits)
qed

lemma addBlock_None [simp]: "addBlock None c = Some (False, c)"
  by (simp add: addBlock_def)

lemma addBlock_empty: "chain c = [] \<Longrightarrow> addBlock (Some b) c = None"
  by (simp add: addBlock_def getLatestBlock_def)

lemma addBlock_reject: "addBlock blk c = Some (False, c') \<Longrightarrow> c' = c"
  by (cases blk; cases "chain c = []") (auto simp: addBlock_iff addBlock_empty split: if_splits)

lemma addBlock_accept:
  assumes "addBlock blk c = Some (True, c')"
  obtains b where "blk = Some b" "chain c \<noteq> []" "acceptable c b" "c' = appended b c"
  using assms
  by (cases blk; cases "chain c = []") (auto simp: addBlock_iff addBlock_empty split: if_splits)

lemma appended_sel [simp]:
  "chain (appended b c) = chain c @ [b]" "difficulty (appended b c) = difficulty c"
  "mining_reward (appended b c) = mining_reward c"
  "pending_transactions (appended b c)
     = filter (\<lambda>t. tx_hash t \<notin> tx_hash ` set (b_transactions b)) (pending_transactions c)"
  by (simp_all add: appended_def)

lemma addBlock_chain_ok:
  assumes "chain_ok c" "addBlock blk c = Some (r, c')"
  shows "chain_ok c'"
proof (cases r)
  case True
  with assms(2) obtain b where "acceptable c b" "c' = appended b c" "chain c \<noteq> []"
    by (auto elim: addBlock_accept)
  then show ?thesis using assms(1) chain_ok_append [of c c' b] by (simp add: acceptable_def)
next
  case False
  then show ?thesis using assms addBlock_reject by metis
qed

lemma count_rewards_system:
  "count_rewards r ts n = Some k \<Longrightarrow> \<forall>t \<in> set ts. sender t = ''system'' \<longrightarrow> amount t = r"
  by (induction r ts n rule: count_rewards.induct) (auto split: if_splits)

lemma count_rewards_exact:
  assumes "0 \<le> n" "n + int (length ts) \<le> int32_max"
  shows "count_rewards r ts n =
    (if \<forall>t \<in> set ts. sender t = ''system'' \<longrightarrow> amount t = r
     then Some (n + int (length (filter (\<lambda>t. sender t = ''system'') ts))) else None)"
  using assms
proof (induction r ts n rule: count_rewards.induct)
  case (1 r n)
  then show ?case by simp
next
  case (2 r t ts n)
  have "to_int32 (n + 1) = n + 1"
    using "2.prems" by (intro to_int32_id) (auto simp: in_int32_def int_bounds)
  with 2 show ?case by auto
qed

text \<open>An accepted block has exactly one system transaction, of exactly the expected amount.\<close>

lemma acceptable_reward:
  assumes "acceptable c b" "int (length (b_transactions b)) \<le> int32_max"
  obtains t where "filter (\<lambda>t. sender t = ''system'') (b_transactions b) = [t]" "amount t = mining_reward c"
proof -
  let ?sys = "filter (\<lambda>t. sender t = ''system'') (b_transactions b)"
  have "(\<forall>t \<in> set (b_transactions b). sender t = ''system'' \<longrightarrow> amount t = mining_reward c) \<and> length ?sys = 1"
    using assms by (auto simp: acceptable_def count_rewards_exact split: if_splits)
  moreover from this obtain t where "?sys = [t]" by (auto simp: length_Suc_conv)
  moreover from this have "t \<in> set (b_transactions b) \<and> sender t = ''system''"
    by (auto dest: Cons_eq_filterD [OF sym])
  ultimately show ?thesis using that by blast
qed

end
