(* ===== verification/Mining.thy ===== *)
theory Mining
  imports Chain_Rules
begin

text \<open>
  Mining on the ledger and the pool of pending transactions.  A mined block holds the valid pool
  transactions in their order followed by the reward; it meets the acceptance rules of any replica
  with the same chain and settings (under the conditions on pools stated there), and appending it
  keeps the chain valid when the clock has not run backwards.  The pool never holds an invalid
  transaction, a duplicate, or a transaction already mined.
\<close>

section \<open>The mined block\<close>

lemma fold_addTransaction:
  "root_current b \<Longrightarrow> fold (\<lambda>t b. snd (b_addTransaction (Some t) b)) ts b =
     b\<lparr>b_transactions := b_transactions b @ filter tx_valid ts,
       b_merkle_root := tx_root (b_transactions b @ filter tx_valid ts)\<rparr>"
proof (induction ts arbitrary: b)
  case Nil
  then show ?case by (simp add: root_current_def)
next
  case (Cons t ts)
  show ?case
  proof (cases "tx_valid t")
    case True
    then show ?thesis
      using Cons by (simp add: b_addTransaction_valid root_current_def)
  next
    case False
    then show ?thesis using Cons by (simp add: b_addTransaction_invalid)
  qed
qed

definition reward_tx :: "int \<Rightarrow> u64 \<Rightarrow> string \<Rightarrow> blockchain \<Rightarrow> transaction" where
  "reward_tx now_tx fresh addr c = new_transaction now_tx fresh ''system'' addr (mining_reward c)"

definition unmined :: "int \<Rightarrow> blockchain \<Rightarrow> int \<Rightarrow> transaction \<Rightarrow> block" where
  "unmined now c d reward =
     (let txs = filter tx_valid (pending_transactions c) @ [reward]
      in \<lparr>b_index = chain_height c, b_timestamp = now, b_transactions = txs,
          b_previous_hash = b_hash (last (chain c)), b_merkle_root = tx_root txs,
          b_difficulty = d, b_nonce = 0, b_hash = []\<rparr>)"

definition after_mining :: "block \<Rightarrow> blockchain \<Rightarrow> blockchain" where
  "after_mining b c = updateBalances (c\<lparr>chain := chain c @ [b], pending_transactions := []\<rparr>)"

lemma after_mining_sel [simp]:
  "chain (after_mining b c) = chain c @ [b]" "pending_transactions (after_mining b c) = []"
  "difficulty (after_mining b c) = difficulty c" "mining_reward (after_mining b c) = mining_reward c"
  by (simp_all add: after_mining_def)

lemma reward_valid_iff:
  "tx_valid (reward_tx now_tx fresh addr c) \<longleftrightarrow>
     addr \<noteq> [] \<and> addr \<noteq> ''system'' \<and> isValidAmount (mining_reward c)"
  by (simp add: reward_tx_def new_transaction_def tx_valid_system)

lemma reward_tx_sel [simp]:
  "sender (reward_tx now_tx fresh addr c) = ''system''" "receiver (reward_tx now_tx fresh addr c) = addr"
  "amount (reward_tx now_tx fresh addr c) = mining_reward c"
  by (simp_all add: reward_tx_def new_transaction_def)

lemma mine_eq:
  assumes "chain c \<noteq> []" "calculateRequiredDifficulty c = Some d"
  shows "minePendingTransactions now now_tx fresh addr c =
    (if \<not> tx_valid (reward_tx now_tx fresh addr c) then Some c
     else map_option (\<lambda>b. after_mining b c) (mineBlock (unmined now c d (reward_tx now_tx fresh addr c))))"
proof -
  let ?r = "reward_tx now_tx fresh addr c"
  have tmpl: "block_template now c (last (chain c)) d =
      (new_block (chain_height c) (b_hash (last (chain c))) d now)
        \<lparr>b_transactions := filter tx_valid (pending_transactions c),
         b_merkle_root := tx_root (filter tx_valid (pending_transactions c))\<rparr>"
    by (simp add: block_template_def fold_addTransaction)
  have filled: "b_addTransaction (Some ?r) (block_template now c (last (chain c)) d)
      = (if tx_valid ?r then (True, unmined now c d ?r) else (False, block_template now c (last (chain c)) d))"
    by (simp add: tmpl b_addTransaction_valid b_addTransaction_invalid unmined_def Let_def
        new_block_def b_calculateMerkleRoot_eq)
  have ok: "validateBlockDifficulty c m = Some True" if "mineBlock (unmined now c d ?r) = Some m" for m
    using mineBlock_content [OF that] assms(2)
    by (simp add: validateBlockDifficulty_def calculateRequiredDifficulty_def unmined_def Let_def)
  show ?thesis
    using assms filled ok
    by (simp add: minePendingTransactions_def getLatestBlock_def reward_tx_def [symmetric]
        after_mining_def Let_def split: option.split)
qed

lemma required_now: "\<exists>d. calculateRequiredDifficulty c = Some d"
  using required_index_defined [of "length (chain c)" c]
  by (simp add: calculateRequiredDifficulty_def chain_height_def)

text \<open>What a block mined on a chain looks like.\<close>

definition mined_on :: "int \<Rightarrow> blockchain \<Rightarrow> transaction \<Rightarrow> block \<Rightarrow> bool" where
  "mined_on now c reward b \<longleftrightarrow>
     b_valid b \<and> b_index b = chain_height c \<and> b_timestamp b = now \<and>
     b_previous_hash b = b_hash (last (chain c)) \<and>
     calculateRequiredDifficulty c = Some (b_difficulty b) \<and>
     b_transactions b = filter tx_valid (pending_transactions c) @ [reward]"

lemma mine_cases:
  assumes "chain c \<noteq> []" "minePendingTransactions now now_tx fresh addr c = Some c'"
  obtains "\<not> tx_valid (reward_tx now_tx fresh addr c)" "c' = c"
  | b where "tx_valid (reward_tx now_tx fresh addr c)" "mined_on now c (reward_tx now_tx fresh addr c) b"
      "c' = after_mining b c"
proof -
  let ?r = "reward_tx now_tx fresh addr c"
  obtain d where d: "calculateRequiredDifficulty c = Some d" using required_now by blast
  show ?thesis
  proof (cases "tx_valid ?r")
    case False
    have "c' = c" using assms(2) False by (simp only: mine_eq [OF assms(1) d]) simp
    with False show ?thesis by (rule that(1))
  next
    case True
    then have "map_option (\<lambda>b. after_mining b c) (mineBlock (unmined now c d ?r)) = Some c'"
      using assms(2) by (simp only: mine_eq [OF assms(1) d]) simp
    then obtain b where b: "mineBlock (unmined now c d ?r) = Some b" "c' = after_mining b c"
      by auto
    have "b_valid b"
      using b(1) by (rule mineBlock_valid) (auto simp: unmined_def Let_def root_current_def True list_all_iff)
    then have "mined_on now c ?r b"
      using mineBlock_content [OF b(1)] d by (simp add: mined_on_def unmined_def Let_def)
    then show ?thesis using True b(2) that(2) by blast
  qed
qed

lemma mined_on_link:
  assumes "mined_on now c reward b"
  shows "link_ok c (length (chain c)) (last (chain c)) b \<longleftrightarrow> b_timestamp (last (chain c)) \<le> now"
  using assms
  by (auto simp: mined_on_def link_ok_def calculateRequiredDifficulty_def chain_height_def
      isValidWithDifficulty_iff)

lemma mine_chain_ok:
  assumes "chain_ok c" "b_timestamp (last (chain c)) \<le> now"
    and "minePendingTransactions now now_tx fresh addr c = Some c'"
  shows "chain_ok c'"
  using chain_ok_nonempty [OF assms(1)] assms(3)
proof (cases rule: mine_cases)
  case 1
  then show ?thesis using assms(1) by simp
next
  case (2 b)
  then show ?thesis
    using assms chain_ok_append [of c c' b] chain_ok_nonempty [OF assms(1)] by (simp add: mined_on_link)
qed

text \<open>A clock behind the tip's timestamp makes the mined chain invalid.\<close>

lemma mine_clock_behind:
  assumes "chain c \<noteq> []" "now < b_timestamp (last (chain c))"
    and "minePendingTransactions now now_tx fresh addr c = Some c'" "c' \<noteq> c"
  shows "\<not> chain_ok c'"
  using assms(1,3)
proof (cases rule: mine_cases)
  case 1
  then show ?thesis using assms(4) by simp
next
  case (2 b)
  then show ?thesis
    using assms chain_ok_append [of c c' b] by (simp add: mined_on_link)
qed

section \<open>The pool\<close>

definition chain_txs :: "blockchain \<Rightarrow> transaction list" where
  "chain_txs c = concat (map b_transactions (chain c))"

definition pool_ok :: "blockchain \<Rightarrow> bool" where
  "pool_ok c \<longleftrightarrow>
     list_all tx_valid (pending_transactions c) \<and> distinct (map tx_hash (pending_transactions c)) \<and>
     tx_hash ` set (pending_transactions c) \<inter> tx_hash ` set (chain_txs c) = {}"

lemma list_ex_hash: "list_ex (\<lambda>p. tx_hash p = h) ps \<longleftrightarrow> h \<in> tx_hash ` set ps"
  by (auto simp: list_ex_iff)

lemma transactionExists_iff:
  "transactionExists c t \<longleftrightarrow>
     tx_hash t \<in> tx_hash ` set (chain_txs c) \<or> tx_hash t \<in> tx_hash ` set (pending_transactions c)"
proof -
  have "list_ex (\<lambda>b. list_ex (\<lambda>p. tx_hash p = h) (b_transactions b)) bs
      \<longleftrightarrow> h \<in> tx_hash ` set (concat (map b_transactions bs))" for h bs
    unfolding list_ex_hash by (induction bs) auto
  from this [of "tx_hash t" "chain c"] show ?thesis
    unfolding transactionExists_def Let_def list_ex_hash chain_txs_def by simp
qed

lemma chain_txs_appended [simp]:
  "chain_txs (appended b c) = chain_txs c @ b_transactions b"
  "chain_txs (after_mining b c) = chain_txs c @ b_transactions b"
  "chain_txs (bc_addTransaction t c) = chain_txs c"
  by (simp_all add: chain_txs_def bc_addTransaction_def)

lemma addTransaction_cases:
  obtains "bc_addTransaction t c = c"
  | "tx_valid t" "\<not> transactionExists c t"
    "sender t \<noteq> ''system'' \<Longrightarrow>
       amount t \<le> to_int64 (getBalance c (sender t) - pendingOutflow c (sender t))"
    "bc_addTransaction t c = c\<lparr>pending_transactions := pending_transactions c @ [t]\<rparr>"
proof -
  let ?poor = "to_int64 (getBalance c (sender t) - pendingOutflow c (sender t)) < amount t"
  show thesis
  proof (cases "\<not> tx_valid t \<or> transactionExists c t \<or> sender t \<noteq> ''system'' \<and> ?poor")
    case True
    then have "bc_addTransaction t c = c" unfolding bc_addTransaction_def by metis
    then show thesis by (rule that(1))
  next
    case False
    then show thesis by (intro that(2)) (auto simp: bc_addTransaction_def not_less)
  qed
qed

lemma addTransaction_sel [simp]:
  "chain (bc_addTransaction t c) = chain c" "difficulty (bc_addTransaction t c) = difficulty c"
  "mining_reward (bc_addTransaction t c) = mining_reward c" "balances (bc_addTransaction t c) = balances c"
  by (simp_all add: bc_addTransaction_def)

lemma addTransaction_pool_ok: "pool_ok c \<Longrightarrow> pool_ok (bc_addTransaction t c)"
  by (rule addTransaction_cases [of t c]) (auto simp: pool_ok_def transactionExists_iff chain_txs_def)

lemma addBlock_pool_ok:
  assumes "pool_ok c" "addBlock blk c = Some (r, c')"
  shows "pool_ok c'"
proof (cases r)
  case True
  with assms(2) obtain b where b: "c' = appended b c" by (auto elim: addBlock_accept)
  have "distinct (map f (filter P xs))" if "distinct (map f xs)" for f :: "transaction \<Rightarrow> string" and P xs
    using that by (induction xs) auto
  then have "distinct (map tx_hash (pending_transactions c'))"
    using assms(1) b by (simp add: pool_ok_def)
  then show ?thesis using assms(1) b unfolding pool_ok_def list_all_iff by auto
next
  case False
  then show ?thesis using assms addBlock_reject by metis
qed

lemma mine_pool_ok:
  assumes "chain c \<noteq> []" "pool_ok c" "minePendingTransactions now now_tx fresh addr c = Some c'"
  shows "pool_ok c'"
  using assms(1,3) by (cases rule: mine_cases) (use assms(2) in \<open>simp_all add: pool_ok_def\<close>)

section \<open>Replicas\<close>

text \<open>Another node's ledger with the same chain and settings.\<close>

definition same_ledger :: "blockchain \<Rightarrow> blockchain \<Rightarrow> bool" where
  "same_ledger c r \<longleftrightarrow>
     chain r = chain c \<and> difficulty r = difficulty c \<and> mining_reward r = mining_reward c"

definition no_system :: "transaction list \<Rightarrow> bool" where
  "no_system ts \<longleftrightarrow> list_all (\<lambda>t. sender t \<noteq> ''system'') ts"

lemma filter_valid_pool: "pool_ok c \<Longrightarrow> filter tx_valid (pending_transactions c) = pending_transactions c"
  by (simp add: pool_ok_def list_all_iff)

lemma link_ok_cong:
  "chain r = chain c \<Longrightarrow> difficulty r = difficulty c \<Longrightarrow> link_ok r i p b = link_ok c i p b"
  by (simp add: link_ok_def required_cong [of r c])

lemma count_rewards_no_system:
  "no_system ts \<Longrightarrow> count_rewards r (ts @ us) n = count_rewards r us n"
  by (induction ts) (auto simp: no_system_def)

lemma mined_acceptable:
  assumes "same_ledger c r" "pool_ok c" "no_system (pending_transactions c)"
    and "b_timestamp (last (chain c)) \<le> now"
    and "tx_hash ` set (pending_transactions c) \<inter> tx_hash ` set (pending_transactions r) = {}"
    and "mined_on now c (reward_tx now_tx fresh addr c) b"
  shows "acceptable r b"
proof -
  have same: "chain r = chain c" "difficulty r = difficulty c" "mining_reward r = mining_reward c"
    using assms(1) by (simp_all add: same_ledger_def)
  have txs: "b_transactions b = pending_transactions c @ [reward_tx now_tx fresh addr c]"
    using assms(2,6) by (simp add: mined_on_def filter_valid_pool)
  have "link_ok r (length (chain r)) (last (chain r)) b"
    using assms(4,6) by (simp add: same link_ok_cong [of r c] mined_on_link)
  moreover have "b_index b = chain_height r"
    using assms(6) by (simp add: mined_on_def chain_height_def same)
  moreover have "\<not> transactionExists r t" if "t \<in> set (pending_transactions c)" for t
  proof -
    have "chain_txs r = chain_txs c" by (simp add: chain_txs_def same)
    then show ?thesis
      using that assms(2,5) by (simp add: transactionExists_iff pool_ok_def) blast
  qed
  moreover have "count_rewards (mining_reward r) (b_transactions b) 0 = Some 1"
    using assms(3) by (simp add: txs count_rewards_no_system same to_int32_id in_int32_def int_bounds)
  ultimately show ?thesis by (auto simp: acceptable_def txs)
qed

lemma mined_block_replicates:
  assumes "chain c \<noteq> []" "same_ledger c r" "pool_ok c" "no_system (pending_transactions c)"
    and "b_timestamp (last (chain c)) \<le> now"
    and "tx_hash ` set (pending_transactions c) \<inter> tx_hash ` set (pending_transactions r) = {}"
    and "minePendingTransactions now now_tx fresh addr c = Some c'" "c' \<noteq> c"
  shows "\<exists>r'. addBlock (Some (last (chain c'))) r = Some (True, r') \<and>
    same_ledger c' r' \<and> balances r' = balances c' \<and> pending_transactions r' =
      filter (\<lambda>t. tx_hash t \<noteq> tx_hash (reward_tx now_tx fresh addr c)) (pending_transactions r)"
  using assms(1,7)
proof (cases rule: mine_cases)
  case 1
  then show ?thesis using assms(8) by simp
next
  case (2 b)
  have txs: "b_transactions b = pending_transactions c @ [reward_tx now_tx fresh addr c]"
    using assms(3) 2(2) by (simp add: mined_on_def filter_valid_pool)
  have "acceptable r b" using assms 2(2) by (intro mined_acceptable) auto
  moreover have "chain r = chain c" "chain r \<noteq> []" using assms(1,2) by (simp_all add: same_ledger_def)
  ultimately have "addBlock (Some b) r = Some (True, appended b r)"
    by (simp add: addBlock_iff)
  moreover have "balances (appended b r) = balances c'"
    using \<open>chain r = chain c\<close> by (simp add: 2(3) appended_def after_mining_def updateBalances_def)
  moreover have "filter (\<lambda>t. tx_hash t \<notin> tx_hash ` set (b_transactions b)) (pending_transactions r)
      = filter (\<lambda>t. tx_hash t \<noteq> tx_hash (reward_tx now_tx fresh addr c)) (pending_transactions r)"
    using assms(6) by (intro filter_cong) (auto simp: txs)
  ultimately show ?thesis
    using assms(2) by (simp add: 2(3) same_ledger_def)
qed

text \<open>
  Two blocks other nodes refuse although their miner appended them: one whose transaction is still
  in the receiver's own pool, and one built from a pool that held a system transaction.
\<close>

lemma addBlock_refuses_pooled:
  assumes "chain c \<noteq> []" "t \<in> set (b_transactions b)" "sender t \<noteq> ''system''"
    and "p \<in> set (pending_transactions c)" "tx_hash p = tx_hash t"
  shows "addBlock (Some b) c = Some (False, c)"
proof -
  have "transactionExists c t"
    using assms(4) assms(5) [symmetric] by (simp add: transactionExists_iff)
  then show ?thesis using assms(1-3) by (auto simp: addBlock_iff acceptable_def)
qed

lemma pooled_system_refused:
  assumes "chain r \<noteq> []" "s \<in> set (pending_transactions c)" "tx_valid s" "sender s = ''system''"
    and "mined_on now c (reward_tx now_tx fresh addr c) b" "int (length (b_transactions b)) \<le> int32_max"
  shows "addBlock (Some b) r = Some (False, r)"
proof -
  have "\<not> acceptable r b"
  proof
    assume "acceptable r b"
    then obtain t where "filter (\<lambda>t. sender t = ''system'') (b_transactions b) = [t]"
      using assms(6) by (auto elim: acceptable_reward)
    moreover have "filter (\<lambda>t. sender t = ''system'') (b_transactions b) =
        filter (\<lambda>t. sender t = ''system'') (filter tx_valid (pending_transactions c))
          @ [reward_tx now_tx fresh addr c]"
      using assms(5) by (simp add: mined_on_def)
    ultimately have "filter (\<lambda>t. sender t = ''system'') (filter tx_valid (pending_transactions c)) = []"
      by simp
    then show False using assms(2-4) by (auto simp: filter_empty_conv)
  qed
  then show ?thesis using assms(1) by (simp add: addBlock_iff)
qed

end
