(* ===== verification/Ledger.thy ===== *)
theory Ledger
  imports Mining
begin

text \<open>
  What the balance map means.  The specification is an exact ledger over unbounded integers: the
  net flow of an address over the transactions of the chain.  The code's map, rebuilt with 64-bit
  arithmetic after each append, is that ledger reduced to 64 bits; it is exact for a chain of at
  most 4392 valid transactions and for any chain without debts whose minted total fits.  The sum of
  all balances is what was minted, and an accepted block mints exactly the mining reward.
\<close>

section \<open>The exact ledger\<close>

definition credit :: "transaction \<Rightarrow> string \<Rightarrow> int" where
  "credit t a = (if receiver t = a then amount t else 0)"

definition debit :: "transaction \<Rightarrow> string \<Rightarrow> int" where
  "debit t a = (if sender t = a \<and> sender t \<noteq> ''system'' then amount t else 0)"

definition net :: "transaction list \<Rightarrow> string \<Rightarrow> int" where
  "net ts a = sum_list (map (\<lambda>t. credit t a - debit t a) ts)"

definition minted :: "transaction list \<Rightarrow> int" where
  "minted ts = sum_list (map (\<lambda>t. if sender t = ''system'' then amount t else 0) ts)"

definition outflow :: "transaction list \<Rightarrow> string \<Rightarrow> int" where
  "outflow ts a = sum_list (map (\<lambda>t. if sender t = a then amount t else 0) ts)"

lemma net_simps [simp]:
  "net [] a = 0" "net (t # ts) a = credit t a - debit t a + net ts a" "net (ts @ us) a = net ts a + net us a"
  by (simp_all add: net_def)

lemma minted_simps [simp]:
  "minted [] = 0" "minted (ts @ us) = minted ts + minted us"
  "minted (t # ts) = (if sender t = ''system'' then amount t else 0) + minted ts"
  by (simp_all add: minted_def)

lemma outflow_simps [simp]:
  "outflow [] a = 0" "outflow (ts @ us) a = outflow ts a + outflow us a"
  "outflow (t # ts) a = (if sender t = a then amount t else 0) + outflow ts a"
  by (simp_all add: outflow_def)

section \<open>The map is the exact ledger modulo 64 bits\<close>

lemma to_int64_add: "to_int64 (to_int64 x + y) = to_int64 (x + y)"
  unfolding to_int64_def by (metis min.idem signed_take_bit_add signed_take_bit_signed_take_bit)

lemma to_int64_diff: "to_int64 (to_int64 x - y) = to_int64 (x - y)"
  using to_int64_add [of x "- y"] by simp

lemma to_int64_add_right: "to_int64 (y + to_int64 x) = to_int64 (y + x)"
  using to_int64_add [of x y] by (simp add: add.commute)

lemmas to_int64_arith = to_int64_add to_int64_add_right to_int64_diff algebra_simps

lemma to_int64_idem [simp]: "to_int64 (to_int64 x) = to_int64 x"
  using to_int64_add [of x 0] by simp

lemma balance_of_upd [simp]: "balance_of (m(k \<mapsto> v)) a = (if a = k then v else balance_of m a)"
  by (simp add: balance_of_def)

lemma getBalance_balance_of: "getBalance c a = balance_of (balances c) a"
  by (simp add: getBalance_def balance_of_def)

definition narrow_map :: "balance_map \<Rightarrow> bool" where
  "narrow_map m \<longleftrightarrow> (\<forall>a. to_int64 (balance_of m a) = balance_of m a)"

lemma apply_transaction_balance:
  assumes "narrow_map m"
  shows "balance_of (apply_transaction t m) a = to_int64 (balance_of m a + (credit t a - debit t a))"
  using assms
  by (auto simp: apply_transaction_def Let_def credit_def debit_def narrow_map_def to_int64_diff)

lemma apply_transaction_narrow: "narrow_map m \<Longrightarrow> narrow_map (apply_transaction t m)"
  by (simp add: narrow_map_def [of "apply_transaction t m"] apply_transaction_balance)

lemma fold_apply_balance:
  "narrow_map m \<Longrightarrow> balance_of (fold apply_transaction ts m) a = to_int64 (balance_of m a + net ts a)"
proof (induction ts arbitrary: m)
  case Nil
  then show ?case by (simp add: narrow_map_def)
next
  case (Cons t ts)
  then show ?case
    by (simp add: apply_transaction_narrow apply_transaction_balance to_int64_arith)
qed

lemma fold_blocks:
  "fold (\<lambda>b m. fold apply_transaction (b_transactions b) m) bs m
     = fold apply_transaction (concat (map b_transactions bs)) m"
  by (induction bs arbitrary: m) simp_all

definition balances_current :: "blockchain \<Rightarrow> bool" where
  "balances_current c \<longleftrightarrow> c = updateBalances c"

lemma balances_current_update [simp]: "balances_current (updateBalances c)"
  by (simp add: balances_current_def updateBalances_def)

lemma getBalance_updated: "getBalance (updateBalances c) a = to_int64 (net (chain_txs c) a)"
  using fold_apply_balance [of Map.empty "chain_txs c" a]
  by (simp add: getBalance_balance_of updateBalances_def fold_blocks chain_txs_def narrow_map_def
      balance_of_def to_int64_id in_int64_def int_bounds)

lemma getBalance_net: "balances_current c \<Longrightarrow> getBalance c a = to_int64 (net (chain_txs c) a)"
  using getBalance_updated [of c a] by (simp add: balances_current_def)

lemma pendingOutflow_outflow: "pendingOutflow c a = to_int64 (outflow (pending_transactions c) a)"
proof -
  let ?f = "\<lambda>t out. if sender t = a then to_int64 (out + amount t) else out"
  have eq: "to_int64 (fold ?f ts n) = to_int64 (n + outflow ts a)" for ts n
    by (induction ts arbitrary: n) (auto simp: to_int64_arith)
  have "in_int64 (fold ?f ts n)" if "in_int64 n" for ts n
    using that by (induction ts arbitrary: n) auto
  from this [of 0] have "to_int64 (pendingOutflow c a) = pendingOutflow c a"
    unfolding pendingOutflow_def by (intro to_int64_id) (simp add: in_int64_def int_bounds)
  then show ?thesis using eq [of "pending_transactions c" 0] by (simp add: pendingOutflow_def)
qed

section \<open>Bounds\<close>

lemma amount_bounds: "isValidAmount v \<Longrightarrow> 0 < v \<and> v \<le> MAX_MONEY"
  by (auto simp: isValidAmount_def)

lemma net_bound:
  "list_all tx_valid ts \<Longrightarrow> \<bar>net ts a\<bar> \<le> int (length ts) * MAX_MONEY"
proof (induction ts)
  case Nil
  then show ?case by simp
next
  case (Cons t ts)
  have "\<bar>credit t a - debit t a\<bar> \<le> MAX_MONEY"
    using Cons.prems tx_valid_basic [of t] amount_bounds [of "amount t"]
    by (auto simp: credit_def debit_def money_consts)
  with Cons show ?case by (simp add: algebra_simps)
qed

lemma exact_balance:
  assumes "balances_current c" "list_all tx_valid (chain_txs c)" "length (chain_txs c) \<le> 4392"
  shows "getBalance c a = net (chain_txs c) a"
proof -
  have "int (length (chain_txs c)) * MAX_MONEY \<le> 4392 * MAX_MONEY"
    using assms(3) by (intro mult_right_mono) (simp_all add: money_consts)
  then have "\<bar>net (chain_txs c) a\<bar> \<le> 4392 * MAX_MONEY"
    using net_bound [OF assms(2), of a] by linarith
  then show ?thesis
    unfolding getBalance_net [OF assms(1)]
    by (intro to_int64_id) (auto simp: in_int64_def int_bounds money_consts abs_le_iff)
qed

section \<open>Supply\<close>

definition accounts :: "transaction list \<Rightarrow> string set" where
  "accounts ts = set (map receiver ts) \<union> set (map sender (filter (\<lambda>t. sender t \<noteq> ''system'') ts))"

lemma finite_accounts [simp]: "finite (accounts ts)"
  by (simp add: accounts_def)

lemma accounts_Cons:
  "accounts (t # ts) = insert (receiver t)
     (if sender t = ''system'' then accounts ts else insert (sender t) (accounts ts))"
  by (auto simp: accounts_def)

lemma sum_credit: "finite A \<Longrightarrow> receiver t \<in> A \<Longrightarrow> (\<Sum>a\<in>A. credit t a) = amount t"
  by (simp add: credit_def)

lemma sum_debit:
  "finite A \<Longrightarrow> sender t = ''system'' \<or> sender t \<in> A \<Longrightarrow>
     (\<Sum>a\<in>A. debit t a) = (if sender t = ''system'' then 0 else amount t)"
  by (auto simp: debit_def)

lemma sum_net:
  "finite A \<Longrightarrow> accounts ts \<subseteq> A \<Longrightarrow> (\<Sum>a\<in>A. net ts a) = minted ts"
proof (induction ts)
  case Nil
  then show ?case by simp
next
  case (Cons t ts)
  then have "receiver t \<in> A" "sender t = ''system'' \<or> sender t \<in> A" "accounts ts \<subseteq> A"
    by (auto simp: accounts_Cons split: if_splits)
  with Cons show ?case
    by (simp add: sum.distrib sum_subtractf sum_credit sum_debit)
qed

lemma net_outside: "a \<notin> accounts ts \<Longrightarrow> net ts a = 0"
  by (induction ts) (auto simp: accounts_Cons credit_def debit_def split: if_splits)

lemma to_int64_mod: "to_int64 x mod 2 ^ 64 = x mod 2 ^ 64"
proof -
  have "take_bit 64 (to_int64 x) = take_bit 64 x" by (simp add: to_int64_def take_bit_signed_take_bit)
  then show ?thesis by (simp only: take_bit_eq_mod)
qed

lemma supply_mod:
  assumes "balances_current c"
  shows "(\<Sum>a\<in>accounts (chain_txs c). getBalance c a) mod 2 ^ 64 = minted (chain_txs c) mod 2 ^ 64"
proof -
  have "(\<Sum>a\<in>accounts (chain_txs c). getBalance c a) mod 2 ^ 64
      = (\<Sum>a\<in>accounts (chain_txs c). getBalance c a mod 2 ^ 64) mod 2 ^ 64"
    by (rule mod_sum_eq [symmetric])
  also have "\<dots> = (\<Sum>a\<in>accounts (chain_txs c). net (chain_txs c) a mod 2 ^ 64) mod 2 ^ 64"
    by (simp only: getBalance_net [OF assms] to_int64_mod)
  also have "\<dots> = minted (chain_txs c) mod 2 ^ 64"
    by (simp only: mod_sum_eq sum_net [OF finite_accounts order_refl])
  finally show ?thesis .
qed

lemma minted_filter: "minted ts = sum_list (map amount (filter (\<lambda>t. sender t = ''system'') ts))"
  by (induction ts) simp_all

lemma addBlock_mints:
  assumes "addBlock (Some b) c = Some (True, c')" "int (length (b_transactions b)) \<le> int32_max"
  shows "minted (chain_txs c') = minted (chain_txs c) + mining_reward c"
proof -
  from assms(1) obtain b' where b': "Some b = Some b'" "acceptable c b'" "c' = appended b' c"
    by (rule addBlock_accept)
  then have acc: "acceptable c b" "c' = appended b c" by simp_all
  obtain t where "filter (\<lambda>t. sender t = ''system'') (b_transactions b) = [t]" "amount t = mining_reward c"
    using acc(1) assms(2) by (rule acceptable_reward)
  then have "minted (b_transactions b) = mining_reward c" by (simp add: minted_filter)
  then show ?thesis using acc(2) by simp
qed

lemma mine_mints:
  assumes "chain c \<noteq> []" "no_system (pending_transactions c)"
    "minePendingTransactions now now_tx fresh addr c = Some c'" "c' \<noteq> c"
  shows "minted (chain_txs c') = minted (chain_txs c) + mining_reward c"
  using assms(1,3)
proof (cases rule: mine_cases)
  case 1
  then show ?thesis using assms(4) by simp
next
  case (2 b)
  have "minted (filter tx_valid ts) = 0" if "no_system ts" for ts
    using that by (induction ts) (auto simp: no_system_def)
  then show ?thesis using 2 assms(2) by (simp add: mined_on_def)
qed

end
