(* ===== verification/Chain_File.thy ===== *)
theory Chain_File
  imports Streams Ledger "HOL-Library.Monad_Syntax"
begin

text \<open>
  \<open>saveToFile\<close> and \<open>loadFromFile\<close> of \<open>Blockchain.cpp\<close>.  The file system is a
  parameter: whether the output file opens, and the content of the input file (\<open>None\<close> when it
  does not open).  Saving writes one value per line, loading reads them back with
  \<open>operator>>\<close> and adopts the chain only after the validity scan.  The main results are the
  round trip for chains whose strings survive the format, and that a failing load leaves the ledger
  as it was when the mining reward is exactly representable as a double.
\<close>

section \<open>Saving\<close>

definition or_dash :: "string \<Rightarrow> string" where
  "or_dash s = (if s = [] then ''-'' else s)"

definition tx_file_lines :: "transaction \<Rightarrow> string list" where
  "tx_file_lines t =
     [sender t, receiver t, show_int (amount t), show_int (timestamp t), or_dash (signature t),
      or_dash (sender_pubkey t), show_word (nonce t)]"

definition block_file_lines :: "block \<Rightarrow> string list" where
  "block_file_lines b =
     [show_int (b_index b), show_int (b_timestamp b), b_previous_hash b, b_hash b, b_merkle_root b,
      show_int (b_difficulty b), show_int (b_nonce b), show_nat (length (b_transactions b))]
     @ concat (map tx_file_lines (b_transactions b))"

definition chain_file_lines :: "blockchain \<Rightarrow> string list" where
  "chain_file_lines c =
     [show_int (difficulty c), show_int (mining_reward c), show_nat (length (chain c))]
     @ concat (map block_file_lines (chain c))"

definition saveToFile :: "bool \<Rightarrow> blockchain \<Rightarrow> bool \<times> string option" where
  "saveToFile opened c =
     (if \<not> opened then (False, None) else (True, Some (lines_of (chain_file_lines c))))"

section \<open>Loading\<close>

definition from_dash :: "string \<Rightarrow> string" where
  "from_dash s = (if s = ''-'' then [] else s)"

definition load_tx :: "istream \<Rightarrow> (transaction \<times> istream) option" where
  "load_tx s0 = do {
     (from, s1) \<leftarrow> extract_string s0;
     (to, s2) \<leftarrow> extract_string s1;
     (val, s3) \<leftarrow> extract_int64 s2;
     (tx_timestamp, s4) \<leftarrow> extract_int64 s3;
     (sig, s5) \<leftarrow> extract_string s4;
     (pubkey, s6) \<leftarrow> extract_string s5;
     (tx_nonce, s7) \<leftarrow> extract_unsigned s6;
     Some (setSenderPublicKey (from_dash pubkey)
             (restore_transaction from to val tx_timestamp (from_dash sig) tx_nonce), s7)
   }"

fun load_txs :: "nat \<Rightarrow> istream \<Rightarrow> (transaction list \<times> istream) option" where
  "load_txs 0 s = Some ([], s)"
| "load_txs (Suc n) s = do {
     (t, s') \<leftarrow> load_tx s;
     (ts, s'') \<leftarrow> load_txs n s';
     Some (t # ts, s'')
   }"

definition load_block :: "istream \<Rightarrow> (block \<times> istream) option" where
  "load_block s0 = do {
     (idx, s1) \<leftarrow> extract_int s0;
     (ts, s2) \<leftarrow> extract_int64 s1;
     (prev_hash, s3) \<leftarrow> extract_string s2;
     (hsh, s4) \<leftarrow> extract_string s3;
     (merkle_root, s5) \<leftarrow> extract_string s4;
     (block_difficulty, s6) \<leftarrow> extract_int s5;
     (n, s7) \<leftarrow> extract_int s6;
     (tx_count, s8) \<leftarrow> extract_unsigned s7;
     (txs, s9) \<leftarrow> load_txs (unat (tx_count :: u64)) s8;
     let b = setMinedState n hsh
               (setTransactions (map Some txs) (new_block idx prev_hash block_difficulty ts))
     in if b_merkle_root b \<noteq> merkle_root then None else Some (b, s9)
   }"

fun load_blocks :: "nat \<Rightarrow> istream \<Rightarrow> (block list \<times> istream) option" where
  "load_blocks 0 s = Some ([], s)"
| "load_blocks (Suc n) s = do {
     (b, s') \<leftarrow> load_block s;
     (bs, s'') \<leftarrow> load_blocks n s';
     Some (b # bs, s'')
   }"

definition load_chain :: "istream \<Rightarrow> (int \<times> int \<times> block list) option" where
  "load_chain s0 = do {
     (file_difficulty, s1) \<leftarrow> extract_int s0;
     (file_reward, s2) \<leftarrow> extract_int64 s1;
     if \<not> isValidAmount file_reward then None
     else do {
       (chain_size, s3) \<leftarrow> extract_unsigned s2;
       (parsed, s4) \<leftarrow> load_blocks (unat (chain_size :: u64)) s3;
       Some (file_difficulty, file_reward, parsed)
     }
   }"

text \<open>
  The reward is parked in a \<open>double\<close> while the new chain is validated.  \<open>double_of\<close> is
  the rounding of an integer to 53 significant bits, ties to even.
\<close>

fun bit_length :: "nat \<Rightarrow> nat" where
  "bit_length n = (if n = 0 then 0 else Suc (bit_length (n div 2)))"

declare bit_length.simps [simp del]

definition double_of :: "int \<Rightarrow> int" where
  "double_of x =
     (if \<bar>x\<bar> \<le> 2 ^ 53 then x
      else
        let m = nat \<bar>x\<bar>; e = bit_length m - 53; q = m div 2 ^ e; r = m mod 2 ^ e;
            half = 2 ^ (e - 1);
            q' = (if r > half \<or> r = half \<and> odd q then q + 1 else q)
        in sgn x * int (q' * 2 ^ e))"

definition loadFromFile :: "string option \<Rightarrow> blockchain \<Rightarrow> (bool \<times> blockchain) option" where
  "loadFromFile content c =
     (case content of
        None \<Rightarrow> Some (False, c)
      | Some input \<Rightarrow>
         (case load_chain (Good input) of
            None \<Rightarrow> Some (False, c)
          | Some (file_difficulty, file_reward, parsed) \<Rightarrow>
              (let previous_chain = chain c; previous_difficulty = difficulty c;
                   previous_reward = double_of (mining_reward c);
                   c1 = c\<lparr>chain := parsed, difficulty := file_difficulty, mining_reward := file_reward\<rparr>
               in case isChainValid c1 of
                    None \<Rightarrow> None
                  | Some ok \<Rightarrow>
                      if \<not> ok
                      then Some (False, c1\<lparr>chain := previous_chain, difficulty := previous_difficulty,
                                           mining_reward := to_int64 previous_reward\<rparr>)
                      else Some (True, updateBalances (c1\<lparr>pending_transactions := []\<rparr>)))))"

section \<open>Round trip\<close>

definition optional_word :: "string \<Rightarrow> bool" where
  "optional_word s \<longleftrightarrow> s = [] \<or> word_like s \<and> s \<noteq> ''-''"

definition storable_tx :: "transaction \<Rightarrow> bool" where
  "storable_tx t \<longleftrightarrow>
     word_like (sender t) \<and> word_like (receiver t) \<and> in_int64 (amount t) \<and> in_int64 (timestamp t) \<and>
     optional_word (signature t) \<and> optional_word (sender_pubkey t)"

definition storable_block :: "block \<Rightarrow> bool" where
  "storable_block b \<longleftrightarrow>
     in_int32 (b_index b) \<and> in_int64 (b_timestamp b) \<and> word_like (b_previous_hash b) \<and>
     word_like (b_hash b) \<and> in_int32 (b_difficulty b) \<and> in_int32 (b_nonce b) \<and>
     root_current b \<and> list_all storable_tx (b_transactions b) \<and>
     int (length (b_transactions b)) \<le> uint64_max"

definition storable :: "blockchain \<Rightarrow> bool" where
  "storable c \<longleftrightarrow>
     in_int32 (difficulty c) \<and> isValidAmount (mining_reward c) \<and> list_all storable_block (chain c) \<and>
     int (length (chain c)) \<le> uint64_max"

lemma or_dash_word: "optional_word s \<Longrightarrow> word_like (or_dash s)"
  by (auto simp: optional_word_def or_dash_def word_like_def is_space_def)

lemma from_or_dash: "optional_word s \<Longrightarrow> from_dash (or_dash s) = s"
  by (auto simp: optional_word_def or_dash_def from_dash_def)

lemma hash_word_like: "word_like (sha256 s)"
proof -
  have "list_all is_lower_hex (sha256 s)"
    by (simp add: sha256_def hash_string_def hash_bytes_hex hex_bytes_lower)
  moreover have "is_lower_hex c \<Longrightarrow> \<not> is_space c" for c
    by (auto simp: is_lower_hex_def is_space_def is_digit_def)
  moreover have "sha256 s \<noteq> []" by (simp add: sha256_def flip: length_greater_0_conv)
  ultimately show ?thesis by (auto simp: word_like_def list_all_iff)
qed

lemma root_word_like: "word_like (calculateMerkleRoot xs)"
proof -
  have "list_all is_lower_hex (calculateMerkleRoot xs)" by (rule calculateMerkleRoot_lower_hex)
  moreover have "is_lower_hex c \<Longrightarrow> \<not> is_space c" for c
    by (auto simp: is_lower_hex_def is_space_def is_digit_def)
  moreover have "calculateMerkleRoot xs \<noteq> []" by (simp flip: length_greater_0_conv)
  ultimately show ?thesis by (auto simp: word_like_def list_all_iff)
qed

lemma count_as_word:
  assumes "int n \<le> uint64_max"
  shows "show_nat n = show_word (of_nat n :: u64)" "unat (of_nat n :: u64) = n"
proof -
  show "unat (of_nat n :: u64) = n"
    using assms by (simp add: uint64_max_def unsigned_of_nat take_bit_nat_eq_self)
  then show "show_nat n = show_word (of_nat n :: u64)" by (simp add: show_word_def)
qed

lemma load_tx_lines:
  assumes "storable_tx t"
  shows "load_tx (Good (CHR 0x0A # lines_of (tx_file_lines t @ xs))) = Some (t, Good (CHR 0x0A # lines_of xs))"
  using assms
  by (simp add: storable_tx_def load_tx_def tx_file_lines_def next_lines or_dash_word from_or_dash
      setSenderPublicKey_def restore_transaction_def del: lines_of_simps)

lemma load_txs_lines:
  "list_all storable_tx ts \<Longrightarrow>
     load_txs (length ts) (Good (CHR 0x0A # lines_of (concat (map tx_file_lines ts) @ xs)))
       = Some (ts, Good (CHR 0x0A # lines_of xs))"
  by (induction ts) (simp_all add: load_tx_lines del: lines_of_simps)

lemma map_filter_Some [simp]: "List.map_filter (\<lambda>x. x) (map Some ts) = ts"
  by (induction ts) (simp_all add: List.map_filter_simps)

lemma load_block_lines:
  assumes "storable_block b"
  shows "load_block (Good (CHR 0x0A # lines_of (block_file_lines b @ xs))) = Some (b, Good (CHR 0x0A # lines_of xs))"
proof -
  have root: "tx_root (b_transactions b) = b_merkle_root b" and w: "word_like (b_merkle_root b)"
    using assms by (simp_all add: storable_block_def root_current_def tx_root_def root_word_like)
  have n: "show_nat (length (b_transactions b)) = show_word (of_nat (length (b_transactions b)) :: u64)"
      "unat (of_nat (length (b_transactions b)) :: u64) = length (b_transactions b)"
    using assms by (auto simp: storable_block_def intro: count_as_word)
  show ?thesis
    using assms w
    by (simp add: storable_block_def load_block_def block_file_lines_def n next_lines load_txs_lines Let_def
        setMinedState_def setTransactions_def b_calculateMerkleRoot_eq new_block_def root del: lines_of_simps)
qed

lemma load_blocks_lines:
  "list_all storable_block bs \<Longrightarrow>
     load_blocks (length bs) (Good (CHR 0x0A # lines_of (concat (map block_file_lines bs) @ xs)))
       = Some (bs, Good (CHR 0x0A # lines_of xs))"
  by (induction bs) (simp_all add: load_block_lines del: lines_of_simps)

lemma load_chain_lines:
  assumes "storable c"
  shows "load_chain (Good (lines_of (chain_file_lines c))) = Some (difficulty c, mining_reward c, chain c)"
proof -
  have n: "show_nat (length (chain c)) = show_word (of_nat (length (chain c)) :: u64)"
      "unat (of_nat (length (chain c)) :: u64) = length (chain c)"
    using assms by (auto simp: storable_def intro: count_as_word)
  show ?thesis
    using assms load_blocks_lines [of "chain c" "[]"]
    by (simp add: storable_def load_chain_def chain_file_lines_def n next_lines isValidAmount_in_int64
        del: lines_of_simps)
qed

lemma save_load:
  assumes "storable c" "chain_ok c" "balances_current c" "saveToFile opened c = (True, Some file)"
  shows "loadFromFile (Some file) d = Some (True, c\<lparr>pending_transactions := []\<rparr>)"
proof -
  have "file = lines_of (chain_file_lines c)" using assms(4) by (simp add: saveToFile_def split: if_splits)
  moreover have "isChainValid (d\<lparr>chain := chain c, difficulty := difficulty c, mining_reward := r\<rparr>) = Some True" for r
    using assms(2) by (simp add: isChainValid_chain_ok chain_ok_cong [of "d\<lparr>chain := chain c, difficulty := difficulty c, mining_reward := r\<rparr>" c])
  moreover have "balances c = balances (updateBalances c)"
    using assms(3) by (simp add: balances_current_def)
  ultimately show ?thesis
    using assms(1) by (simp add: loadFromFile_def load_chain_lines Let_def updateBalances_def)
qed

section \<open>Outcomes of a load\<close>

lemma double_of_exact: "\<bar>x\<bar> \<le> 2 ^ 53 \<Longrightarrow> double_of x = x"
  by (simp add: double_of_def)

lemma double_of_valid: "isValidAmount x \<Longrightarrow> to_int64 (double_of x) = x"
  using double_of_exact [of x]
  by (simp add: isValidAmount_def money_consts to_int64_id in_int64_def int_bounds)

lemma load_reward_valid: "load_chain s = Some (d, r, bs) \<Longrightarrow> isValidAmount r"
  by (auto simp: load_chain_def bind_eq_Some_conv split: if_splits)

lemma load_total: "\<exists>r c'. loadFromFile content c = Some (r, c')"
  by (auto simp: loadFromFile_def isChainValid_chain_ok Let_def split: option.split)

lemma load_success:
  assumes "loadFromFile content c = Some (True, c')"
  shows "chain_ok c' \<and> balances_current c' \<and> pending_transactions c' = [] \<and> isValidAmount (mining_reward c')"
proof -
  from assms obtain input d r bs where l: "load_chain (Good input) = Some (d, r, bs)"
    and ok: "chain_ok (c\<lparr>chain := bs, difficulty := d, mining_reward := r\<rparr>)"
    and c': "c' = updateBalances (c\<lparr>chain := bs, difficulty := d, mining_reward := r, pending_transactions := []\<rparr>)"
    by (auto simp: loadFromFile_def isChainValid_chain_ok Let_def split: option.splits prod.splits if_splits)
  have "chain_ok c'"
    using ok chain_ok_cong [of c' "c\<lparr>chain := bs, difficulty := d, mining_reward := r\<rparr>"]
    by (simp add: c')
  then show ?thesis using load_reward_valid [OF l] by (simp add: c')
qed

lemma load_failure:
  assumes "loadFromFile content c = Some (False, c')"
  shows "c' = c \<or> c' = c\<lparr>mining_reward := to_int64 (double_of (mining_reward c))\<rparr>"
  using assms
  by (auto simp: loadFromFile_def isChainValid_chain_ok Let_def split: option.splits prod.splits if_splits)

lemma load_failure_unchanged:
  "loadFromFile content c = Some (False, c') \<Longrightarrow> isValidAmount (mining_reward c) \<Longrightarrow> c' = c"
  using load_failure by (fastforce simp: double_of_valid)

end
