(* ===== verification/Chain_System.thy ===== *)
theory Chain_System
  imports Chain_File
begin

text \<open>
  The ledger as a state machine.  A step is one public operation of \<open>Blockchain\<close> executed
  under its mutex: a submitted transaction, a mined block (by a clock that is not behind the tip),
  a block received from a peer, a changed reward, a load.  Two locales state what an invariant has
  to satisfy; their interpretations give the ledger's well-formedness in every reachable state,
  and, for a node that only submits and mines, that no account is ever in debt.
\<close>

section \<open>Steps\<close>

inductive local_step :: "blockchain \<Rightarrow> blockchain \<Rightarrow> bool" where
  submit: "local_step c (bc_addTransaction t c)"
| mine: "b_timestamp (last (chain c)) \<le> now \<Longrightarrow>
    minePendingTransactions now now_tx fresh addr c = Some c' \<Longrightarrow> local_step c c'"

inductive bc_step :: "blockchain \<Rightarrow> blockchain \<Rightarrow> bool" where
  by_itself: "local_step c c' \<Longrightarrow> bc_step c c'"
| receive: "addBlock blk c = Some (accepted, c') \<Longrightarrow> bc_step c c'"
| change_reward: "bc_step c (setMiningReward r c)"
| load: "loadFromFile content c = Some (ok, c') \<Longrightarrow> bc_step c c'"

inductive_cases local_stepE: "local_step c c'"
inductive_cases bc_stepE: "bc_step c c'"

locale local_invariant =
  fixes I :: "blockchain \<Rightarrow> bool"
  assumes keep_submit: "I c \<Longrightarrow> I (bc_addTransaction t c)"
    and keep_mine: "I c \<Longrightarrow> b_timestamp (last (chain c)) \<le> now \<Longrightarrow>
      minePendingTransactions now now_tx fresh addr c = Some c' \<Longrightarrow> I c'"
begin

lemma local_keep: "local_step c c' \<Longrightarrow> I c \<Longrightarrow> I c'"
  by (erule local_stepE) (auto intro: keep_submit keep_mine)

lemma local_reach: "local_step\<^sup>*\<^sup>* c c' \<Longrightarrow> I c \<Longrightarrow> I c'"
  by (induction rule: rtranclp_induct) (auto intro: local_keep)

end

locale ledger_invariant = local_invariant I for I :: "blockchain \<Rightarrow> bool" +
  assumes keep_receive: "I c \<Longrightarrow> addBlock blk c = Some (accepted, c') \<Longrightarrow> I c'"
    and keep_reward: "I c \<Longrightarrow> I (setMiningReward r c)"
    and keep_load: "I c \<Longrightarrow> loadFromFile content c = Some (ok, c') \<Longrightarrow> I c'"
begin

lemma keep: "bc_step c c' \<Longrightarrow> I c \<Longrightarrow> I c'"
  by (erule bc_stepE) (auto intro: local_keep keep_receive keep_reward keep_load)

lemma reach: "bc_step\<^sup>*\<^sup>* c c' \<Longrightarrow> I c \<Longrightarrow> I c'"
  by (induction rule: rtranclp_induct) (auto intro: keep)

end

section \<open>Well-formedness\<close>

definition ledger_wf :: "blockchain \<Rightarrow> bool" where
  "ledger_wf c \<longleftrightarrow> chain_ok c \<and> pool_ok c \<and> balances_current c"

lemma balances_current_iff:
  "balances_current c \<longleftrightarrow> balances c = balances (updateBalances c)"
  by (cases c) (simp add: balances_current_def updateBalances_def)

lemma balances_cong:
  "chain c' = chain c \<Longrightarrow> balances c' = balances c \<Longrightarrow> balances_current c' = balances_current c"
  by (simp add: balances_current_iff updateBalances_def)

lemma submit_current: "balances_current (bc_addTransaction t c) = balances_current c"
  by (intro balances_cong) simp_all

lemma addBlock_current: "balances_current c \<Longrightarrow> addBlock blk c = Some (r, c') \<Longrightarrow> balances_current c'"
  by (cases r) (auto simp: appended_def elim!: addBlock_accept dest: addBlock_reject)

lemma mine_current:
  "chain c \<noteq> [] \<Longrightarrow> balances_current c \<Longrightarrow>
     minePendingTransactions now now_tx fresh addr c = Some c' \<Longrightarrow> balances_current c'"
  by (erule (1) mine_cases) (simp_all add: after_mining_def)

lemma setMiningReward_sel [simp]:
  "chain (setMiningReward r c) = chain c" "difficulty (setMiningReward r c) = difficulty c"
  "pending_transactions (setMiningReward r c) = pending_transactions c"
  "balances (setMiningReward r c) = balances c" "mining_reward (setMiningReward r c) = r"
  by (simp_all add: setMiningReward_def)

lemma ledger_wf_cong:
  assumes "chain c' = chain c" "difficulty c' = difficulty c" "balances c' = balances c"
    "pending_transactions c' = pending_transactions c"
  shows "ledger_wf c' = ledger_wf c"
  using assms chain_ok_cong [of c' c] balances_cong [of c' c]
  by (simp add: ledger_wf_def pool_ok_def chain_txs_def)

lemma load_wf:
  assumes "ledger_wf c" "loadFromFile content c = Some (ok, c')"
  shows "ledger_wf c'"
proof (cases ok)
  case True
  then show ?thesis
    using load_success [of content c c'] assms(2) by (simp add: ledger_wf_def pool_ok_def)
next
  case False
  then have "c' = c \<or> c' = c\<lparr>mining_reward := to_int64 (double_of (mining_reward c))\<rparr>"
    using assms(2) by (intro load_failure) simp
  then show ?thesis
  proof
    assume "c' = c"
    then show ?thesis using assms(1) by simp
  next
    assume "c' = c\<lparr>mining_reward := to_int64 (double_of (mining_reward c))\<rparr>"
    then show ?thesis using assms(1) ledger_wf_cong [of c' c] by simp
  qed
qed

interpretation wf: ledger_invariant ledger_wf
proof
  fix c c' :: blockchain and t now now_tx fresh addr blk accepted r content ok
  assume wf: "ledger_wf c"
  then have parts: "chain_ok c" "pool_ok c" "balances_current c" "chain c \<noteq> []"
    by (auto simp: ledger_wf_def chain_ok_nonempty)
  show "ledger_wf (bc_addTransaction t c)"
    using parts chain_ok_cong [of "bc_addTransaction t c" c]
    by (simp add: ledger_wf_def addTransaction_pool_ok submit_current)
  show "ledger_wf c'" if "b_timestamp (last (chain c)) \<le> now"
      "minePendingTransactions now now_tx fresh addr c = Some c'"
    using parts that by (auto simp: ledger_wf_def intro: mine_chain_ok mine_pool_ok mine_current)
  show "ledger_wf c'" if "addBlock blk c = Some (accepted, c')"
    using parts that by (auto simp: ledger_wf_def intro: addBlock_chain_ok addBlock_pool_ok addBlock_current)
  show "ledger_wf (setMiningReward r c)"
    using wf ledger_wf_cong [of "setMiningReward r c" c] by simp
  show "ledger_wf c'" if "loadFromFile content c = Some (ok, c')"
    using wf that by (rule load_wf)
qed

text \<open>A new ledger, when its genesis block can be mined.\<close>

lemma new_blockchain_wf:
  assumes "new_blockchain now diff reward = Some c"
  shows "ledger_wf c \<and> pending_transactions c = [] \<and> chain_txs c = []"
proof -
  from assms obtain g where g: "mineBlock (new_block 0 ''0'' diff now) = Some g"
    and c: "c = updateBalances \<lparr>chain = [g], pending_transactions = [], difficulty = diff,
      mining_reward = reward, balances = Map.empty\<rparr>"
    by (auto simp: new_blockchain_def createGenesisBlock_def split: option.splits)
  have "b_valid g" using g by (rule mineBlock_valid) simp_all
  then have "chain_ok c" using mineBlock_content [OF g] by (simp add: c chain_ok_def isValidWithDifficulty_iff)
  then show ?thesis using mineBlock_content [OF g] by (simp add: c ledger_wf_def pool_ok_def chain_txs_def)
qed

section \<open>Solvency of a node that accepts no foreign block\<close>

definition solvent :: "blockchain \<Rightarrow> bool" where
  "solvent c \<longleftrightarrow> (\<forall>a. a \<noteq> ''system'' \<longrightarrow> outflow (pending_transactions c) a \<le> net (chain_txs c) a)"

definition local_inv :: "blockchain \<Rightarrow> bool" where
  "local_inv c \<longleftrightarrow>
     ledger_wf c \<and> list_all tx_valid (chain_txs c) \<and> (minted (chain_txs c) \<le> int64_max \<longrightarrow> solvent c)"

lemma positive: "tx_valid t \<Longrightarrow> 0 < amount t"
  using tx_valid_basic(4) amount_bounds by blast

lemma outflow_nonneg: "list_all tx_valid ts \<Longrightarrow> 0 \<le> outflow ts a"
  by (induction ts) (auto dest: positive)

lemma minted_nonneg: "list_all tx_valid ts \<Longrightarrow> 0 \<le> minted ts"
  by (induction ts) (auto dest: positive)

lemma net_system_nonneg: "list_all tx_valid ts \<Longrightarrow> 0 \<le> net ts ''system''"
  by (induction ts) (auto simp: credit_def debit_def dest: positive)

lemma net_ge_outflow: "list_all tx_valid ts \<Longrightarrow> a \<noteq> ''system'' \<Longrightarrow> - outflow ts a \<le> net ts a"
  by (induction ts) (auto simp: credit_def debit_def dest: positive)

lemma chain_ok_txs: "chain_ok c \<Longrightarrow> list_all tx_valid (chain_txs c)"
proof -
  assume ok: "chain_ok c"
  have "b_valid (chain c ! i)" if "i < length (chain c)" for i
  proof (cases i)
    case 0
    then show ?thesis
      using ok that by (auto simp: chain_ok_def isValidWithDifficulty_iff hd_conv_nth)
  next
    case (Suc j)
    then have "link_ok c i (chain c ! (i - 1)) (chain c ! i)"
      using ok that unfolding chain_ok_def by (metis Suc_eq_plus1 le_add2)
    then show ?thesis by (auto simp: link_ok_def isValidWithDifficulty_iff split: option.splits)
  qed
  then have "\<forall>b \<in> set (chain c). b_valid b" by (auto simp: in_set_conv_nth)
  then show ?thesis by (auto simp: chain_txs_def list_all_iff b_valid_iff)
qed

text \<open>Without debts, every exact balance lies between zero and the minted total.\<close>

lemma solvent_bounds:
  assumes "ledger_wf c" "solvent c"
  shows "0 \<le> net (chain_txs c) a \<and> net (chain_txs c) a \<le> minted (chain_txs c)"
proof -
  let ?ts = "chain_txs c"
  have v: "list_all tx_valid ?ts" "list_all tx_valid (pending_transactions c)"
    using assms(1) by (auto simp: ledger_wf_def chain_ok_txs pool_ok_def)
  have nn: "0 \<le> net ?ts x" for x
    using net_system_nonneg [OF v(1)] outflow_nonneg [OF v(2), of x] assms(2)
    by (cases "x = ''system''") (auto simp: solvent_def intro: order_trans)
  moreover have "net ?ts a \<le> minted ?ts"
  proof (cases "a \<in> accounts ?ts")
    case True
    then show ?thesis
      using sum_net [of "accounts ?ts" ?ts] member_le_sum [of a "accounts ?ts" "net ?ts"] nn by simp
  next
    case False
    then show ?thesis using minted_nonneg [OF v(1)] by (simp add: net_outside)
  qed
  ultimately show ?thesis by blast
qed

lemma solvent_exact:
  assumes "ledger_wf c" "solvent c" "minted (chain_txs c) \<le> int64_max"
  shows "getBalance c a = net (chain_txs c) a"
  using assms solvent_bounds [OF assms(1,2), of a]
  by (simp add: ledger_wf_def getBalance_net to_int64_id in_int64_def int_bounds)

lemma submit_solvent:
  assumes "ledger_wf c" "solvent c" "minted (chain_txs c) \<le> int64_max"
  shows "solvent (bc_addTransaction t c)"
proof (rule addTransaction_cases [of t c])
  assume "bc_addTransaction t c = c"
  then show ?thesis using assms(2) by simp
next
  assume new: "bc_addTransaction t c = c\<lparr>pending_transactions := pending_transactions c @ [t]\<rparr>"
    and funds: "sender t \<noteq> ''system'' \<Longrightarrow>
      amount t \<le> to_int64 (getBalance c (sender t) - pendingOutflow c (sender t))"
  let ?out = "outflow (pending_transactions c) (sender t)" and ?net = "net (chain_txs c) (sender t)"
  have "?out + amount t \<le> ?net" if s: "sender t \<noteq> ''system''"
  proof -
    have b: "0 \<le> ?out" "?out \<le> ?net" "?net \<le> int64_max"
      using assms s solvent_bounds [OF assms(1,2), of "sender t"]
        outflow_nonneg [of "pending_transactions c" "sender t"]
      by (auto simp: solvent_def ledger_wf_def pool_ok_def)
    then have "pendingOutflow c (sender t) = ?out" "to_int64 (?net - ?out) = ?net - ?out"
      by (simp_all add: pendingOutflow_outflow to_int64_id in_int64_def int_bounds)
    then show ?thesis using funds [OF s] solvent_exact [OF assms] by simp
  qed
  then show ?thesis
    using assms(2) by (auto simp: solvent_def chain_txs_def new)
qed

lemma mine_solvent:
  assumes "ledger_wf c" "solvent c" "minePendingTransactions now now_tx fresh addr c = Some c'"
  shows "solvent c'"
proof -
  have "chain c \<noteq> []" using assms(1) by (simp add: ledger_wf_def chain_ok_nonempty)
  from this assms(3) show ?thesis
  proof (cases rule: mine_cases)
    case 1
    then show ?thesis using assms(2) by simp
  next
    case (2 b)
    let ?ps = "pending_transactions c" and ?r = "reward_tx now_tx fresh addr c"
    have v: "list_all tx_valid ?ps" "filter tx_valid ?ps = ?ps"
      using assms(1) by (auto simp: ledger_wf_def pool_ok_def filter_valid_pool)
    have "0 \<le> net (chain_txs c) a + (net ?ps a + (credit ?r a - debit ?r a))" if "a \<noteq> ''system''" for a
    proof -
      have "- outflow ?ps a \<le> net ?ps a" using net_ge_outflow [OF v(1) that] .
      moreover have "outflow ?ps a \<le> net (chain_txs c) a" using assms(2) that by (simp add: solvent_def)
      moreover have "0 \<le> credit ?r a - debit ?r a"
        using positive [OF 2(1)] by (simp add: credit_def debit_def)
      ultimately show ?thesis by linarith
    qed
    then show ?thesis using 2(2) by (simp add: solvent_def 2(3) mined_on_def v(2))
  qed
qed

lemma mine_minted_mono:
  assumes "ledger_wf c" "minePendingTransactions now now_tx fresh addr c = Some c'"
  shows "minted (chain_txs c) \<le> minted (chain_txs c')"
proof -
  have "chain c \<noteq> []" using assms(1) by (simp add: ledger_wf_def chain_ok_nonempty)
  from this assms(2) show ?thesis
  proof (cases rule: mine_cases)
    case (2 b)
    have "list_all tx_valid (b_transactions b)"
      using 2(2) by (auto simp: mined_on_def b_valid_iff)
    then show ?thesis by (simp add: 2(3) minted_nonneg)
  qed simp
qed

interpretation solvency: local_invariant local_inv
proof
  fix c c' :: blockchain and t now now_tx fresh addr
  assume inv: "local_inv c"
  then have wf: "ledger_wf c" by (simp add: local_inv_def)
  show "local_inv (bc_addTransaction t c)"
    using inv wf.keep_submit [OF wf, of t] submit_solvent [OF wf] by (simp add: local_inv_def)
  show "local_inv c'" if m: "b_timestamp (last (chain c)) \<le> now"
      "minePendingTransactions now now_tx fresh addr c = Some c'"
  proof -
    have wf': "ledger_wf c'" using wf m by (rule wf.keep_mine)
    moreover have "solvent c'" if "minted (chain_txs c') \<le> int64_max"
      using that inv mine_minted_mono [OF wf m(2)] mine_solvent [OF wf _ m(2)] by (auto simp: local_inv_def)
    ultimately show ?thesis by (auto simp: local_inv_def ledger_wf_def chain_ok_txs)
  qed
qed

lemma new_blockchain_local: "new_blockchain now diff reward = Some c \<Longrightarrow> local_inv c"
  using new_blockchain_wf [of now diff reward c] by (auto simp: local_inv_def solvent_def)

lemma local_balance_bounds:
  assumes "local_inv c" "minted (chain_txs c) \<le> int64_max"
  shows "0 \<le> getBalance c a \<and> getBalance c a = net (chain_txs c) a"
proof -
  have c: "ledger_wf c" "solvent c" using assms by (auto simp: local_inv_def)
  then show ?thesis using solvent_exact [OF c assms(2)] solvent_bounds [OF c, of a] by simp
qed

end
