(* ===== verification/Wire.thy ===== *)
theory Wire
  imports Streams
begin

text \<open>
  The big-endian codecs of \<open>P2PMessage.h\<close>.  A pointer into a received buffer is the suffix of
  the buffer it points at.  The contract the frame format needs of a codec (fixed width, reads back
  what was written, writes back what was read) is a locale, interpreted on the three codecs.
\<close>

unbundle bit_operations_syntax

section \<open>The codecs\<close>

definition readU32BE :: "byte list \<Rightarrow> u32" where
  "readU32BE p =
     push_bit 24 (ucast (p ! 0)) OR push_bit 16 (ucast (p ! 1)) OR push_bit 8 (ucast (p ! 2)) OR ucast (p ! 3)"

definition readU16BE :: "byte list \<Rightarrow> u16" where
  "readU16BE p = ucast (push_bit 8 (ucast (p ! 0) :: u32) OR ucast (p ! 1))"

definition readI64BE :: "byte list \<Rightarrow> int" where
  "readI64BE p = sint (foldl (\<lambda>value b. push_bit 8 value OR ucast b) (0 :: u64) (take 8 p))"

definition appendU32BE :: "byte list \<Rightarrow> u32 \<Rightarrow> byte list" where
  "appendU32BE out value =
     out @ [ucast (drop_bit 24 value AND 0xFF), ucast (drop_bit 16 value AND 0xFF),
            ucast (drop_bit 8 value AND 0xFF), ucast (value AND 0xFF)]"

definition appendU16BE :: "byte list \<Rightarrow> u16 \<Rightarrow> byte list" where
  "appendU16BE out value = out @ [ucast (drop_bit 8 value AND 0xFF), ucast (value AND 0xFF)]"

definition appendI64BE :: "byte list \<Rightarrow> int \<Rightarrow> byte list" where
  "appendI64BE out value =
     (let bits = (word_of_int value :: u64)
      in out @ map (\<lambda>i. ucast (drop_bit (i * 8) bits AND 0xFF)) (rev [0..<8]))"

section \<open>What a frame needs of a codec\<close>

locale wire_codec =
  fixes width :: nat and put :: "byte list \<Rightarrow> 'a \<Rightarrow> byte list" and get :: "byte list \<Rightarrow> 'a"
    and dom_v :: "'a \<Rightarrow> bool"
  assumes put_append: "put out x = out @ put [] x"
    and put_length: "length (put [] x) = width"
    and get_put: "dom_v x \<Longrightarrow> get (put [] x @ rest) = x"
    and put_get: "width \<le> length bs \<Longrightarrow> put [] (get bs) = take width bs"
    and get_dom: "dom_v (get bs)"
begin

lemma length_put: "length (put out x) = length out + width"
  by (subst put_append) (simp add: put_length)

lemma get_field: "dom_v x \<Longrightarrow> length out = n \<Longrightarrow> get (drop n (put out x @ rest)) = x"
  by (subst put_append) (simp add: get_put)

lemma put_inject: "dom_v x \<Longrightarrow> dom_v y \<Longrightarrow> put out x = put out y \<longleftrightarrow> x = y"
  by (metis put_append get_put same_append_eq)

end

section \<open>Bytes out of words and back\<close>

lemma byte_mask: "(0xFF :: 'a::len word) = mask 8"
  by (simp add: mask_eq_exp_minus_1)

lemma bit_byte_at [simp]:
  "bit (ucast (drop_bit k w AND 0xFF) :: byte) n \<longleftrightarrow> n < 8 \<and> bit w (k + n)"
  "bit (ucast (w AND 0xFF) :: byte) n \<longleftrightarrow> n < 8 \<and> bit w n"
  by (auto simp: byte_mask bit_ucast_iff bit_and_iff bit_mask_iff bit_drop_bit_eq dest: bit_imp_le_length)

text \<open>A word read from big-endian bytes, and the bytes of a word, bit by bit.\<close>

definition reads_be :: "nat \<Rightarrow> byte list \<Rightarrow> 'a::len word \<Rightarrow> bool" where
  "reads_be k bs w \<longleftrightarrow> (\<forall>m < 8 * k. bit w m \<longleftrightarrow> bit (bs ! (k - 1 - m div 8)) (m mod 8))"

definition be_bytes :: "nat \<Rightarrow> 'a::len word \<Rightarrow> byte list" where
  "be_bytes k w = map (\<lambda>i. ucast (drop_bit (8 * (k - 1 - i)) w AND 0xFF)) [0..<k]"

lemma length_be_bytes [simp]: "length (be_bytes k w) = k"
  by (simp add: be_bytes_def)

lemma reads_be_unique:
  fixes v w :: "'a::len word"
  assumes "reads_be k bs v" "reads_be k bs w" "LENGTH('a) = 8 * k"
  shows "v = w"
  by (rule bit_word_eqI) (use assms in \<open>simp add: reads_be_def\<close>)

lemma reads_be_bytes: "reads_be k (be_bytes k w @ rest) w"
proof -
  have "8 * (k - 1 - (k - 1 - m div 8)) + m mod 8 = m" "k - 1 - m div 8 < k" if "m < 8 * k" for m
  proof -
    have "m div 8 < k" using that by (simp add: less_mult_imp_div_less mult.commute)
    then show "8 * (k - 1 - (k - 1 - m div 8)) + m mod 8 = m" "k - 1 - m div 8 < k" by simp_all
  qed
  then show ?thesis by (simp add: reads_be_def be_bytes_def nth_append bit_drop_bit_eq)
qed

lemma be_bytes_reads:
  assumes "reads_be k bs w" "k \<le> length bs"
  shows "be_bytes k w = take k bs"
proof (rule nth_equalityI)
  fix i assume "i < length (be_bytes k w)"
  then have i: "i < k" by simp
  show "be_bytes k w ! i = take k bs ! i"
  proof (rule bit_word_eqI)
    fix n assume "n < LENGTH(8)"
    then have n: "n < 8" by simp
    let ?m = "8 * (k - 1 - i) + n"
    have m: "?m < 8 * k" "?m div 8 = k - 1 - i" "?m mod 8 = n" using i n by simp_all
    have "bit w ?m \<longleftrightarrow> bit (bs ! (k - 1 - ?m div 8)) (?m mod 8)"
      using assms(1) m(1) unfolding reads_be_def by blast
    then have "bit w ?m \<longleftrightarrow> bit (bs ! i) n" using i unfolding m(2,3) by simp
    then show "bit (be_bytes k w ! i) n \<longleftrightarrow> bit (take k bs ! i) n"
      using i n assms(2) by (simp add: be_bytes_def bit_drop_bit_eq)
  qed
qed (use assms in simp)

lemma bit_be_fold:
  "bit (foldl (\<lambda>value b. push_bit 8 value OR ucast (b :: byte)) (0 :: u64) bs) m \<longleftrightarrow>
     m < 64 \<and> m < 8 * length bs \<and> bit (bs ! (length bs - 1 - m div 8)) (m mod 8)"
proof (induction bs arbitrary: m rule: rev_induct)
  case (snoc b bs)
  show ?case
  proof (cases "m < 8")
    case True
    then show ?thesis by (simp add: bit_or_iff bit_push_bit_iff bit_ucast_iff nth_append)
  next
    case False
    then have m: "m div 8 = Suc ((m - 8) div 8)" "m mod 8 = (m - 8) mod 8"
      by (simp_all add: le_div_geq le_mod_geq)
    have "\<not> bit b m" using False by (auto dest: bit_imp_le_length)
    then show ?thesis
      using False snoc.IH [of "m - 8"]
      by (auto simp: bit_or_iff bit_push_bit_iff bit_ucast_iff nth_append m)
  qed
qed simp

lemma word_of_readI64BE:
  "word_of_int (readI64BE p) = foldl (\<lambda>value b. push_bit 8 value OR ucast b) (0 :: u64) (take 8 p)"
  by (simp add: readI64BE_def)

lemma reads_beI:
  assumes "\<And>q r. q < k \<Longrightarrow> r < 8 \<Longrightarrow> bit w (8 * q + r) \<longleftrightarrow> bit (bs ! (k - 1 - q)) r"
  shows "reads_be k bs w"
  unfolding reads_be_def
proof (intro allI impI)
  fix m assume "m < 8 * k"
  then have "m div 8 < k" by (simp add: less_mult_imp_div_less mult.commute)
  with assms [of "m div 8" "m mod 8"] show "bit w m \<longleftrightarrow> bit (bs ! (k - 1 - m div 8)) (m mod 8)" by simp
qed

lemma reads_U32: "reads_be 4 p (readU32BE p)"
proof (rule reads_beI)
  fix q r :: nat assume "q < 4" "r < 8"
  moreover have "\<not> bit (b :: byte) (8 + n)" for b n by (auto dest: bit_imp_le_length)
  moreover have "q = 0 \<or> q = 1 \<or> q = 2 \<or> q = 3" using \<open>q < 4\<close> by linarith
  moreover have "\<not> bit (b :: byte) n" if "8 \<le> n" for b n using that by (auto dest: bit_imp_le_length)
  ultimately show "bit (readU32BE p) (8 * q + r) \<longleftrightarrow> bit (p ! (4 - 1 - q)) r"
    by (elim disjE) (simp_all add: readU32BE_def bit_or_iff bit_push_bit_iff bit_ucast_iff)
qed

lemma reads_U16: "reads_be 2 p (readU16BE p)"
proof (rule reads_beI)
  fix q r :: nat assume "q < 2" "r < 8"
  moreover have "q = 0 \<or> q = 1" using \<open>q < 2\<close> by linarith
  moreover have "\<not> bit (b :: byte) n" if "8 \<le> n" for b n using that by (auto dest: bit_imp_le_length)
  ultimately show "bit (readU16BE p) (8 * q + r) \<longleftrightarrow> bit (p ! (2 - 1 - q)) r"
    by (elim disjE) (simp_all add: readU16BE_def bit_or_iff bit_push_bit_iff bit_ucast_iff)
qed

lemma reads_I64: "8 \<le> length p \<Longrightarrow> reads_be 8 p (word_of_int (readI64BE p) :: u64)"
  unfolding word_of_readI64BE reads_be_def bit_be_fold by auto

lemma append_be_bytes:
  "appendU32BE out v = out @ be_bytes 4 v" "appendU16BE out w = out @ be_bytes 2 w"
  "appendI64BE out i = out @ be_bytes 8 (word_of_int i :: u64)"
  by (simp_all add: appendU32BE_def appendU16BE_def appendI64BE_def be_bytes_def upt_rec Let_def)

interpretation u32_wire: wire_codec 4 appendU32BE readU32BE "\<lambda>_. True"
proof
  show "readU32BE (appendU32BE [] x @ rest) = x" for x rest
    by (rule reads_be_unique [of 4 "be_bytes 4 x @ rest"])
      (simp_all only: append_be_bytes append_Nil reads_U32 reads_be_bytes, simp)
  show "appendU32BE [] (readU32BE bs) = take 4 bs" if "4 \<le> length bs" for bs
    using be_bytes_reads [OF reads_U32 that] by (simp add: append_be_bytes)
qed (simp_all add: append_be_bytes)

interpretation u16_wire: wire_codec 2 appendU16BE readU16BE "\<lambda>_. True"
proof
  show "readU16BE (appendU16BE [] x @ rest) = x" for x rest
    by (rule reads_be_unique [of 2 "be_bytes 2 x @ rest"])
      (simp_all only: append_be_bytes append_Nil reads_U16 reads_be_bytes, simp)
  show "appendU16BE [] (readU16BE bs) = take 2 bs" if "2 \<le> length bs" for bs
    using be_bytes_reads [OF reads_U16 that] by (simp add: append_be_bytes)
qed (simp_all add: append_be_bytes)

interpretation i64_wire: wire_codec 8 appendI64BE readI64BE in_int64
proof
  show "readI64BE (appendI64BE [] x @ rest) = x" if "in_int64 x" for x rest
  proof -
    let ?bs = "appendI64BE [] x @ rest"
    have "(word_of_int (readI64BE ?bs) :: u64) = word_of_int x"
      by (rule reads_be_unique [of 8 "be_bytes 8 (word_of_int x :: u64) @ rest"])
        (simp_all add: append_be_bytes reads_I64 reads_be_bytes)
    then have "sint (word_of_int (readI64BE ?bs) :: u64) = sint (word_of_int x :: u64)" by simp
    then show ?thesis
      using that by (simp add: readI64BE_def signed_of_int in_int64_def int_bounds signed_take_bit_int_eq_self)
  qed
  show "appendI64BE [] (readI64BE bs) = take 8 bs" if "8 \<le> length bs" for bs
    using be_bytes_reads [OF reads_I64 that] that by (simp add: append_be_bytes)
  show "in_int64 (readI64BE bs)" for bs
    using sint_greater_eq [of "word_of_int (readI64BE bs) :: u64"] sint_less [of "word_of_int (readI64BE bs) :: u64"]
    by (simp add: readI64BE_def in_int64_def int_bounds)
qed (simp_all add: append_be_bytes)

end
