(* ===== verification/P2PMessage.thy ===== *)
theory P2PMessage
  imports Wire Block
begin

text \<open>
  \<open>P2PMessage.h\<close>: the message record and its binary frame, the peer records of the gossip, the
  message constructors, and the text formats of blocks and transactions on the wire.  An exception is
  the left value of a sum.  The clock that stamps a message is an argument.
\<close>

section \<open>Message types\<close>

text \<open>
  The enumeration has the underlying type \<open>uint8_t\<close>, and a received byte is cast to it
  unchecked, so a message can carry a type that no enumerator names.
\<close>

datatype message_type =
  HANDSHAKE | HANDSHAKE_ACK | PING | PONG | GET_PEERS | PEERS | GET_BLOCKS | BLOCKS
| GET_BLOCK_HEIGHT | BLOCK_HEIGHT | NEW_BLOCK | NEW_TRANSACTION | ERROR_MSG | DISCONNECT
| Unnamed byte

fun type_code :: "message_type \<Rightarrow> byte" where
  "type_code HANDSHAKE = 0x00"
| "type_code HANDSHAKE_ACK = 0x01"
| "type_code PING = 0x10"
| "type_code PONG = 0x11"
| "type_code GET_PEERS = 0x12"
| "type_code PEERS = 0x13"
| "type_code GET_BLOCKS = 0x20"
| "type_code BLOCKS = 0x21"
| "type_code GET_BLOCK_HEIGHT = 0x22"
| "type_code BLOCK_HEIGHT = 0x23"
| "type_code NEW_BLOCK = 0x30"
| "type_code NEW_TRANSACTION = 0x31"
| "type_code ERROR_MSG = 0xFE"
| "type_code DISCONNECT = 0xFF"
| "type_code (Unnamed b) = b"

definition named_types :: "message_type list" where
  "named_types = [HANDSHAKE, HANDSHAKE_ACK, PING, PONG, GET_PEERS, PEERS, GET_BLOCKS, BLOCKS,
     GET_BLOCK_HEIGHT, BLOCK_HEIGHT, NEW_BLOCK, NEW_TRANSACTION, ERROR_MSG, DISCONNECT]"

definition type_of_code :: "byte \<Rightarrow> message_type" where
  "type_of_code b =
     (case filter (\<lambda>t. type_code t = b) named_types of t # _ \<Rightarrow> t | [] \<Rightarrow> Unnamed b)"

fun typeToString :: "message_type \<Rightarrow> string" where
  "typeToString HANDSHAKE = ''HANDSHAKE''"
| "typeToString HANDSHAKE_ACK = ''HANDSHAKE_ACK''"
| "typeToString PING = ''PING''"
| "typeToString PONG = ''PONG''"
| "typeToString GET_PEERS = ''GET_PEERS''"
| "typeToString PEERS = ''PEERS''"
| "typeToString GET_BLOCKS = ''GET_BLOCKS''"
| "typeToString BLOCKS = ''BLOCKS''"
| "typeToString GET_BLOCK_HEIGHT = ''GET_BLOCK_HEIGHT''"
| "typeToString BLOCK_HEIGHT = ''BLOCK_HEIGHT''"
| "typeToString NEW_BLOCK = ''NEW_BLOCK''"
| "typeToString NEW_TRANSACTION = ''NEW_TRANSACTION''"
| "typeToString ERROR_MSG = ''ERROR''"
| "typeToString DISCONNECT = ''DISCONNECT''"
| "typeToString (Unnamed b) = ''UNKNOWN''"

text \<open>A value of the C++ enumeration: \<open>Unnamed\<close> only for codes that have no name.\<close>

definition proper_type :: "message_type \<Rightarrow> bool" where
  "proper_type t \<longleftrightarrow> type_of_code (type_code t) = t"

lemma code_of_type [simp]: "type_code (type_of_code b) = b"
proof (cases "filter (\<lambda>t. type_code t = b) named_types")
  case (Cons t ts)
  have "t \<in> set (filter (\<lambda>t. type_code t = b) named_types)" unfolding Cons by simp
  then have "type_code t = b" by simp
  with Cons show ?thesis by (simp add: type_of_code_def)
qed (simp add: type_of_code_def)

lemma proper_type_of_code [simp]: "proper_type (type_of_code b)"
  by (simp add: proper_type_def)

lemma named_types_proper [simp]: "t \<in> set named_types \<Longrightarrow> proper_type t"
  by (auto simp: named_types_def proper_type_def type_of_code_def)

section \<open>Messages and frames\<close>

record message =
  msg_type :: message_type
  msg_payload :: string
  msg_sender :: string
  msg_timestamp :: int

definition new_message :: "int \<Rightarrow> message_type \<Rightarrow> string \<Rightarrow> string \<Rightarrow> message" where
  "new_message now t data from =
     \<lparr>msg_type = t, msg_payload = data, msg_sender = from, msg_timestamp = now\<rparr>"

definition MAGIC_NUMBER :: u32 where "MAGIC_NUMBER = 0x424C4B43"
definition HEADER_SIZE :: nat where "HEADER_SIZE = 19"
definition MAX_PAYLOAD_SIZE :: nat where "MAX_PAYLOAD_SIZE = 10 * 1024 * 1024"
definition MAX_SENDER_ID_SIZE :: nat where "MAX_SENDER_ID_SIZE = 0xFFFF"

lemmas frame_consts = HEADER_SIZE_def MAX_PAYLOAD_SIZE_def MAX_SENDER_ID_SIZE_def

datatype frame_error = SenderTooLong | TooShort | BadMagic | PayloadTooLarge | IncompleteSender
  | IncompletePayload

definition msg_serialize :: "message \<Rightarrow> frame_error + byte list" where
  "msg_serialize m =
     (if length (msg_sender m) > MAX_SENDER_ID_SIZE then Inl SenderTooLong
      else
        let r1 = appendU32BE [] MAGIC_NUMBER;
            r2 = r1 @ [type_code (msg_type m)];
            r3 = appendU32BE r2 (of_nat (length (msg_payload m)));
            r4 = appendI64BE r3 (msg_timestamp m);
            r5 = appendU16BE r4 (of_nat (length (msg_sender m)));
            r6 = r5 @ bytes_of_string (msg_sender m)
        in Inr (r6 @ bytes_of_string (msg_payload m)))"

definition msg_deserialize :: "byte list \<Rightarrow> frame_error + message" where
  "msg_deserialize data =
     (if length data < HEADER_SIZE then Inl TooShort
      else
        let magic = readU32BE data
        in if magic \<noteq> MAGIC_NUMBER then Inl BadMagic
           else
             let t = type_of_code (data ! 4); len = unat (readU32BE (drop 5 data))
             in if len > MAX_PAYLOAD_SIZE then Inl PayloadTooLarge
                else
                  let ts = readI64BE (drop 9 data); sender_len = unat (readU16BE (drop 17 data))
                  in if length data < HEADER_SIZE + sender_len then Inl IncompleteSender
                     else
                       let from = string_of_bytes (take sender_len (drop HEADER_SIZE data));
                           payload_start = HEADER_SIZE + sender_len
                       in if length data < payload_start + len then Inl IncompletePayload
                          else Inr \<lparr>msg_type = t,
                                 msg_payload = string_of_bytes (take len (drop payload_start data)),
                                 msg_sender = from, msg_timestamp = ts\<rparr>)"

text \<open>The fixed header of a frame, and the frame's length as its header announces it.\<close>

definition frame_header :: "message \<Rightarrow> byte list" where
  "frame_header m =
     appendU16BE (appendI64BE (appendU32BE (appendU32BE [] MAGIC_NUMBER @ [type_code (msg_type m)])
       (of_nat (length (msg_payload m)))) (msg_timestamp m)) (of_nat (length (msg_sender m)))"

definition frame_length :: "byte list \<Rightarrow> nat" where
  "frame_length data = HEADER_SIZE + unat (readU16BE (drop 17 data)) + unat (readU32BE (drop 5 data))"

text \<open>The messages a node can have built or received, and the ones a receiver accepts.\<close>

definition sendable :: "message \<Rightarrow> bool" where
  "sendable m \<longleftrightarrow> proper_type (msg_type m) \<and> in_int64 (msg_timestamp m) \<and>
     length (msg_sender m) \<le> MAX_SENDER_ID_SIZE \<and> length (msg_payload m) \<le> MAX_PAYLOAD_SIZE"

lemma length_frame_header [simp]: "length (frame_header m) = 19"
  by (simp add: frame_header_def u16_wire.length_put i64_wire.length_put u32_wire.length_put)

lemma msg_serialize_eq:
  "msg_serialize m =
     (if length (msg_sender m) > MAX_SENDER_ID_SIZE then Inl SenderTooLong
      else Inr (frame_header m @ bytes_of_string (msg_sender m) @ bytes_of_string (msg_payload m)))"
  by (simp add: msg_serialize_def frame_header_def Let_def)

lemma unat_of_nat_small: "n < 2 ^ LENGTH('a) \<Longrightarrow> unat (of_nat n :: 'a::len word) = n"
  by (simp add: unsigned_of_nat take_bit_nat_eq_self)

lemma header_fields:
  assumes "in_int64 (msg_timestamp m)"
  shows "readU32BE (frame_header m @ r) = MAGIC_NUMBER"
    "(frame_header m @ r) ! 4 = type_code (msg_type m)"
    "readU32BE (drop 5 (frame_header m @ r)) = of_nat (length (msg_payload m))"
    "readI64BE (drop 9 (frame_header m @ r)) = msg_timestamp m"
    "readU16BE (drop 17 (frame_header m @ r)) = of_nat (length (msg_sender m))"
proof -
  let ?r1 = "appendU32BE [] MAGIC_NUMBER" and ?r2 = "appendU32BE [] MAGIC_NUMBER @ [type_code (msg_type m)]"
  let ?r3 = "appendU32BE ?r2 (of_nat (length (msg_payload m)))"
  let ?r4 = "appendI64BE ?r3 (msg_timestamp m)" and ?s = "of_nat (length (msg_sender m)) :: u16"
  have len: "length ?r1 = 4" "length ?r2 = 5" "length ?r3 = 9" "length ?r4 = 17"
    by (simp_all add: i64_wire.length_put u32_wire.length_put)
  have h: "frame_header m @ r = appendU16BE ?r4 ?s @ r" by (simp add: frame_header_def)
  show "readU16BE (drop 17 (frame_header m @ r)) = ?s"
    unfolding h by (rule u16_wire.get_field [OF TrueI len(4)])
  have h4: "frame_header m @ r = ?r4 @ appendU16BE [] ?s @ r"
    unfolding h by (subst u16_wire.put_append) simp
  show "readI64BE (drop 9 (frame_header m @ r)) = msg_timestamp m"
    unfolding h4 by (rule i64_wire.get_field [OF assms len(3)])
  have h3: "frame_header m @ r = ?r3 @ appendI64BE [] (msg_timestamp m) @ appendU16BE [] ?s @ r"
    unfolding h4 by (subst i64_wire.put_append) simp
  show "readU32BE (drop 5 (frame_header m @ r)) = of_nat (length (msg_payload m))"
    unfolding h3 by (rule u32_wire.get_field [OF TrueI len(2)])
  have h2: "frame_header m @ r = ?r1 @ type_code (msg_type m) # appendU32BE [] (of_nat (length (msg_payload m))) @
      appendI64BE [] (msg_timestamp m) @ appendU16BE [] ?s @ r"
    unfolding h3 by (subst u32_wire.put_append [of ?r2]) simp
  show "readU32BE (frame_header m @ r) = MAGIC_NUMBER"
    unfolding h2 by (rule u32_wire.get_put [OF TrueI])
  show "(frame_header m @ r) ! 4 = type_code (msg_type m)"
    unfolding h2 by (simp add: nth_append len(1))
qed

theorem frame_accepted:
  assumes "sendable m" "msg_serialize m = Inr bs"
  shows "msg_deserialize (bs @ rest) = Inr m" "frame_length (bs @ rest) = length bs"
proof -
  let ?s = "bytes_of_string (msg_sender m)" and ?p = "bytes_of_string (msg_payload m)"
  have bs: "bs = frame_header m @ ?s @ ?p"
    using assms by (auto simp: msg_serialize_eq sendable_def split: if_splits)
  have ts: "in_int64 (msg_timestamp m)" using assms(1) by (simp add: sendable_def)
  have l: "unat (of_nat (length (msg_payload m)) :: u32) = length (msg_payload m)"
    "unat (of_nat (length (msg_sender m)) :: u16) = length (msg_sender m)"
    using assms(1) by (intro unat_of_nat_small; simp add: sendable_def frame_consts)+
  define data where "data = frame_header m @ ?s @ ?p @ rest"
  have d: "bs @ rest = data" by (simp add: bs data_def)
  note f = header_fields [OF ts, of "?s @ ?p @ rest", folded data_def]
  have parts: "length data = 19 + length (msg_sender m) + length (msg_payload m) + length rest"
    "take (length (msg_sender m)) (drop 19 data) = ?s"
    "take (length (msg_payload m)) (drop (19 + length (msg_sender m)) data) = ?p"
    by (simp_all add: data_def)
  have "proper_type (msg_type m)" using assms(1) by (simp add: sendable_def)
  then show "msg_deserialize (bs @ rest) = Inr m"
    using assms(1) unfolding d
    by (simp add: msg_deserialize_def f l parts HEADER_SIZE_def Let_def sendable_def proper_type_def)
  show "frame_length (bs @ rest) = length bs"
    unfolding d by (simp add: frame_length_def f l HEADER_SIZE_def bs)
qed

text \<open>Conversely, a receiver accepts nothing but frames some message serialises to.\<close>

lemma frame_header_put:
  "frame_header m = appendU32BE [] MAGIC_NUMBER @ [type_code (msg_type m)]
     @ appendU32BE [] (of_nat (length (msg_payload m))) @ appendI64BE [] (msg_timestamp m)
     @ appendU16BE [] (of_nat (length (msg_sender m)))"
  unfolding frame_header_def
  by (subst u16_wire.put_append, subst i64_wire.put_append, subst (2) u32_wire.put_append) simp

lemma split_header:
  fixes bs :: "byte list"
  assumes "19 \<le> length bs"
  shows "take 4 bs @ [bs ! 4] @ take 4 (drop 5 bs) @ take 8 (drop 9 bs) @ take 2 (drop 17 bs) = take 19 bs"
proof -
  have "take 19 bs = take (4 + (1 + (4 + (8 + 2)))) bs" by simp
  also have "\<dots> = take 4 bs @ take 1 (drop 4 bs) @ take 4 (drop 5 bs) @ take 8 (drop 9 bs) @ take 2 (drop 17 bs)"
    by (simp only: take_add) (simp add: add.commute)
  also have "take 1 (drop 4 bs) = [bs ! 4]" using assms by (simp add: take_Suc hd_drop_conv_nth)
  finally show ?thesis by simp
qed

theorem accepted_is_frame:
  assumes "msg_deserialize data = Inr m"
  shows "sendable m" "msg_serialize m = Inr (take (frame_length data) data)" "frame_length data \<le> length data"
proof -
  define sl where "sl = unat (readU16BE (drop 17 data))"
  define pl where "pl = unat (readU32BE (drop 5 data))"
  have len: "19 \<le> length data" "19 + sl + pl \<le> length data" "pl \<le> MAX_PAYLOAD_SIZE"
    and magic: "readU32BE data = MAGIC_NUMBER"
    and m: "m = \<lparr>msg_type = type_of_code (data ! 4),
      msg_payload = string_of_bytes (take pl (drop (19 + sl) data)),
      msg_sender = string_of_bytes (take sl (drop 19 data)), msg_timestamp = readI64BE (drop 9 data)\<rparr>"
    using assms by (auto simp: msg_deserialize_def Let_def HEADER_SIZE_def sl_def pl_def split: if_splits)
  have l: "length (msg_sender m) = sl" "length (msg_payload m) = pl" using len by (simp_all add: m)
  have sl: "sl \<le> MAX_SENDER_ID_SIZE"
    using unsigned_less [of "readU16BE (drop 17 data)", where ?'a = nat] by (simp add: sl_def frame_consts)
  show "sendable m" using len(3) sl l i64_wire.get_dom by (simp add: sendable_def m)
  have w: "(of_nat sl :: u16) = readU16BE (drop 17 data)" "(of_nat pl :: u32) = readU32BE (drop 5 data)"
    by (simp_all add: sl_def pl_def)
  have "appendU32BE [] MAGIC_NUMBER = take 4 data" "appendU32BE [] (of_nat pl) = take 4 (drop 5 data)"
    "appendI64BE [] (msg_timestamp m) = take 8 (drop 9 data)" "appendU16BE [] (of_nat sl) = take 2 (drop 17 data)"
    unfolding w magic [symmetric] using len(1)
    by (simp_all add: u32_wire.put_get i64_wire.put_get u16_wire.put_get m)
  then have h: "frame_header m = take 19 data"
    using split_header [OF len(1)] by (simp add: frame_header_put l) (simp add: m)
  have body: "bytes_of_string (msg_sender m) = take sl (drop 19 data)"
    "bytes_of_string (msg_payload m) = take pl (drop sl (drop 19 data))"
    by (simp_all add: m add.commute)
  have "frame_header m @ bytes_of_string (msg_sender m) @ bytes_of_string (msg_payload m) =
      take (19 + (sl + pl)) data"
    unfolding h body by (simp only: take_add)
  then show "msg_serialize m = Inr (take (frame_length data) data)"
    using sl by (simp add: msg_serialize_eq l frame_length_def HEADER_SIZE_def sl_def pl_def add.assoc)
  show "frame_length data \<le> length data" using len(2) by (simp add: frame_length_def HEADER_SIZE_def sl_def pl_def)
qed

section \<open>Peer records\<close>

record peer_info =
  pi_ip :: string
  pi_port :: u16
  pi_node_id :: string
  pi_last_seen :: int

definition peer_info_serialize :: "peer_info \<Rightarrow> string" where
  "peer_info_serialize p =
     pi_ip p @ '':'' @ show_word (pi_port p) @ '':'' @ pi_node_id p @ '':'' @ show_int (pi_last_seen p)"

datatype peer_info_error = InvalidPort string | InvalidLastSeen string

definition valid_port :: "int option \<Rightarrow> bool" where
  "valid_port p \<longleftrightarrow> (case p of None \<Rightarrow> False | Some n \<Rightarrow> \<not> (n \<le> 0 \<or> n > 65535))"

definition peer_info_deserialize :: "string \<Rightarrow> peer_info_error + peer_info" where
  "peer_info_deserialize data =
     (let (ip, s1) = getline (CHR '':'') [] (Good data);
          (token, s2) = getline (CHR '':'') [] s1;
          port = parseInt token
      in if \<not> valid_port port then Inl (InvalidPort token)
         else
           let (node, s3) = getline (CHR '':'') [] s2;
               (token', s4) = getline (CHR '':'') token s3;
               seen = parseInt64 token'
           in case seen of
                None \<Rightarrow> Inl (InvalidLastSeen token')
              | Some ls \<Rightarrow> Inr \<lparr>pi_ip = ip, pi_port = word_of_int (the port), pi_node_id = node,
                             pi_last_seen = ls\<rparr>)"

section \<open>Message constructors\<close>

definition join_with :: "string \<Rightarrow> string list \<Rightarrow> string" where
  "join_with sep xs = (case xs of [] \<Rightarrow> [] | y # ys \<Rightarrow> y @ concat (map (\<lambda>z. sep @ z) ys))"

definition createHandshake :: "int \<Rightarrow> string \<Rightarrow> u16 \<Rightarrow> int \<Rightarrow> message" where
  "createHandshake now node port block_height =
     new_message now HANDSHAKE
       (node @ ''|'' @ show_word port @ ''|'' @ show_int block_height @ ''|1.0.0'') []"

definition createPing :: "int \<Rightarrow> string \<Rightarrow> message" where
  "createPing now node = new_message now PING node []"

definition createPong :: "int \<Rightarrow> string \<Rightarrow> message" where
  "createPong now node = new_message now PONG node []"

definition createGetPeers :: "int \<Rightarrow> message" where
  "createGetPeers now = new_message now GET_PEERS [] []"

definition createPeers :: "int \<Rightarrow> peer_info list \<Rightarrow> message" where
  "createPeers now ps = new_message now PEERS (join_with [CHR 0x0A] (map peer_info_serialize ps)) []"

definition createGetBlocks :: "int \<Rightarrow> int \<Rightarrow> int \<Rightarrow> message" where
  "createGetBlocks now start_height end_height =
     new_message now GET_BLOCKS (show_int start_height @ ''|'' @ show_int end_height) []"

definition createGetBlockHeight :: "int \<Rightarrow> message" where
  "createGetBlockHeight now = new_message now GET_BLOCK_HEIGHT [] []"

definition createBlockHeight :: "int \<Rightarrow> int \<Rightarrow> message" where
  "createBlockHeight now height = new_message now BLOCK_HEIGHT (show_int height) []"

definition createNewBlock :: "int \<Rightarrow> string \<Rightarrow> message" where
  "createNewBlock now serialized_block = new_message now NEW_BLOCK serialized_block []"

definition createNewTransaction :: "int \<Rightarrow> string \<Rightarrow> message" where
  "createNewTransaction now serialized_tx = new_message now NEW_TRANSACTION serialized_tx []"

definition createError :: "int \<Rightarrow> string \<Rightarrow> message" where
  "createError now error_msg = new_message now ERROR_MSG error_msg []"

definition createDisconnect :: "int \<Rightarrow> string \<Rightarrow> message" where
  "createDisconnect now reason = new_message now DISCONNECT reason []"

section \<open>Blocks on the wire\<close>

text \<open>Sequencing of steps that may throw.\<close>

definition and_then :: "'e + 'a \<Rightarrow> ('a \<Rightarrow> 'e + 'b) \<Rightarrow> 'e + 'b" where
  "and_then x f = (case x of Inl err \<Rightarrow> Inl err | Inr v \<Rightarrow> f v)"

lemma and_then_simps [simp]: "and_then (Inr v) f = f v" "and_then (Inl err) f = Inl err"
  by (simp_all add: and_then_def)

lemma and_then_Inr: "and_then x f = Inr z \<longleftrightarrow> (\<exists>v. x = Inr v \<and> f v = Inr z)"
  by (cases x) simp_all

datatype wire_error = BadNumber conv_error | NoMemory

definition lift_conv :: "conv_error + 'a \<Rightarrow> wire_error + 'a" where
  "lift_conv = map_sum BadNumber id"

lemma lift_conv_simps [simp]: "lift_conv (Inr v) = Inr v" "lift_conv (Inl err) = Inl (BadNumber err)"
  by (simp_all add: lift_conv_def)

lemma lift_conv_Inr [simp]: "lift_conv x = Inr v \<longleftrightarrow> x = Inr v"
  by (cases x) simp_all

definition read_i32 :: "char \<Rightarrow> string \<Rightarrow> istream \<Rightarrow> wire_error + int \<times> string \<times> istream" where
  "read_i32 d token s = lift_conv (read_num stoi d token s)"

definition read_i64 :: "char \<Rightarrow> string \<Rightarrow> istream \<Rightarrow> wire_error + int \<times> string \<times> istream" where
  "read_i64 d token s = lift_conv (read_num stoll d token s)"

definition read_u64 :: "char \<Rightarrow> string \<Rightarrow> istream \<Rightarrow> wire_error + u64 \<times> string \<times> istream" where
  "read_u64 d token s = lift_conv (read_num stoull d token s)"

definition wire_tx :: "string \<Rightarrow> transaction \<Rightarrow> string" where
  "wire_tx d t =
     sender t @ d @ receiver t @ d @ show_int (amount t) @ d @ show_int (timestamp t) @ d @
     signature t @ d @ sender_pubkey t @ d @ show_word (nonce t)"

definition block_serialize :: "block \<Rightarrow> string" where
  "block_serialize b =
     show_int (b_index b) @ ''|'' @ show_int (b_timestamp b) @ ''|'' @ b_previous_hash b @ ''|'' @
     b_hash b @ ''|'' @ b_merkle_root b @ ''|'' @ show_int (b_difficulty b) @ ''|'' @
     show_int (b_nonce b) @ ''|'' @ show_nat (length (b_transactions b)) @
     concat (map (\<lambda>t. ''|'' @ wire_tx '','' t) (b_transactions b))"

text \<open>One transaction out of a stream; the token variable is the caller's, and a read that fails
  leaves it as it was.\<close>

definition read_wire_tx ::
  "char \<Rightarrow> string \<Rightarrow> string \<Rightarrow> wire_error + transaction \<times> string" where
  "read_wire_tx d token data =
     (let (from, s1) = getline d [] (Good data);
          (to, s2) = getline d [] s1
      in and_then (read_i64 d token s2) (\<lambda>(val, token, s3).
         and_then (read_i64 d token s3) (\<lambda>(tx_timestamp, token, s4).
           let (sig, s5) = getline d [] s4;
               (pubkey, s6) = getline d [] s5
           in and_then (read_u64 d token s6) (\<lambda>(tx_nonce, token, s7).
                Inr (setSenderPublicKey pubkey (restore_transaction from to val tx_timestamp sig tx_nonce),
                     token)))))"

fun read_wire_txs :: "nat \<Rightarrow> string \<Rightarrow> istream \<Rightarrow> wire_error + transaction list" where
  "read_wire_txs 0 token s = Inr []"
| "read_wire_txs (Suc n) token s =
     (let (tx_data, s') = getline (CHR ''|'') [] s
      in and_then (read_wire_tx (CHR '','') token tx_data) (\<lambda>(t, token').
         and_then (read_wire_txs n token' s') (\<lambda>ts. Inr (t # ts))))"

text \<open>\<open>can_reserve n\<close> says whether the allocator grants room for \<open>n\<close> pointers; if not,
  \<open>reserve\<close> throws.\<close>

definition block_deserialize :: "(nat \<Rightarrow> bool) \<Rightarrow> string \<Rightarrow> wire_error + block" where
  "block_deserialize can_reserve data =
     and_then (read_i32 (CHR ''|'') [] (Good data)) (\<lambda>(index, token, s1).
     and_then (read_i64 (CHR ''|'') token s1) (\<lambda>(tstamp, token, s2).
       let (prev_hash, s3) = getline (CHR ''|'') [] s2;
           (hash, s4) = getline (CHR ''|'') [] s3;
           (merkle_root, s5) = getline (CHR ''|'') [] s4
       in and_then (read_i32 (CHR ''|'') token s5) (\<lambda>(diff, token, s6).
          and_then (read_i32 (CHR ''|'') token s6) (\<lambda>(nonce, token, s7).
          and_then (read_u64 (CHR ''|'') token s7) (\<lambda>(tx_count, token, s8).
            if \<not> can_reserve (unat tx_count) then Inl NoMemory
            else and_then (read_wire_txs (unat tx_count) token s8) (\<lambda>txs.
              Inr (setMinedState nonce hash
                (setTransactions (map Some txs) (new_block index prev_hash diff tstamp)))))))))"

definition tx_serialize :: "transaction \<Rightarrow> string" where
  "tx_serialize t = wire_tx ''|'' t"

definition tx_deserialize :: "string \<Rightarrow> wire_error + transaction" where
  "tx_deserialize data = map_sum id fst (read_wire_tx (CHR ''|'') [] data)"

section \<open>Round trips of the text formats\<close>

text \<open>Texts that survive the wire: the delimiters do not occur in the free fields.\<close>

definition tx_wire_clean :: "char set \<Rightarrow> transaction \<Rightarrow> bool" where
  "tx_wire_clean ds t \<longleftrightarrow> in_int64 (amount t) \<and> in_int64 (timestamp t) \<and>
     (\<forall>s \<in> {sender t, receiver t, signature t, sender_pubkey t}. set s \<inter> ds = {})"

definition block_wire_clean :: "block \<Rightarrow> bool" where
  "block_wire_clean b \<longleftrightarrow> in_int32 (b_index b) \<and> in_int64 (b_timestamp b) \<and> in_int32 (b_difficulty b) \<and>
     in_int32 (b_nonce b) \<and> CHR ''|'' \<notin> set (b_previous_hash b) \<and> CHR ''|'' \<notin> set (b_hash b) \<and>
     root_current b \<and> length (b_transactions b) < 2 ^ 64 \<and>
     list_all (tx_wire_clean {CHR ''|'', CHR '',''}) (b_transactions b)"

lemma delim_not_digit: "\<not> is_digit (CHR ''|'')" "\<not> is_digit (CHR '','')" "\<not> is_digit (CHR '':'')"
  "\<not> is_digit (CHR 0x0A)"
  by (simp_all add: is_digit_def)

lemma show_word_clean: "\<not> is_digit d \<Longrightarrow> d \<notin> set (show_word w)"
  by (auto simp: show_word_def dest: set_show_nat)

lemma read_wire_tx_text:
  assumes "tx_wire_clean ds t" "d \<in> ds" "\<not> is_digit d" "d \<noteq> CHR ''-''"
  shows "\<exists>token'. read_wire_tx d token (wire_tx [d] t) = Inr (t, token')"
proof -
  have "d \<notin> set (sender t)" "d \<notin> set (receiver t)" "d \<notin> set (signature t)" "d \<notin> set (sender_pubkey t)"
    "in_int64 (amount t)" "in_int64 (timestamp t)"
    using assms(1,2) by (auto simp: tx_wire_clean_def)
  then show ?thesis
    using assms(3,4)
    by (simp add: read_wire_tx_def wire_tx_def getline_delim read_i64_def read_u64_def
        int64_text.read_field uint64_text.read_last_field restore_transaction_def
        setSenderPublicKey_def)
qed

lemma tx_serialize_roundtrip:
  assumes "tx_wire_clean {CHR ''|''} t"
  shows "tx_deserialize (tx_serialize t) = Inr t"
  using read_wire_tx_text [OF assms, of "CHR ''|''" "[]"] delim_not_digit
  by (auto simp: tx_deserialize_def tx_serialize_def)

lemma wire_tx_no_bar:
  assumes "tx_wire_clean {CHR ''|'', CHR '',''} t"
  shows "CHR ''|'' \<notin> set (wire_tx '','' t)"
  using assms delim_not_digit int64_text.show_no_delim [of "CHR ''|''"]
  by (auto simp: tx_wire_clean_def wire_tx_def show_word_clean)

lemma wire_tx_nonempty: "wire_tx '','' t \<noteq> []"
  by (simp add: wire_tx_def)

text \<open>The list of transactions, from the stream behind the count.\<close>

fun txs_stream :: "transaction list \<Rightarrow> istream \<Rightarrow> bool" where
  "txs_stream [] s \<longleftrightarrow> True"
| "txs_stream ts s \<longleftrightarrow> s = Good (join_with ''|'' (map (wire_tx '','') ts))"

lemma read_wire_txs_text:
  "list_all (tx_wire_clean {CHR ''|'', CHR '',''}) ts \<Longrightarrow> txs_stream ts s \<Longrightarrow>
     read_wire_txs (length ts) token s = Inr ts"
proof (induction ts arbitrary: token s)
  case (Cons t ts)
  have t: "tx_wire_clean {CHR ''|'', CHR '',''} t" using Cons.prems(1) by simp
  obtain token' where tx: "read_wire_tx (CHR '','') token (wire_tx '','' t) = Inr (t, token')"
    using read_wire_tx_text [OF t, of "CHR '',''" token] delim_not_digit by auto
  note bar = wire_tx_no_bar [OF t]
  have line: "\<exists>s'. getline (CHR ''|'') [] s = (wire_tx '','' t, s') \<and> txs_stream ts s'"
  proof (cases ts)
    case Nil
    then show ?thesis using Cons.prems(2) bar
      by (simp add: join_with_def getline_last wire_tx_nonempty)
  next
    case (Cons u us)
    then show ?thesis using \<open>txs_stream (t # ts) s\<close> bar
      by (simp add: join_with_def getline_delim)
  qed
  then obtain s' where "getline (CHR ''|'') [] s = (wire_tx '','' t, s')" "txs_stream ts s'" by blast
  then show ?case using tx Cons.IH [of s' token'] Cons.prems(1) by simp
qed simp

lemma root_current_clean: "root_current b \<Longrightarrow> CHR ''|'' \<notin> set (b_merkle_root b)"
  using calculateMerkleRoot_lower_hex [of "map tx_hash (b_transactions b)"]
  by (auto simp: root_current_def tx_root_def list_all_iff is_lower_hex_def is_digit_def)

lemma rebuilt_block:
  "root_current b \<Longrightarrow> setMinedState (b_nonce b) (b_hash b) (setTransactions (map Some (b_transactions b))
     (new_block (b_index b) (b_previous_hash b) (b_difficulty b) (b_timestamp b))) = b"
  by (simp add: setMinedState_def setTransactions_def new_block_def b_calculateMerkleRoot_eq root_current_def
      map_filter_def comp_def)

theorem block_serialize_roundtrip:
  assumes "block_wire_clean b" "can_reserve (length (b_transactions b))"
  shows "block_deserialize can_reserve (block_serialize b) = Inr b"
proof -
  let ?ts = "b_transactions b"
  let ?n = "of_nat (length ?ts) :: u64"
  have n: "unat ?n = length ?ts" "show_nat (length ?ts) = show_word ?n"
    using assms(1) unat_of_nat_small [of "length ?ts", where 'a = 64]
    by (simp_all add: block_wire_clean_def show_word_def)
  have tail: "\<exists>s. read_u64 (CHR ''|'') token (Good (show_word ?n @ concat (map (\<lambda>t. ''|'' @ wire_tx '','' t) ?ts)))
      = Inr (?n, show_word ?n, s) \<and> txs_stream ?ts s" for token
  proof (cases ?ts)
    case Nil
    then show ?thesis
      using uint64_text.read_last_field [where x = ?n and d = "CHR ''|''"] delim_not_digit by (simp add: read_u64_def)
  next
    case (Cons u us)
    then show ?thesis
      using uint64_text.read_field [where x = ?n and d = "CHR ''|''"] delim_not_digit
      by (simp add: read_u64_def join_with_def comp_def)
  qed
  have txs: "txs_stream ?ts s \<Longrightarrow> read_wire_txs (length ?ts) token s = Inr ?ts" for token s
    using read_wire_txs_text assms(1) by (simp add: block_wire_clean_def)
  have c: "root_current b" "in_int32 (b_index b)" "in_int64 (b_timestamp b)" "in_int32 (b_difficulty b)"
    "in_int32 (b_nonce b)" "CHR ''|'' \<notin> set (b_previous_hash b)" "CHR ''|'' \<notin> set (b_hash b)"
    using assms(1) by (simp_all add: block_wire_clean_def)
  obtain s where s: "read_u64 (CHR ''|'') (show_int (b_nonce b))
      (Good (show_word ?n @ concat (map (\<lambda>t. ''|'' @ wire_tx '','' t) ?ts))) = Inr (?n, show_word ?n, s)"
    "txs_stream ?ts s" using tail by blast
  show ?thesis
    using s txs [OF s(2)] c root_current_clean [OF c(1)] rebuilt_block [OF c(1)] assms(2) delim_not_digit
    by (simp add: block_deserialize_def block_serialize_def n read_i32_def read_i64_def
        int32_text.read_field int64_text.read_field getline_delim)
qed

subsection \<open>What every deserialised value satisfies\<close>

lemma read_num_range:
  "read_i32 d tok s = Inr v \<Longrightarrow> in_int32 (fst v)" "read_i64 d tok s = Inr v \<Longrightarrow> in_int64 (fst v)"
  by (auto simp: read_i32_def read_i64_def read_num_def stoi_def stoll_def split: sum.splits option.splits
      prod.splits if_splits)

lemma read_wire_tx_range:
  assumes "read_wire_tx d tok data = Inr (t, tok')"
  shows "in_int64 (amount t)" "in_int64 (timestamp t)"
  using assms
  by (auto simp: read_wire_tx_def and_then_Inr restore_transaction_def setSenderPublicKey_def Let_def
      case_prod_beta dest: read_num_range)

lemma read_wire_txs_range:
  "read_wire_txs n tok s = Inr ts \<Longrightarrow>
     length ts = n \<and> list_all (\<lambda>t. in_int64 (amount t) \<and> in_int64 (timestamp t)) ts"
proof (induction n tok s arbitrary: ts rule: read_wire_txs.induct)
  case (2 n tok s)
  then show ?case
    by (fastforce simp: and_then_Inr split: prod.splits dest: read_wire_tx_range)
qed simp

lemma block_deserialize_typed:
  assumes "block_deserialize can_reserve data = Inr b"
  shows "in_int32 (b_index b) \<and> in_int64 (b_timestamp b) \<and> in_int32 (b_difficulty b) \<and>
    in_int32 (b_nonce b) \<and> root_current b \<and> can_reserve (length (b_transactions b)) \<and>
    list_all (\<lambda>t. in_int64 (amount t) \<and> in_int64 (timestamp t)) (b_transactions b)"
  using assms
  by (auto simp: block_deserialize_def and_then_Inr case_prod_beta Let_def setMinedState_def setTransactions_def
      new_block_def b_calculateMerkleRoot_eq root_current_def map_filter_def comp_def
      split: if_splits dest!: read_num_range read_wire_txs_range)

text \<open>A failed read keeps the old token, so one number is enough to pass for a block: the count of
  transactions is that number again, and each of them repeats it.\<close>

lemma one_number_block:
  "\<exists>b. block_deserialize (\<lambda>_. True) ''1'' = Inr b \<and> b_index b = 1 \<and> b_nonce b = 1 \<and>
     map amount (b_transactions b) = [1] \<and> map sender (b_transactions b) = [[]]"
proof -
  have one: "stoi ''1'' = Inr 1" "stoll ''1'' = Inr 1" "stoull ''1'' = Inr 1" by code_simp+
  have "getline (CHR ''|'') [] (Good ''1'') = (''1'', AtEof)" by (rule getline_last) simp_all
  then show ?thesis
    by (simp add: block_deserialize_def read_i32_def read_i64_def read_u64_def read_num_def one getline_end
        read_wire_tx_def restore_transaction_def setSenderPublicKey_def setMinedState_def setTransactions_def
        new_block_def b_calculateMerkleRoot_eq map_filter_def)
qed

subsection \<open>Peer records\<close>

lemma peer_info_roundtrip:
  assumes "CHR '':'' \<notin> set (pi_ip p)" "CHR '':'' \<notin> set (pi_node_id p)" "0 < pi_port p"
    and "in_int64 (pi_last_seen p)"
  shows "peer_info_deserialize (peer_info_serialize p) = Inr p"
proof -
  let ?port = "show_word (pi_port p)"
  have r: "0 \<le> uint (pi_port p)" "uint (pi_port p) < 65536"
    using unsigned_less [of "pi_port p", where ?'a = int] by simp_all
  then have "in_int32 (uint (pi_port p))" unfolding in_int32_def int_bounds by linarith
  from parseInt_show_int [OF this] have parse: "parseInt ?port = Some (uint (pi_port p))"
    by (simp add: show_word_def show_int_def)
  moreover have "valid_port (Some (uint (pi_port p)))"
    using unsigned_less [of "pi_port p", where ?'a = int] assms(3) by (simp add: valid_port_def word_less_def)
  moreover have "CHR '':'' \<notin> set ?port" by (rule show_word_clean) (rule delim_not_digit)
  moreover have "CHR '':'' \<notin> set (show_int (pi_last_seen p))"
    using int64_text.show_no_delim [of "CHR '':''"] delim_not_digit by simp
  ultimately show ?thesis
    using assms
    by (simp add: peer_info_deserialize_def peer_info_serialize_def getline_delim getline_last
        parseInt64_show_int int64_text.show_nonempty)
qed

lemma port_word_positive: "0 < n \<Longrightarrow> n \<le> 65535 \<Longrightarrow> 0 < (word_of_int n :: u16)"
  by (simp add: word_less_def uint_word_of_int)

lemma peer_info_port_valid:
  "peer_info_deserialize data = Inr p \<Longrightarrow> 0 < pi_port p \<and> in_int64 (pi_last_seen p)"
  by (auto simp: peer_info_deserialize_def Let_def valid_port_def port_word_positive parseInt64_range split: prod.splits
      if_splits option.splits)

end
