(* ===== verification/P2PPeer.thy ===== *)
theory P2PPeer
  imports P2PMessage
begin

text \<open>
  The \<open>Peer\<close> class of \<open>P2PNode.h\<close> and \<open>P2PNode.cpp\<close>: the fields a connection
  carries, its address as the peer advertises it, the loop that hands a frame to the operating
  system, and the incremental reader that cuts the received bytes into messages.  The descriptor
  \<open>-1\<close> is the invalid socket.  The queue \<open>outgoing_queue\<close> is never used by the code and is
  left out, and so are the mutexes and atomics: each operation of this theory is a single step.
\<close>

section \<open>Peers\<close>

datatype peer_state = CONNECTING | HANDSHAKING | CONNECTED | DISCONNECTING | DISCONNECTED

text \<open>The order of the enumerators is the order of a connection's life.\<close>

fun state_rank :: "peer_state \<Rightarrow> nat" where
  "state_rank CONNECTING = 0"
| "state_rank HANDSHAKING = 1"
| "state_rank CONNECTED = 2"
| "state_rank DISCONNECTING = 3"
| "state_rank DISCONNECTED = 4"

lemma state_rank_inject [simp]: "state_rank s = state_rank t \<longleftrightarrow> s = t"
  by (cases s; cases t) simp_all

instantiation peer_state :: linorder
begin

definition less_eq_peer_state :: "peer_state \<Rightarrow> peer_state \<Rightarrow> bool" where
  "less_eq_peer_state s t \<longleftrightarrow> state_rank s \<le> state_rank t"

definition less_peer_state :: "peer_state \<Rightarrow> peer_state \<Rightarrow> bool" where
  "less_peer_state s t \<longleftrightarrow> state_rank s < state_rank t"

instance
  by standard (auto simp: less_eq_peer_state_def less_peer_state_def)

end

record peer =
  p_socket :: int
  p_ip :: string
  p_port :: u16
  p_listen_port :: u16
  p_state :: peer_state
  p_last_seen :: int
  p_connected_at :: int
  p_block_height :: int
  p_node_id :: string
  p_version :: string
  p_recv_buffer :: "byte list"

definition INVALID_SOCK :: int where "INVALID_SOCK = -1"

definition new_peer :: "int \<Rightarrow> int \<Rightarrow> string \<Rightarrow> u16 \<Rightarrow> peer" where
  "new_peer now sock ip port =
     \<lparr>p_socket = sock, p_ip = ip, p_port = port, p_listen_port = 0, p_state = CONNECTING,
      p_last_seen = now, p_connected_at = now, p_block_height = 0, p_node_id = [], p_version = [],
      p_recv_buffer = []\<rparr>"

definition getAdvertisedPort :: "peer \<Rightarrow> u16" where
  "getAdvertisedPort p = (let advertised = p_listen_port p in if advertised \<noteq> 0 then advertised else p_port p)"

definition endpoint :: "string \<Rightarrow> u16 \<Rightarrow> string" where
  "endpoint ip port = ip @ '':'' @ show_word port"

definition getAdvertisedAddress :: "peer \<Rightarrow> string" where
  "getAdvertisedAddress p = endpoint (p_ip p) (getAdvertisedPort p)"

definition getAddress :: "peer \<Rightarrow> string" where
  "getAddress p = endpoint (p_ip p) (p_port p)"

definition toPeerInfo :: "peer \<Rightarrow> peer_info" where
  "toPeerInfo p =
     \<lparr>pi_ip = p_ip p, pi_port = getAdvertisedPort p, pi_node_id = p_node_id p, pi_last_seen = p_last_seen p\<rparr>"

definition updateLastSeen :: "int \<Rightarrow> peer \<Rightarrow> peer" where
  "updateLastSeen now p = p\<lparr>p_last_seen := now\<rparr>"

section \<open>Sending\<close>

text \<open>
  The loop over \<open>::send\<close>: each answer is the number of bytes taken (at most the rest of the
  frame) or \<open>-1\<close>.  The result is the return value and the number of bytes handed over;
  \<open>None\<close> when the answers run out, that is while the call still blocks.
\<close>

fun send_loop :: "int list \<Rightarrow> nat \<Rightarrow> nat \<Rightarrow> (bool \<times> nat) option" where
  "send_loop answers total_sent total_size =
     (if total_sent < total_size
      then (case answers of
              [] \<Rightarrow> None
            | sent # rest \<Rightarrow>
                if sent = -1 then Some (False, total_sent)
                else send_loop rest (total_sent + nat sent) total_size)
      else Some (True, total_sent))"

declare send_loop.simps [simp del]

text \<open>\<open>Peer::send\<close>, given the answers: the frame, if it was handed over completely.\<close>

definition peer_send :: "int list \<Rightarrow> message \<Rightarrow> peer \<Rightarrow> frame_error + (bool \<times> byte list) option" where
  "peer_send answers m p =
     (if p_socket p = INVALID_SOCK then Inr (Some (False, []))
      else case msg_serialize m of
             Inl err \<Rightarrow> Inl err
           | Inr data \<Rightarrow> Inr (map_option (\<lambda>(ok, n). (ok, take n data)) (send_loop answers 0 (length data))))"

lemma send_loop_true:
  "send_loop answers done_n goal = Some (True, n) \<Longrightarrow> goal \<le> n"
proof (induction answers done_n goal rule: send_loop.induct)
  case (1 answers done_n goal)
  then show ?case
    by (subst (asm) (2) send_loop.simps) (auto split: if_splits list.splits)
qed

lemma peer_send_complete:
  assumes "peer_send answers m p = Inr (Some (True, bs))"
  shows "msg_serialize m = Inr bs"
  using assms send_loop_true
  by (fastforce simp: peer_send_def split: if_splits sum.splits)

section \<open>The incremental reader\<close>

datatype receive_status = Message | Incomplete | Closed

definition MAX_FRAME_SIZE :: nat where
  "MAX_FRAME_SIZE = HEADER_SIZE + 0xFFFF + MAX_PAYLOAD_SIZE"

definition MAX_MESSAGES_PER_ROUND :: nat where "MAX_MESSAGES_PER_ROUND = 32"

text \<open>The out-parameter \<open>msg\<close> is threaded through: it changes only when a message is parsed.\<close>

definition extractMessage :: "int \<Rightarrow> message \<Rightarrow> peer \<Rightarrow> receive_status \<times> message \<times> peer" where
  "extractMessage now msg p =
     (let buf = p_recv_buffer p
      in if length buf < HEADER_SIZE then (Incomplete, msg, p)
         else if readU32BE buf \<noteq> MAGIC_NUMBER then (Closed, msg, p)
         else
           let payload_len = unat (readU32BE (drop 5 buf))
           in if payload_len > MAX_PAYLOAD_SIZE then (Closed, msg, p)
              else
                let sender_len = unat (readU16BE (drop 17 buf));
                    frame_size = HEADER_SIZE + sender_len + payload_len
                in if length buf < frame_size then (Incomplete, msg, p)
                   else (case msg_deserialize (take frame_size buf) of
                           Inl _ \<Rightarrow> (Closed, msg, p)
                         | Inr m \<Rightarrow> (Message, m, updateLastSeen now (p\<lparr>p_recv_buffer := drop frame_size buf\<rparr>))))"

definition nextBufferedMessage :: "int \<Rightarrow> message \<Rightarrow> peer \<Rightarrow> receive_status \<times> message \<times> peer" where
  "nextBufferedMessage now msg p =
     (if p_socket p = INVALID_SOCK then (Closed, msg, p) else extractMessage now msg p)"

text \<open>\<open>chunk\<close> is what the single \<open>recv\<close> delivered: \<open>None\<close> for an error or the end of the
  stream, else at most 4096 bytes.\<close>

definition pollReceive ::
  "int \<Rightarrow> byte list option \<Rightarrow> message \<Rightarrow> peer \<Rightarrow> receive_status \<times> message \<times> peer" where
  "pollReceive now chunk msg p =
     (if p_socket p = INVALID_SOCK then (Closed, msg, p)
      else (case chunk of
              None \<Rightarrow> (Closed, msg, p)
            | Some received \<Rightarrow>
                let p' = p\<lparr>p_recv_buffer := p_recv_buffer p @ received\<rparr>
                in if length (p_recv_buffer p') > MAX_FRAME_SIZE then (Closed, msg, p')
                   else extractMessage now msg p'))"

section \<open>The reader against the byte stream\<close>

text \<open>What a receiver is due: the messages of a byte stream up to the first malformed frame, and the
  bytes left over.\<close>

function parse_stream :: "byte list \<Rightarrow> message list \<times> byte list" where
  "parse_stream bs =
     (if frame_length bs \<le> length bs \<and> HEADER_SIZE \<le> length bs
      then case msg_deserialize bs of
             Inl _ \<Rightarrow> ([], bs)
           | Inr m \<Rightarrow> (let (ms, r) = parse_stream (drop (frame_length bs) bs) in (m # ms, r))
      else ([], bs))"
  by pat_completeness auto
termination
  by (relation "measure length") (auto simp: frame_length_def HEADER_SIZE_def)

declare parse_stream.simps [simp del]

lemma read_append:
  "4 \<le> length p \<Longrightarrow> readU32BE (p @ x) = readU32BE p"
  "2 \<le> length p \<Longrightarrow> readU16BE (p @ x) = readU16BE p"
  "8 \<le> length p \<Longrightarrow> readI64BE (p @ x) = readI64BE p"
  by (auto simp: readU32BE_def readU16BE_def readI64BE_def nth_append)

lemma frame_length_append: "HEADER_SIZE \<le> length a \<Longrightarrow> frame_length (a @ x) = frame_length a"
  by (simp add: frame_length_def HEADER_SIZE_def read_append)

lemma msg_deserialize_append:
  assumes "HEADER_SIZE \<le> length a" "frame_length a \<le> length a"
  shows "msg_deserialize (a @ x) = msg_deserialize a"
  using assms
  by (simp add: msg_deserialize_def frame_length_def HEADER_SIZE_def read_append nth_append Let_def)

lemma parse_stream_append:
  "parse_stream (a @ b) = (case parse_stream a of (ms, r) \<Rightarrow>
     (case parse_stream (r @ b) of (ms', r') \<Rightarrow> (ms @ ms', r')))"
proof (induction a rule: parse_stream.induct)
  case (1 a)
  show ?case
  proof (cases "frame_length a \<le> length a \<and> HEADER_SIZE \<le> length a")
    case whole: True
    show ?thesis
    proof (cases "msg_deserialize a")
      case (Inr m)
      have "parse_stream (a @ b) = (case parse_stream (drop (frame_length a) a @ b) of (ms, r) \<Rightarrow> (m # ms, r))"
        using whole Inr
        by (subst parse_stream.simps) (simp add: frame_length_append msg_deserialize_append)
      moreover have "parse_stream a = (case parse_stream (drop (frame_length a) a) of (ms, r) \<Rightarrow> (m # ms, r))"
        using whole Inr by (subst parse_stream.simps) simp
      ultimately show ?thesis using "1.IH" [OF whole Inr] by (simp split: prod.splits)
    next
      case (Inl err)
      then have "parse_stream a = ([], a)" using whole by (subst parse_stream.simps) simp
      then show ?thesis by (simp split: prod.splits)
    qed
  next
    case False
    then have "parse_stream a = ([], a)" by (subst parse_stream.simps) auto
    then show ?thesis by (simp split: prod.splits)
  qed
qed

text \<open>A sequence of frames parses to the messages they were made of.\<close>

lemma parse_stream_frame:
  assumes "sendable m" "msg_serialize m = Inr bs"
  shows "parse_stream (bs @ rest) = (case parse_stream rest of (ms, r) \<Rightarrow> (m # ms, r))"
proof -
  note f = frame_accepted [OF assms, of rest]
  have "HEADER_SIZE \<le> length bs"
    using assms by (auto simp: msg_serialize_eq HEADER_SIZE_def split: if_splits)
  then show ?thesis by (subst parse_stream.simps) (simp add: f)
qed

lemma parse_stream_frames:
  "list_all2 (\<lambda>m bs. sendable m \<and> msg_serialize m = Inr bs) ms bss \<Longrightarrow> parse_stream (concat bss) = (ms, [])"
proof (induction ms bss rule: list_all2_induct)
  case Nil
  then show ?case by (subst parse_stream.simps) (simp add: HEADER_SIZE_def)
next
  case (Cons m ms bs bss)
  then show ?case using parse_stream_frame [of m bs "concat bss"] by simp
qed

lemma deserialize_frame:
  assumes "HEADER_SIZE \<le> length buf" "frame_length buf \<le> length buf"
  shows "msg_deserialize (take (frame_length buf) buf) = msg_deserialize buf"
proof -
  have h: "HEADER_SIZE \<le> length (take (frame_length buf) buf)" using assms by (simp add: frame_length_def)
  then have "frame_length (take (frame_length buf) buf) = frame_length buf"
    using frame_length_append [OF h, of "drop (frame_length buf) buf"] by simp
  then show ?thesis
    using msg_deserialize_append [OF h, of "drop (frame_length buf) buf"] assms by simp
qed

text \<open>One extraction is one step of the specification.\<close>

lemma extractMessage_iff:
  "extractMessage now msg p = (Message, m, p') \<longleftrightarrow>
     (let buf = p_recv_buffer p
      in HEADER_SIZE \<le> length buf \<and> frame_length buf \<le> length buf \<and> msg_deserialize buf = Inr m \<and>
         p' = updateLastSeen now (p\<lparr>p_recv_buffer := drop (frame_length buf) buf\<rparr>))"
proof -
  let ?buf = "p_recv_buffer p"
  note prefix = deserialize_frame [of ?buf]
  have ok: "readU32BE ?buf = MAGIC_NUMBER" "unat (readU32BE (drop 5 ?buf)) \<le> MAX_PAYLOAD_SIZE"
    if "msg_deserialize ?buf = Inr m"
    using that by (auto simp: msg_deserialize_def Let_def split: if_splits)
  show ?thesis
    using prefix ok
    by (auto simp: extractMessage_def Let_def frame_length_def not_le split: sum.splits if_splits)
qed

lemma extractMessage_parse:
  "extractMessage now msg p = (Message, m, p') \<Longrightarrow>
     parse_stream (p_recv_buffer p) = (case parse_stream (p_recv_buffer p') of (ms, r) \<Rightarrow> (m # ms, r))"
  unfolding extractMessage_iff Let_def
  by (subst parse_stream.simps) (simp add: updateLastSeen_def)

lemma extractMessage_stop:
  "extractMessage now msg p = (s, m, p') \<Longrightarrow> s \<noteq> Message \<Longrightarrow>
     m = msg \<and> p' = p \<and> parse_stream (p_recv_buffer p) = ([], p_recv_buffer p)"
proof -
  assume e: "extractMessage now msg p = (s, m, p')" and s: "s \<noteq> Message"
  have "\<not> (HEADER_SIZE \<le> length (p_recv_buffer p) \<and> frame_length (p_recv_buffer p) \<le> length (p_recv_buffer p) \<and>
      msg_deserialize (p_recv_buffer p) = Inr v)" for v
    using extractMessage_iff [of now msg p v "updateLastSeen now (p\<lparr>p_recv_buffer :=
        drop (frame_length (p_recv_buffer p)) (p_recv_buffer p)\<rparr>)"] e s by (auto simp: Let_def)
  then have "parse_stream (p_recv_buffer p) = ([], p_recv_buffer p)"
    by (subst parse_stream.simps) (auto split: sum.splits)
  moreover have "m = msg \<and> p' = p"
    using e s by (auto simp: extractMessage_def Let_def split: if_splits sum.splits)
  ultimately show "m = msg \<and> p' = p \<and> parse_stream (p_recv_buffer p) = ([], p_recv_buffer p)" by simp
qed

end
