(* ===== verification/P2PNode.thy ===== *)
theory P2PNode
  imports P2PPeer Blockchain "HOL-Library.AList"
begin

text \<open>
  The node of \<open>P2PNode.cpp\<close>: its record, every operation on the peer table, the sync latch and
  the gossip caches, starting and stopping.  The handlers and the worker threads are in the theory
  \<open>P2PHandlers\<close>.

  A \<open>shared_ptr<Peer>\<close> is an index into the node's peer objects; the map \<open>peers\<close> holds
  indices, and an object stays readable after it left the map, as a handler that still holds the
  pointer sees it.  The map is an association list in the order in which the code iterates over it.
  What the operating system answers, the order of iteration of the two hash sets, the allocator and
  the registered callbacks are fields of the environment; frames the system took over and callback
  invocations are appended to logs.  One clock reading serves a whole operation.  The sum errors of
  \<open>Peer::send\<close> cannot occur here: no message built by the node has a sender id.
\<close>

section \<open>State\<close>

record p2p_config =
  listen_port :: u16
  max_peers :: nat
  min_peers :: nat
  ping_interval :: int
  peer_timeout :: int
  sync_interval :: int
  sync_timeout :: int
  seed_nodes :: "string list"

definition default_config :: p2p_config where
  "default_config =
     \<lparr>listen_port = 8333, max_peers = 25, min_peers = 3, ping_interval = 30000, peer_timeout = 90000,
      sync_interval = 60000, sync_timeout = 30000, seed_nodes = []\<rparr>"

datatype node_event =
  PeerConnected nat | PeerDisconnected nat | NewBlock block | NewTransaction transaction
| SyncProgress int

record environment =
  os_send :: "peer \<Rightarrow> message \<Rightarrow> int list"
  os_connect :: "string \<Rightarrow> u16 \<Rightarrow> int option"
  os_listen :: bool
  os_port :: u16
  iter_order :: "string list \<Rightarrow> string list"
  can_reserve :: "nat \<Rightarrow> bool"
  onNewBlock :: "block \<Rightarrow> blockchain \<Rightarrow> blockchain"
  onNewTransaction :: "transaction \<Rightarrow> blockchain \<Rightarrow> blockchain"

record node =
  node_id :: string
  config :: p2p_config
  ledger :: blockchain
  listening :: bool
  running :: bool
  syncing :: bool
  objs :: "nat \<Rightarrow> peer"
  next_obj :: nat
  peers :: "(string \<times> nat) list"
  known_blocks :: "string list"
  known_txs :: "string list"
  sync_peer :: string
  sync_deadline :: int
  next_round :: int
  outbox :: "(nat \<times> message) list"
  events :: "node_event list"

definition no_peer :: peer where "no_peer = new_peer 0 (-1) [] 0"

text \<open>\<open>generateNodeId\<close>: two random words as 32 hexadecimal digits.\<close>

definition generateNodeId :: "u64 \<Rightarrow> u64 \<Rightarrow> string" where
  "generateNodeId a b = hex_bytes (be_bytes 8 a @ be_bytes 8 b)"

text \<open>The constructor; \<open>own_id\<close> is the random identifier.\<close>

definition new_node :: "string \<Rightarrow> blockchain \<Rightarrow> p2p_config \<Rightarrow> node" where
  "new_node own_id c cfg =
     \<lparr>node_id = own_id, config = cfg, ledger = c, listening = False, running = False, syncing = False,
      objs = (\<lambda>_. no_peer), next_obj = 0, peers = [], known_blocks = [], known_txs = [],
      sync_peer = [], sync_deadline = 0, next_round = 0, outbox = [], events = []\<rparr>"

definition chain_size :: "node \<Rightarrow> int" where
  "chain_size st = int (length (chain (ledger st)))"

definition with_peer :: "nat \<Rightarrow> (peer \<Rightarrow> peer) \<Rightarrow> node \<Rightarrow> node" where
  "with_peer i f st = st\<lparr>objs := (objs st)(i := f (objs st i))\<rparr>"

definition emit :: "node_event \<Rightarrow> node \<Rightarrow> node" where
  "emit ev st = st\<lparr>events := events st @ [ev]\<rparr>"

text \<open>\<open>peer->send(msg)\<close>: the loop's result; what was handed over is logged only when complete.\<close>

definition send_to :: "environment \<Rightarrow> nat \<Rightarrow> message \<Rightarrow> node \<Rightarrow> bool \<times> node" where
  "send_to env i m st =
     (case peer_send (os_send env (objs st i) m) m (objs st i) of
        Inr (Some (True, _)) \<Rightarrow> (True, st\<lparr>outbox := outbox st @ [(i, m)]\<rparr>)
      | _ \<Rightarrow> (False, st))"

definition send_all :: "environment \<Rightarrow> nat list \<Rightarrow> message \<Rightarrow> node \<Rightarrow> node" where
  "send_all env is m st = fold (\<lambda>i st. snd (send_to env i m st)) is st"

section \<open>The peer table\<close>

definition getPeerCount :: "node \<Rightarrow> nat" where
  "getPeerCount st = length (filter (\<lambda>(a, i). p_state (objs st i) = CONNECTED) (peers st))"

definition getConnectedPeers :: "node \<Rightarrow> peer_info list" where
  "getConnectedPeers st =
     map (\<lambda>(a, i). toPeerInfo (objs st i)) (filter (\<lambda>(a, i). p_state (objs st i) = CONNECTED) (peers st))"

definition hasPeerAt :: "node \<Rightarrow> string \<Rightarrow> bool" where
  "hasPeerAt st advertised_address =
     list_ex (\<lambda>(a, i). getAdvertisedAddress (objs st i) = advertised_address) (peers st)"

definition hasPeerWithNodeId :: "node \<Rightarrow> string \<Rightarrow> nat \<Rightarrow> bool" where
  "hasPeerWithNodeId st peer_node_id except =
     (if peer_node_id = [] then False
      else list_ex (\<lambda>(a, i). i \<noteq> except \<and> p_node_id (objs st i) = peer_node_id) (peers st))"

definition getActualListenPort :: "environment \<Rightarrow> node \<Rightarrow> u16" where
  "getActualListenPort env st = (if \<not> listening st then 0 else os_port env)"

definition cancelSync :: "node \<Rightarrow> node" where
  "cancelSync st = st\<lparr>sync_peer := [], sync_deadline := 0, syncing := False\<rparr>"

definition cancelSyncIfPeer :: "string \<Rightarrow> node \<Rightarrow> node" where
  "cancelSyncIfPeer peer_address st = (if sync_peer st \<noteq> peer_address then st else cancelSync st)"

definition cancelStalledSync :: "int \<Rightarrow> node \<Rightarrow> node" where
  "cancelStalledSync now st =
     (if \<not> syncing st then st
      else if sync_deadline st = 0 \<or> now < sync_deadline st then st
      else cancelSync st)"

definition syncWithPeer :: "environment \<Rightarrow> int \<Rightarrow> nat \<Rightarrow> node \<Rightarrow> node" where
  "syncWithPeer env now i st =
     (if syncing st then st
      else
        let st1 = st\<lparr>syncing := True, sync_peer := getAddress (objs st i),
                    sync_deadline := to_int64 (now + sync_timeout (config st))\<rparr>;
            our_height = chain_size st1; their_height = p_block_height (objs st1 i);
            request = createGetBlocks now our_height (to_int64 (their_height - 1));
            (ok, st2) = send_to env i request st1
        in if \<not> ok then cancelSync st2 else st2)"

definition findBestPeerForSync :: "node \<Rightarrow> nat option" where
  "findBestPeerForSync st =
     snd (fold (\<lambda>(a, i) (max_height, best).
            if p_state (objs st i) = CONNECTED \<and> p_block_height (objs st i) > max_height
            then (p_block_height (objs st i), Some i) else (max_height, best))
          (peers st) (chain_size st, None))"

definition requestSync :: "environment \<Rightarrow> int \<Rightarrow> node \<Rightarrow> node" where
  "requestSync env now st =
     (if syncing st then st
      else case findBestPeerForSync st of None \<Rightarrow> st | Some i \<Rightarrow> syncWithPeer env now i st)"

definition removePeer :: "string \<Rightarrow> node \<Rightarrow> node" where
  "removePeer address st =
     (case map_of (peers st) address of
        None \<Rightarrow> st
      | Some i \<Rightarrow> emit (PeerDisconnected i)
          (cancelSyncIfPeer address (st\<lparr>peers := AList.delete address (peers st)\<rparr>)))"

definition disconnectPeer :: "environment \<Rightarrow> int \<Rightarrow> string \<Rightarrow> node \<Rightarrow> node" where
  "disconnectPeer env now address st =
     (case map_of (peers st) address of
        None \<Rightarrow> st
      | Some i \<Rightarrow>
          let st1 = st\<lparr>peers := AList.delete address (peers st)\<rparr>;
              st2 = snd (send_to env i (createDisconnect now ''Disconnected by local node'') st1)
          in emit (PeerDisconnected i) st2)"

text \<open>
  A fresh peer object, the result of \<open>make_shared<Peer>\<close>, known only to the thread that made it.
  The check for room and the insertion into the table each hold \<open>peers_mutex\<close>, but the two callers
  below release it in between: other threads can fill the table after the check.
\<close>

definition allocate :: "peer \<Rightarrow> node \<Rightarrow> nat \<times> node" where
  "allocate p st = (next_obj st, st\<lparr>objs := (objs st)(next_obj st := p), next_obj := next_obj st + 1\<rparr>)"

definition has_room :: "node \<Rightarrow> bool" where
  "has_room st \<longleftrightarrow> length (peers st) < max_peers (config st)"

definition enter_table :: "nat \<Rightarrow> node \<Rightarrow> node" where
  "enter_table i st = st\<lparr>peers := AList.update (getAddress (objs st i)) i (peers st)\<rparr>"

definition connectToPeer :: "environment \<Rightarrow> int \<Rightarrow> string \<Rightarrow> u16 \<Rightarrow> node \<Rightarrow> bool \<times> node" where
  "connectToPeer env now ip port st =
     (if \<not> running st then (False, st)
      else
        let address = endpoint ip port
        in if hasPeerAt st address then (True, st)
           else if \<not> has_room st then (False, st)
           else (case os_connect env ip port of
                   None \<Rightarrow> (False, st)
                 | Some sock \<Rightarrow>
                     let p = (new_peer now sock ip port)\<lparr>p_listen_port := port, p_state := HANDSHAKING\<rparr>;
                         (i, st1) = allocate p st;
                         handshake = createHandshake now (node_id st1) (getActualListenPort env st1) (chain_size st1);
                         (ok, st2) = send_to env i handshake st1
                     in if \<not> ok then (False, st2)
                        else (True, enter_table i st2)))"

text \<open>One accepted connection of \<open>acceptConnections\<close>, as it runs when no other thread intervenes.\<close>

definition acceptConnection :: "int \<Rightarrow> int \<Rightarrow> string \<Rightarrow> u16 \<Rightarrow> node \<Rightarrow> node" where
  "acceptConnection now client_sock ip port st =
     (if \<not> running st then st
      else if client_sock = INVALID_SOCK then st
      else if \<not> has_room st then st
      else
        let (i, st1) = allocate ((new_peer now client_sock ip port)\<lparr>p_state := HANDSHAKING\<rparr>) st
        in enter_table i st1)"

definition broadcast :: "environment \<Rightarrow> message \<Rightarrow> string \<Rightarrow> node \<Rightarrow> node" where
  "broadcast env m exclude_peer st =
     send_all env (map snd (filter (\<lambda>(a, i). p_state (objs st i) = CONNECTED \<and> a \<noteq> exclude_peer) (peers st))) m st"

section \<open>Gossip caches\<close>

definition known_insert :: "string \<Rightarrow> string list \<Rightarrow> string list" where
  "known_insert h xs = (if h \<in> set xs then xs else xs @ [h])"

definition evict :: "environment \<Rightarrow> nat \<Rightarrow> nat \<Rightarrow> string list \<Rightarrow> string list" where
  "evict env limit n xs = (if length xs > limit then drop n (iter_order env xs) else xs)"

definition broadcastBlock :: "environment \<Rightarrow> int \<Rightarrow> block \<Rightarrow> node \<Rightarrow> node" where
  "broadcastBlock env now b st =
     (if b_hash b \<in> set (known_blocks st) then st
      else
        let st1 = st\<lparr>known_blocks := evict env 10000 5000 (known_insert (b_hash b) (known_blocks st))\<rparr>
        in broadcast env (createNewBlock now (block_serialize b)) [] st1)"

definition broadcastTransaction :: "environment \<Rightarrow> int \<Rightarrow> transaction \<Rightarrow> node \<Rightarrow> node" where
  "broadcastTransaction env now t st =
     (if tx_hash t \<in> set (known_txs st) then st
      else
        let st1 = st\<lparr>known_txs := evict env 50000 25000 (known_insert (tx_hash t) (known_txs st))\<rparr>
        in broadcast env (createNewTransaction now (tx_serialize t)) [] st1)"

definition deliver_block :: "environment \<Rightarrow> block \<Rightarrow> node \<Rightarrow> node" where
  "deliver_block env b st = emit (NewBlock b) (st\<lparr>ledger := onNewBlock env b (ledger st)\<rparr>)"

definition deliver_transaction :: "environment \<Rightarrow> transaction \<Rightarrow> node \<Rightarrow> node" where
  "deliver_transaction env t st = emit (NewTransaction t) (st\<lparr>ledger := onNewTransaction env t (ledger st)\<rparr>)"

end
