(* ===== verification/P2PHandlers.thy ===== *)
theory P2PHandlers
  imports P2PNode
begin

text \<open>
  The message handlers of \<open>P2PNode.cpp\<close>, their dispatch, and the rounds of the four worker
  threads: one accepted connection (in \<open>P2PNode\<close>), one readable socket and the iteration of
  the receiver over the descriptor set, one ping interval, one sync tick.  Parsing failures are caught where the code catches them.
\<close>

section \<open>Handshake and liveness messages\<close>

definition handleHandshake :: "environment \<Rightarrow> int \<Rightarrow> nat \<Rightarrow> message \<Rightarrow> node \<Rightarrow> node" where
  "handleHandshake env now i m st =
     (let (peer_node_id, s1) = getline (CHR ''|'') [] (Good (msg_payload m));
          (token, s2) = getline (CHR ''|'') [] s1;
          advertised_port = parseInt token
      in if \<not> valid_port advertised_port then removePeer (getAddress (objs st i)) st
         else
           let (token, s3) = getline (CHR ''|'') token s2;
               parsed_height = parseInt64 token
           in case parsed_height of
                None \<Rightarrow> removePeer (getAddress (objs st i)) st
              | Some peer_height \<Rightarrow>
                  if peer_height < 0 then removePeer (getAddress (objs st i)) st
                  else
                    let (version, s4) = getline (CHR ''|'') [] s3
                    in if peer_node_id = node_id st then removePeer (getAddress (objs st i)) st
                       else if hasPeerWithNodeId st peer_node_id i then removePeer (getAddress (objs st i)) st
                       else
                         let st1 = with_peer i (\<lambda>p. p\<lparr>p_listen_port := word_of_int (the advertised_port),
                                     p_node_id := peer_node_id, p_block_height := peer_height,
                                     p_version := version, p_state := CONNECTED\<rparr>) st;
                             st2 = (if msg_type m = HANDSHAKE
                                    then snd (send_to env i
                                      ((createHandshake now (node_id st1) (getActualListenPort env st1)
                                          (chain_size st1))\<lparr>msg_type := HANDSHAKE_ACK\<rparr>) st1)
                                    else st1);
                             st3 = emit (PeerConnected i) st2
                         in if peer_height > chain_size st3 then syncWithPeer env now i st3 else st3)"

definition handleError :: "nat \<Rightarrow> message \<Rightarrow> node \<Rightarrow> node" where
  "handleError i m st = cancelSyncIfPeer (getAddress (objs st i)) st"

definition handlePing :: "environment \<Rightarrow> int \<Rightarrow> nat \<Rightarrow> message \<Rightarrow> node \<Rightarrow> node" where
  "handlePing env now i m st = snd (send_to env i (createPong now (node_id st)) st)"

definition handlePong :: "int \<Rightarrow> nat \<Rightarrow> message \<Rightarrow> node \<Rightarrow> node" where
  "handlePong now i m st = with_peer i (updateLastSeen now) st"

definition handleDisconnect :: "nat \<Rightarrow> message \<Rightarrow> node \<Rightarrow> node" where
  "handleDisconnect i m st = removePeer (getAddress (objs st i)) st"

section \<open>Peer exchange\<close>

definition handleGetPeers :: "environment \<Rightarrow> int \<Rightarrow> nat \<Rightarrow> message \<Rightarrow> node \<Rightarrow> node" where
  "handleGetPeers env now i m st =
     (let peer_list = map (\<lambda>(a, j). toPeerInfo (objs st j))
            (filter (\<lambda>(a, j). p_state (objs st j) = CONNECTED \<and> j \<noteq> i) (peers st))
      in snd (send_to env i (createPeers now peer_list) st))"

definition learn_peer :: "environment \<Rightarrow> int \<Rightarrow> string \<Rightarrow> node \<Rightarrow> node" where
  "learn_peer env now line st =
     (case peer_info_deserialize line of
        Inl _ \<Rightarrow> st
      | Inr info \<Rightarrow>
          if pi_node_id info = node_id st then st
          else if \<not> hasPeerAt st (endpoint (pi_ip info) (pi_port info)) \<and>
                  getPeerCount st < max_peers (config st)
               then snd (connectToPeer env now (pi_ip info) (pi_port info) st)
               else st)"

definition handlePeers :: "environment \<Rightarrow> int \<Rightarrow> nat \<Rightarrow> message \<Rightarrow> node \<Rightarrow> node" where
  "handlePeers env now i m st =
     (if msg_payload m = [] then st
      else for_lines (learn_peer env now) [] (Good (msg_payload m)) st)"

section \<open>Blocks and transactions\<close>

definition blocks_text :: "block list \<Rightarrow> string" where
  "blocks_text bs = show_nat (length bs) @ concat (map (\<lambda>b. CHR 0x0A # block_serialize b) bs)"

definition handleGetBlocks :: "environment \<Rightarrow> int \<Rightarrow> nat \<Rightarrow> message \<Rightarrow> node \<Rightarrow> node" where
  "handleGetBlocks env now i m st =
     (let (token, s1) = getline (CHR ''|'') [] (Good (msg_payload m));
          parsed_start = parseInt64 token;
          (token, s2) = getline (CHR ''|'') token s1;
          parsed_end = parseInt64 token
      in case (parsed_start, parsed_end) of
           (Some start_height, Some end_height) \<Rightarrow>
             (let blocks = chain (ledger st); n = chain_size st
              in if start_height < 0 \<or> start_height \<ge> n
                 then snd (send_to env i (createError now ''Invalid block range'') st)
                 else
                   let end_height = (if end_height < 0 \<or> end_height \<ge> n then n - 1 else end_height)
                   in if end_height < start_height
                      then snd (send_to env i (createError now ''Invalid block range'') st)
                      else snd (send_to env i (new_message now BLOCKS (blocks_text
                             (take (nat (end_height - start_height + 1)) (drop (nat start_height) blocks))) []) st))
         | _ \<Rightarrow> snd (send_to env i (createError now ''Malformed block range'') st))"

text \<open>One line of a \<open>BLOCKS\<close> reply; the state carries the count of processed blocks.\<close>

definition receive_block_line :: "environment \<Rightarrow> int \<Rightarrow> string \<Rightarrow> int \<times> node \<Rightarrow> int \<times> node" where
  "receive_block_line env block_count line acc =
     (case acc of (processed, st) \<Rightarrow>
        (case block_deserialize (can_reserve env) line of
           Inl _ \<Rightarrow> (processed, st)
         | Inr b \<Rightarrow>
             let st1 = deliver_block env b (st\<lparr>known_blocks := known_insert (b_hash b) (known_blocks st)\<rparr>);
                 processed' = to_int32 (processed + 1)
             in (processed', emit (SyncProgress (percentComplete processed' block_count)) st1)))"

definition handleBlocks :: "environment \<Rightarrow> nat \<Rightarrow> message \<Rightarrow> node \<Rightarrow> node" where
  "handleBlocks env i m st =
     (let (line, s) = getline (CHR 0x0A) [] (Good (msg_payload m))
      in case parseInt line of
           None \<Rightarrow> cancelSyncIfPeer (getAddress (objs st i)) st
         | Some block_count \<Rightarrow>
             if block_count < 0 then cancelSyncIfPeer (getAddress (objs st i)) st
             else
               let (processed, st1) = for_lines (receive_block_line env block_count) line s (0, st)
               in cancelSyncIfPeer (getAddress (objs st1 i)) st1)"

definition handleGetBlockHeight :: "environment \<Rightarrow> int \<Rightarrow> nat \<Rightarrow> message \<Rightarrow> node \<Rightarrow> node" where
  "handleGetBlockHeight env now i m st = snd (send_to env i (createBlockHeight now (chain_size st)) st)"

definition handleBlockHeight :: "environment \<Rightarrow> int \<Rightarrow> nat \<Rightarrow> message \<Rightarrow> node \<Rightarrow> node" where
  "handleBlockHeight env now i m st =
     (case parseInt64 (msg_payload m) of
        None \<Rightarrow> st
      | Some height \<Rightarrow>
          if height < 0 then st
          else
            let st1 = with_peer i (\<lambda>p. p\<lparr>p_block_height := height\<rparr>) st
            in if height > chain_size st1 then syncWithPeer env now i st1 else st1)"

definition handleNewBlock :: "environment \<Rightarrow> int \<Rightarrow> nat \<Rightarrow> message \<Rightarrow> node \<Rightarrow> node" where
  "handleNewBlock env now i m st =
     (case block_deserialize (can_reserve env) (msg_payload m) of
        Inl _ \<Rightarrow> st
      | Inr b \<Rightarrow>
          if b_hash b \<in> set (known_blocks st) then st
          else
            let st1 = st\<lparr>known_blocks := known_insert (b_hash b) (known_blocks st)\<rparr>;
                st2 = deliver_block env b st1
            in broadcast env (createNewBlock now (msg_payload m)) (getAddress (objs st2 i)) st2)"

definition handleNewTransaction :: "environment \<Rightarrow> int \<Rightarrow> nat \<Rightarrow> message \<Rightarrow> node \<Rightarrow> node" where
  "handleNewTransaction env now i m st =
     (case tx_deserialize (msg_payload m) of
        Inl _ \<Rightarrow> st
      | Inr t \<Rightarrow>
          if tx_hash t \<in> set (known_txs st) then st
          else
            let st1 = st\<lparr>known_txs := known_insert (tx_hash t) (known_txs st)\<rparr>;
                st2 = deliver_transaction env t st1
            in broadcast env (createNewTransaction now (msg_payload m)) (getAddress (objs st2 i)) st2)"

section \<open>Dispatch and the worker rounds\<close>

fun handleMessage :: "environment \<Rightarrow> int \<Rightarrow> nat \<Rightarrow> message \<Rightarrow> node \<Rightarrow> node" where
  "handleMessage env now i m st =
     (case msg_type m of
        HANDSHAKE \<Rightarrow> handleHandshake env now i m st
      | HANDSHAKE_ACK \<Rightarrow> handleHandshake env now i m st
      | PING \<Rightarrow> handlePing env now i m st
      | PONG \<Rightarrow> handlePong now i m st
      | GET_PEERS \<Rightarrow> handleGetPeers env now i m st
      | PEERS \<Rightarrow> handlePeers env now i m st
      | GET_BLOCKS \<Rightarrow> handleGetBlocks env now i m st
      | BLOCKS \<Rightarrow> handleBlocks env i m st
      | GET_BLOCK_HEIGHT \<Rightarrow> handleGetBlockHeight env now i m st
      | BLOCK_HEIGHT \<Rightarrow> handleBlockHeight env now i m st
      | NEW_BLOCK \<Rightarrow> handleNewBlock env now i m st
      | NEW_TRANSACTION \<Rightarrow> handleNewTransaction env now i m st
      | ERROR_MSG \<Rightarrow> handleError i m st
      | DISCONNECT \<Rightarrow> handleDisconnect i m st
      | Unnamed b \<Rightarrow> st)"

declare handleMessage.simps [simp del]

text \<open>The drain loop of \<open>receiveMessages\<close>; the counter runs down from the limit.\<close>

fun drain_loop :: "environment \<Rightarrow> int \<Rightarrow> nat \<Rightarrow> nat \<Rightarrow> receive_status \<times> message \<Rightarrow> node \<Rightarrow> receive_status \<times> node" where
  "drain_loop env now i 0 sm st = (fst sm, st)"
| "drain_loop env now i (Suc k) sm st =
     (if fst sm = Message
      then
        let st1 = handleMessage env now i (snd sm) st;
            (s, m, p) = nextBufferedMessage now (snd sm) (objs st1 i)
        in drain_loop env now i k (s, m) (with_peer i (\<lambda>_. p) st1)
      else (fst sm, st))"

definition default_message :: message where
  "default_message = \<lparr>msg_type = PING, msg_payload = [], msg_sender = [], msg_timestamp = 0\<rparr>"

text \<open>One readable peer of a round, \<open>addr\<close> being its key in the snapshot of the table.\<close>

definition receive_round :: "environment \<Rightarrow> int \<Rightarrow> string \<Rightarrow> nat \<Rightarrow> byte list option \<Rightarrow> node \<Rightarrow> node" where
  "receive_round env now addr i chunk st =
     (if \<not> running st then st
      else if p_socket (objs st i) = INVALID_SOCK then st
      else
        let (s, m, p) = pollReceive now chunk default_message (objs st i);
            (status, st1) = drain_loop env now i MAX_MESSAGES_PER_ROUND (s, m) (with_peer i (\<lambda>_. p) st)
        in if status = Closed then removePeer addr st1 else st1)"

text \<open>
  One iteration of the loop of \<open>receiveMessages\<close>, on POSIX: the descriptors put into the set, the
  answer of \<open>select\<close> (the readable ones, \<open>None\<close> for a timeout or an error), and the round of each
  readable peer of the snapshot.  The set is an array of \<open>FD_SETSIZE\<close> bits indexed by descriptor; \<open>None\<close>
  from the iteration means that a bit outside the array was read.
\<close>

definition FD_SETSIZE :: nat where "FD_SETSIZE = 1024"

fun watch_loop :: "int list \<Rightarrow> int list \<Rightarrow> int list" where
  "watch_loop [] read_set = read_set"
| "watch_loop (sock # socks) read_set =
     (if sock = INVALID_SOCK then watch_loop socks read_set
      else if length read_set \<ge> FD_SETSIZE then read_set
      else if sock \<ge> int FD_SETSIZE then watch_loop socks read_set
      else watch_loop socks (read_set @ [sock]))"

definition FD_ISSET :: "int \<Rightarrow> int list \<Rightarrow> bool option" where
  "FD_ISSET sock read_set =
     (if 0 \<le> sock \<and> sock < int FD_SETSIZE then Some (sock \<in> set read_set) else None)"

fun serve_loop ::
  "environment \<Rightarrow> int \<Rightarrow> int list \<Rightarrow> (nat \<Rightarrow> byte list option) \<Rightarrow> (string \<times> nat) list \<Rightarrow> node \<Rightarrow> node option" where
  "serve_loop env now read_set chunk [] st = Some st"
| "serve_loop env now read_set chunk ((addr, i) # rest) st =
     (if \<not> running st then Some st
      else
        let sock = p_socket (objs st i)
        in if sock = INVALID_SOCK then serve_loop env now read_set chunk rest st
           else case FD_ISSET sock read_set of
                  None \<Rightarrow> None
                | Some False \<Rightarrow> serve_loop env now read_set chunk rest st
                | Some True \<Rightarrow>
                    serve_loop env now read_set chunk rest (receive_round env now addr i (chunk i) st))"

definition receiveMessages ::
  "environment \<Rightarrow> int \<Rightarrow> (int list \<Rightarrow> int list option) \<Rightarrow> (nat \<Rightarrow> byte list option) \<Rightarrow> node \<Rightarrow> node option" where
  "receiveMessages env now os_select chunk st =
     (if \<not> running st then Some st
      else
        let current_peers = peers st;
            read_set = watch_loop (map (\<lambda>(a, i). p_socket (objs st i)) current_peers) []
        in if read_set = [] then Some st
           else case os_select read_set of
                  None \<Rightarrow> Some st
                | Some ready \<Rightarrow> serve_loop env now ready chunk current_peers st)"

definition checkPeerTimeouts :: "int \<Rightarrow> node \<Rightarrow> node" where
  "checkPeerTimeouts now st =
     (let timed_out = map fst (filter (\<lambda>(a, i). p_state (objs st i) = CONNECTED \<and>
            to_int64 (now - p_last_seen (objs st i)) > peer_timeout (config st)) (peers st))
      in fold removePeer timed_out st)"

definition ping_peer :: "environment \<Rightarrow> int \<Rightarrow> string \<times> nat \<Rightarrow> node \<Rightarrow> node" where
  "ping_peer env now ai st =
     (case ai of (addr, i) \<Rightarrow>
        let (ok, st1) = send_to env i (createPing now (node_id st)) st
        in if \<not> ok then removePeer addr st1 else st1)"

definition pingPeers :: "environment \<Rightarrow> int \<Rightarrow> node \<Rightarrow> node" where
  "pingPeers env now st =
     (if \<not> running st then st
      else
        let current = filter (\<lambda>(a, i). p_state (objs st i) = CONNECTED) (peers st)
        in checkPeerTimeouts now (fold (ping_peer env now) current st))"

definition syncTick :: "environment \<Rightarrow> int \<Rightarrow> node \<Rightarrow> node" where
  "syncTick env now st =
     (if \<not> running st then st
      else
        let st1 = cancelStalledSync now st
        in if now < next_round st1 then st1
           else
             let st2 = st1\<lparr>next_round := to_int64 (now + sync_interval (config st1))\<rparr>;
                 st3 = (if getPeerCount st2 < min_peers (config st2)
                        then broadcast env (createGetPeers now) [] st2 else st2)
             in requestSync env now st3)"

section \<open>Start and stop\<close>

definition connect_seed :: "environment \<Rightarrow> int \<Rightarrow> string \<Rightarrow> node \<Rightarrow> node" where
  "connect_seed env now seed st =
     (if CHR '':'' \<notin> set seed then st
      else
        let ip = takeWhile (\<lambda>c. c \<noteq> CHR '':'') seed;
            parsed_port = parseInt (tl (dropWhile (\<lambda>c. c \<noteq> CHR '':'') seed))
        in if \<not> valid_port parsed_port then st
           else snd (connectToPeer env now ip (word_of_int (the parsed_port)) st))"

definition connectToSeedNodes :: "environment \<Rightarrow> int \<Rightarrow> node \<Rightarrow> node" where
  "connectToSeedNodes env now st = fold (connect_seed env now) (seed_nodes (config st)) st"

definition node_start :: "environment \<Rightarrow> int \<Rightarrow> node \<Rightarrow> bool \<times> node" where
  "node_start env now st =
     (if running st then (True, st)
      else if \<not> os_listen env then (False, st)
      else (True, connectToSeedNodes env now (st\<lparr>listening := True, running := True,
             next_round := to_int64 (now + sync_interval (config st))\<rparr>)))"

definition node_stop :: "environment \<Rightarrow> int \<Rightarrow> node \<Rightarrow> node" where
  "node_stop env now st =
     (if \<not> running st then st
      else
        let st1 = st\<lparr>running := False, listening := False\<rparr>
        in (send_all env (map snd (peers st1)) (createDisconnect now ''Node shutting down'') st1)\<lparr>peers := []\<rparr>)"

section \<open>The callbacks of the command line program\<close>

definition main_onNewBlock :: "block \<Rightarrow> blockchain \<Rightarrow> blockchain" where
  "main_onNewBlock b c = (case addBlock (Some b) c of None \<Rightarrow> c | Some (accepted, c') \<Rightarrow> c')"

definition main_onNewTransaction :: "transaction \<Rightarrow> blockchain \<Rightarrow> blockchain" where
  "main_onNewTransaction t c = bc_addTransaction t c"

end
