(* ===== verification/P2P_Safety.thy ===== *)
theory P2P_Safety
  imports P2PHandlers
begin

text \<open>
  What every operation of the node, and every interleaving of its threads, keeps.  The operations are
  compositions of some twenty primitive state changes; locales prove once that an invariant kept by
  these is kept by every handler and worker round, and by runs in which the threads interleave.  They
  are interpreted for reachability by single changes (so each operation is a sequence of them), for the
  peer table and its identities, the limit on its size, the sync latch and the life of the peer objects.
  An iteration of the receiver thread is a sequence of the steps.
\<close>

section \<open>Steps of a node\<close>

text \<open>
  Every operation of the four workers and of the command line's calls, run without interruption.
  \<open>now\<close> is the clock of the step.  All but the announcement of a block of its own leave the hashes
  of known blocks in place.
\<close>

inductive quiet_step :: "environment \<Rightarrow> int \<Rightarrow> node \<Rightarrow> node \<Rightarrow> bool" for env where
  start: "quiet_step env now st (snd (node_start env now st))"
| stop: "quiet_step env now st (node_stop env now st)"
| accept: "quiet_step env now st (acceptConnection now sock ip port st)"
| receive: "quiet_step env now st (receive_round env now addr i chunk st)"
| ping: "quiet_step env now st (pingPeers env now st)"
| tick: "quiet_step env now st (syncTick env now st)"
| connect: "quiet_step env now st (snd (connectToPeer env now ip port st))"
| disconnect: "quiet_step env now st (disconnectPeer env now addr st)"
| announce_tx: "quiet_step env now st (broadcastTransaction env now t st)"
| sync: "quiet_step env now st (requestSync env now st)"

inductive node_step :: "environment \<Rightarrow> int \<Rightarrow> node \<Rightarrow> node \<Rightarrow> bool" for env where
  quiet: "quiet_step env now st st' \<Longrightarrow> node_step env now st st'"
| announce_block: "node_step env now st (broadcastBlock env now b st)"

text \<open>
  The operations hold a mutex only for parts of themselves.  These are the single changes they make to
  the state the threads share: whatever the threads do, in whatever interleaving, is a sequence of
  such changes.  A change carries a condition only where the code keeps it from the check to the
  change: the latch is taken by a compare-and-exchange, identities are written by the one receiver
  thread, and a new object belongs to the thread that made it.  There is no condition on the size of
  the table: its check and the insertion are two critical sections.
\<close>

inductive node_change :: "environment \<Rightarrow> int \<Rightarrow> node \<Rightarrow> node \<Rightarrow> bool" for env now where
  sent: "node_change env now st (st\<lparr>outbox := ob\<rparr>)"
| reported: "node_change env now st (st\<lparr>events := evs\<rparr>)"
| block_taken: "node_change env now st (st\<lparr>ledger := onNewBlock env b (ledger st)\<rparr>)"
| tx_taken: "node_change env now st (st\<lparr>ledger := onNewTransaction env pay (ledger st)\<rparr>)"
| blocks_known: "node_change env now st (st\<lparr>known_blocks := kb\<rparr>)"
| txs_known: "node_change env now st (st\<lparr>known_txs := kt\<rparr>)"
| scheduled: "node_change env now st (st\<lparr>next_round := t\<rparr>)"
| flagged: "node_change env now st (st\<lparr>listening := l, running := r\<rparr>)"
| latch_freed: "node_change env now st (cancelSync st)"
| latch_taken: "\<not> syncing st \<Longrightarrow> node_change env now st
    (st\<lparr>syncing := True, sync_peer := a, sync_deadline := to_int64 (now + sync_timeout (config st))\<rparr>)"
| removed: "node_change env now st (st\<lparr>peers := AList.delete a (peers st)\<rparr>)"
| cleared: "node_change env now st (st\<lparr>peers := []\<rparr>)"
| peer_seen: "node_change env now st (with_peer i (updateLastSeen t) st)"
| peer_height: "node_change env now st (with_peer i (\<lambda>p. p\<lparr>p_block_height := h\<rparr>) st)"
| peer_read: "node_change env now st (with_peer i (\<lambda>p. p\<lparr>p_recv_buffer := buf, p_last_seen := seen\<rparr>) st)"
| identified: "pid \<noteq> node_id st \<Longrightarrow> \<not> hasPeerWithNodeId st pid i \<Longrightarrow> node_change env now st
    (with_peer i (\<lambda>p. p\<lparr>p_listen_port := lp, p_node_id := pid, p_block_height := h, p_version := v,
       p_state := CONNECTED\<rparr>) st)"
| created: "p_state p = HANDSHAKING \<Longrightarrow> p_node_id p = [] \<Longrightarrow> node_change env now st (snd (allocate p st))"
| entered: "i < next_obj st \<Longrightarrow> p_state (objs st i) = HANDSHAKING \<Longrightarrow> p_node_id (objs st i) = [] \<Longrightarrow>
    node_change env now st (enter_table i st)"

text \<open>Runs whose clock readings satisfy \<open>P\<close>: whole operations, with single changes by other threads
  and changes of the ledger by its owner at any place between them.\<close>

inductive node_run :: "environment \<Rightarrow> (int \<Rightarrow> bool) \<Rightarrow> node \<Rightarrow> node \<Rightarrow> bool" for env P where
  no_step: "node_run env P st st"
| one_more: "node_run env P st st' \<Longrightarrow> node_step env now st' st'' \<Longrightarrow> P now \<Longrightarrow> node_run env P st st''"
| part: "node_run env P st st' \<Longrightarrow> node_change env now st' st'' \<Longrightarrow> P now \<Longrightarrow> node_run env P st st''"
| owner: "node_run env P st st' \<Longrightarrow> node_run env P st (st'\<lparr>ledger := c\<rparr>)"

section \<open>Invariants from primitive changes\<close>

lemma known_insert_set [simp]: "set (known_insert h xs) = insert h (set xs)"
  by (auto simp: known_insert_def)

lemma send_to_cases:
  "send_to env j m st = (False, st) \<or> send_to env j m st = (True, st\<lparr>outbox := outbox st @ [(j, m)]\<rparr>)"
  by (auto simp: send_to_def split: sum.splits option.splits prod.splits bool.splits)

lemma outbox_insert:
  obtains "snd (send_to env j m st) = st" | ob where "snd (send_to env j m st) = st\<lparr>outbox := ob\<rparr>"
  using send_to_cases [of env j m st] by fastforce

locale handler_invariant =
  fixes I :: "node \<Rightarrow> bool" and P :: "int \<Rightarrow> bool" and env :: environment
  assumes out: "I st \<Longrightarrow> I (st\<lparr>outbox := ob\<rparr>)"
    and event: "I st \<Longrightarrow> I (st\<lparr>events := evs\<rparr>)"
    and block_in: "I st \<Longrightarrow> I (st\<lparr>ledger := onNewBlock env b (ledger st)\<rparr>)"
    and tx_in: "I st \<Longrightarrow> I (st\<lparr>ledger := onNewTransaction env pay (ledger st)\<rparr>)"
    and blocks: "I st \<Longrightarrow> set (known_blocks st) \<subseteq> set kb \<Longrightarrow> I (st\<lparr>known_blocks := kb\<rparr>)"
    and txs: "I st \<Longrightarrow> I (st\<lparr>known_txs := kt\<rparr>)"
    and round: "I st \<Longrightarrow> I (st\<lparr>next_round := t\<rparr>)"
    and flags: "I st \<Longrightarrow> I (st\<lparr>listening := l, running := r\<rparr>)"
    and cancel: "I st \<Longrightarrow> I (cancelSync st)"
    and begin_sync: "I st \<Longrightarrow> \<not> syncing st \<Longrightarrow> P now \<Longrightarrow>
      I (st\<lparr>syncing := True, sync_peer := a, sync_deadline := to_int64 (now + sync_timeout (config st))\<rparr>)"
    and delete: "I st \<Longrightarrow> I (st\<lparr>peers := AList.delete a (peers st)\<rparr>)"
    and clear: "I st \<Longrightarrow> I (st\<lparr>peers := []\<rparr>)"
    and seen: "I st \<Longrightarrow> I (with_peer i (updateLastSeen t) st)"
    and height: "I st \<Longrightarrow> I (with_peer i (\<lambda>p. p\<lparr>p_block_height := h\<rparr>) st)"
    and handshake: "I st \<Longrightarrow> pid \<noteq> node_id st \<Longrightarrow> \<not> hasPeerWithNodeId st pid i \<Longrightarrow>
      I (with_peer i (\<lambda>p. p\<lparr>p_listen_port := lp, p_node_id := pid, p_block_height := h,
          p_version := v, p_state := CONNECTED\<rparr>) st)"
    and alloc: "I st \<Longrightarrow> p_state p = HANDSHAKING \<Longrightarrow> p_node_id p = [] \<Longrightarrow> I (snd (allocate p st))"
    and enter: "I st \<Longrightarrow> i < next_obj st \<Longrightarrow> p_state (objs st i) = HANDSHAKING \<Longrightarrow> p_node_id (objs st i) = [] \<Longrightarrow>
      has_room st \<Longrightarrow> I (enter_table i st)"
begin

lemma emit: "I st \<Longrightarrow> I (emit ev st)"
  by (simp add: emit_def event)

lemma send_to: "I st \<Longrightarrow> I (snd (send_to env i m st))"
  by (auto simp: send_to_def out split: sum.splits option.splits prod.splits bool.splits)

lemma keep_fold: "(\<And>x st. I st \<Longrightarrow> I (f x st)) \<Longrightarrow> I st \<Longrightarrow> I (fold f xs st)"
  by (induction xs arbitrary: st) auto

lemma send_all: "I st \<Longrightarrow> I (send_all env is m st)"
  unfolding send_all_def by (rule keep_fold) (rule send_to)

lemma broadcast: "I st \<Longrightarrow> I (broadcast env m a st)"
  by (simp add: broadcast_def send_all)

lemma cancelSyncIfPeer: "I st \<Longrightarrow> I (cancelSyncIfPeer a st)"
  by (simp add: cancelSyncIfPeer_def cancel)

lemma removePeer: "I st \<Longrightarrow> I (removePeer a st)"
  by (auto simp: removePeer_def emit cancelSyncIfPeer delete split: option.splits)

lemma syncWithPeer: "I st \<Longrightarrow> P now \<Longrightarrow> I (syncWithPeer env now i st)"
  by (simp add: syncWithPeer_def Let_def case_prod_beta cancel send_to begin_sync)

lemma requestSync: "I st \<Longrightarrow> P now \<Longrightarrow> I (requestSync env now st)"
  by (simp add: requestSync_def syncWithPeer split: option.splits)

lemma send_to_same:
  "peers (snd (send_to env j m st)) = peers st" "objs (snd (send_to env j m st)) = objs st"
  "next_obj (snd (send_to env j m st)) = next_obj st" "config (snd (send_to env j m st)) = config st"
  using send_to_cases [of env j m st] by auto

lemma connectToPeer: "I st \<Longrightarrow> I (snd (connectToPeer env now ip port st))"
proof -
  assume I: "I st"
  let ?p = "\<lambda>sock. (new_peer now sock ip port)\<lparr>p_listen_port := port, p_state := HANDSHAKING\<rparr>"
  have made: "I (snd (send_to env (next_obj st) m (snd (allocate (?p sock) st))))" for sock m
    by (intro send_to alloc I) (simp_all add: new_peer_def)
  have "I (enter_table (next_obj st) (snd (send_to env (next_obj st) m (snd (allocate (?p sock) st)))))"
    if "has_room st" for sock m
    using that by (intro enter [OF made]) (simp_all add: send_to_same has_room_def allocate_def new_peer_def)
  then show ?thesis
    using I made by (simp add: connectToPeer_def Let_def case_prod_beta allocate_def split: option.splits)
qed

lemma acceptConnection: "I st \<Longrightarrow> I (acceptConnection now sock ip port st)"
proof -
  assume I: "I st"
  let ?st = "snd (allocate ((new_peer now sock ip port)\<lparr>p_state := HANDSHAKING\<rparr>) st)"
  have "I ?st" by (intro alloc I) (simp_all add: new_peer_def)
  then have "I (enter_table (next_obj st) ?st)" if "has_room st"
    using that by (intro enter) (simp_all add: has_room_def allocate_def new_peer_def)
  then show ?thesis
    using I by (simp add: acceptConnection_def Let_def case_prod_beta allocate_def)
qed

lemma disconnectPeer: "I st \<Longrightarrow> I (disconnectPeer env now a st)"
  by (simp add: disconnectPeer_def Let_def emit send_to delete split: option.splits)

lemma broadcastTransaction: "I st \<Longrightarrow> I (broadcastTransaction env now t st)"
  by (simp add: broadcastTransaction_def Let_def broadcast txs)

lemma deliver_block: "I st \<Longrightarrow> I (deliver_block env b st)"
  by (simp add: deliver_block_def emit block_in)

lemma deliver_transaction: "I st \<Longrightarrow> I (deliver_transaction env t st)"
  by (simp add: deliver_transaction_def emit tx_in)

lemma learn: "I st \<Longrightarrow> I (st\<lparr>known_blocks := known_insert h (known_blocks st)\<rparr>)"
  by (rule blocks) auto

lemma handleHandshake:
  assumes "I st" "P now"
  shows "I (handleHandshake env now i m st)"
proof -
  have "I (if b then syncWithPeer env now i s else s)" if "I s" for s b
    using that assms(2) by (simp add: syncWithPeer)
  moreover have "I (emit ev (if b then snd (send_to env i r s) else s))" if "I s" for s b r ev
    using that by (simp add: emit send_to)
  ultimately show ?thesis
    using assms handshake [OF assms(1)]
    by (simp add: handleHandshake_def Let_def case_prod_beta removePeer split: option.splits)
qed

lemma handlePeers: "I st \<Longrightarrow> I (handlePeers env now i m st)"
  using for_lines_keeps [of I "learn_peer env now"]
  by (auto simp: handlePeers_def learn_peer_def connectToPeer split: sum.splits)

lemma receive_block_line: "I (snd acc) \<Longrightarrow> I (snd (receive_block_line env n line acc))"
  by (auto simp: receive_block_line_def Let_def emit deliver_block learn split: prod.splits sum.splits)

lemma handleBlocks: "I st \<Longrightarrow> I (handleBlocks env i m st)"
  using for_lines_keeps [of "I \<circ> snd" "receive_block_line env n" for n] receive_block_line
  by (simp add: handleBlocks_def Let_def case_prod_beta cancelSyncIfPeer split: option.splits)

lemma handleGetBlocks: "I st \<Longrightarrow> I (handleGetBlocks env now i m st)"
  by (simp add: handleGetBlocks_def Let_def case_prod_beta send_to split: option.splits)

lemma handleNewBlock: "I st \<Longrightarrow> I (handleNewBlock env now i m st)"
  by (simp add: handleNewBlock_def Let_def broadcast deliver_block learn split: sum.splits)

lemma handleNewTransaction: "I st \<Longrightarrow> I (handleNewTransaction env now i m st)"
  by (simp add: handleNewTransaction_def Let_def broadcast deliver_transaction txs split: sum.splits)

lemma handleMessage:
  assumes "I st" "P now"
  shows "I (handleMessage env now i m st)"
  unfolding handleMessage.simps
  using assms
  by (cases "msg_type m")
    (simp_all add: handleHandshake handlePing_def handlePong_def handleGetPeers_def Let_def send_to handlePeers
      handleGetBlocks handleBlocks handleGetBlockHeight_def handleBlockHeight_def syncWithPeer height seen
      handleNewBlock handleNewTransaction handleError_def handleDisconnect_def cancelSyncIfPeer removePeer
      split: option.splits)

end

text \<open>The reader of a peer changes its buffer and its time of last sight.\<close>

locale worker_invariant = handler_invariant +
  assumes reader: "I st \<Longrightarrow> I (with_peer i (\<lambda>p. p\<lparr>p_recv_buffer := buf, p_last_seen := seen\<rparr>) st)"
begin

lemma extracted:
  "extractMessage now m p = (s, m', p') \<Longrightarrow>
     \<exists>buf seen. p' = p\<lparr>p_recv_buffer := buf, p_last_seen := seen\<rparr>"
proof -
  have same: "p = p\<lparr>p_recv_buffer := p_recv_buffer p, p_last_seen := p_last_seen p\<rparr>" by simp
  assume "extractMessage now m p = (s, m', p')"
  then consider "p' = p" | buf where "p' = p\<lparr>p_recv_buffer := buf, p_last_seen := now\<rparr>"
    by (fastforce simp: extractMessage_def Let_def updateLastSeen_def split: if_splits sum.splits)
  then show ?thesis using same by cases blast+
qed

lemma keep_reader:
  assumes "I st" "p = (objs st i)\<lparr>p_recv_buffer := buf, p_last_seen := seen\<rparr>"
  shows "I (with_peer i (\<lambda>_. p) st)"
  using reader [OF assms(1), where i = i and buf = buf and seen = seen] assms(2) by (simp add: with_peer_def)

lemma keep_extracted:
  "I st \<Longrightarrow> extractMessage now m (objs st i) = (s, m', p) \<Longrightarrow> I (with_peer i (\<lambda>_. p) st)"
  using extracted keep_reader by blast

lemma keep_same: "I st \<Longrightarrow> I (with_peer i (\<lambda>_. objs st i) st)"
  by (simp add: with_peer_def)

lemma keep_next:
  "I st \<Longrightarrow> nextBufferedMessage now m (objs st i) = (s, m', p) \<Longrightarrow> I (with_peer i (\<lambda>_. p) st)"
  using keep_same by (auto simp: nextBufferedMessage_def keep_extracted split: if_splits)

lemma drain_loop: "I st \<Longrightarrow> P now \<Longrightarrow> I (snd (drain_loop env now i k sm st))"
proof (induction k arbitrary: sm st)
  case (Suc k)
  show ?case
  proof (cases "fst sm = Message")
    case True
    obtain s m p where n: "nextBufferedMessage now (snd sm) (objs (handleMessage env now i (snd sm) st) i) = (s, m, p)"
      by (metis prod_cases3)
    then show ?thesis
      using True Suc keep_next [OF handleMessage [OF Suc.prems] n] by simp
  qed (use Suc in simp)
qed simp

lemma keep_poll:
  assumes "I st" "pollReceive now chunk m (objs st i) = (s, m', p)"
  shows "I (with_peer i (\<lambda>_. p) st)"
proof (cases "p = objs st i")
  case True
  then show ?thesis using keep_same [OF assms(1)] by simp
next
  case False
  then obtain received where c: "chunk = Some received"
    using assms(2) by (auto simp: pollReceive_def split: if_splits option.splits)
  let ?p = "(objs st i)\<lparr>p_recv_buffer := p_recv_buffer (objs st i) @ received\<rparr>"
  have same: "?p = (objs st i)\<lparr>p_recv_buffer := p_recv_buffer (objs st i) @ received, p_last_seen := p_last_seen (objs st i)\<rparr>"
    by simp
  have "p = ?p \<or> extractMessage now m ?p = (s, m', p)"
    using assms(2) c False by (auto simp: pollReceive_def Let_def split: if_splits)
  then show ?thesis
  proof
    assume "extractMessage now m ?p = (s, m', p)"
    then obtain buf seen where "p = ?p\<lparr>p_recv_buffer := buf, p_last_seen := seen\<rparr>" using extracted by blast
    then show ?thesis using keep_reader [OF assms(1)] by simp
  next
    assume "p = ?p"
    then show ?thesis using keep_reader [OF assms(1)] same by metis
  qed
qed

lemma receive_round: "I st \<Longrightarrow> P now \<Longrightarrow> I (receive_round env now addr i chunk st)"
proof -
  assume I: "I st" "P now"
  obtain s m p where n: "pollReceive now chunk default_message (objs st i) = (s, m, p)" by (metis prod_cases3)
  show ?thesis
    using drain_loop [OF keep_poll [OF I(1) n] I(2)] I(1)
    by (simp add: receive_round_def n Let_def case_prod_beta removePeer)
qed

lemma pingPeers: "I st \<Longrightarrow> I (pingPeers env now st)"
  unfolding pingPeers_def checkPeerTimeouts_def Let_def
  by (auto intro!: keep_fold simp: removePeer ping_peer_def Let_def case_prod_beta send_to)

lemma syncTick: "I st \<Longrightarrow> P now \<Longrightarrow> I (syncTick env now st)"
  by (simp add: syncTick_def cancelStalledSync_def Let_def cancel round broadcast requestSync)

lemma node_start: "I st \<Longrightarrow> I (snd (node_start env now st))"
proof -
  assume I: "I st"
  have "I (st\<lparr>listening := True, running := True, next_round := t\<rparr>)" for t
    using round [OF flags [OF I]] by simp
  then show ?thesis
    using I by (auto simp: node_start_def connectToSeedNodes_def connect_seed_def Let_def connectToPeer
        intro!: keep_fold)
qed

lemma node_stop: "I st \<Longrightarrow> I (node_stop env now st)"
proof -
  assume I: "I st"
  have "st\<lparr>running := False, listening := False\<rparr> = st\<lparr>listening := False, running := False\<rparr>" by simp
  then have "I (st\<lparr>running := False, listening := False\<rparr>)" using flags [OF I, of False False] by metis
  then show ?thesis using I by (simp add: node_stop_def Let_def clear send_all)
qed

lemma quiet: "quiet_step env now st st' \<Longrightarrow> P now \<Longrightarrow> I st \<Longrightarrow> I st'"
  by (induction rule: quiet_step.induct)
    (simp_all add: node_start node_stop acceptConnection receive_round pingPeers syncTick connectToPeer
      disconnectPeer broadcastTransaction requestSync)

end

text \<open>Announcing a block may forget hashes of others.\<close>

locale step_invariant = worker_invariant +
  assumes forget: "I st \<Longrightarrow> I (st\<lparr>known_blocks := kb\<rparr>)"
begin

lemma broadcastBlock: "I st \<Longrightarrow> I (broadcastBlock env now b st)"
  by (simp add: broadcastBlock_def Let_def broadcast forget)

lemma preserved: "node_step env now st st' \<Longrightarrow> P now \<Longrightarrow> I st \<Longrightarrow> I st'"
  by (induction rule: node_step.induct) (auto intro: quiet broadcastBlock)

end

text \<open>An invariant that depends neither on the ledger nor on the size of the table survives every
  interleaving of the threads, and its owner's changes of the ledger.\<close>

locale node_invariant = step_invariant +
  assumes any_ledger: "I st \<Longrightarrow> I (st\<lparr>ledger := c\<rparr>)"
    and enter_any: "I st \<Longrightarrow> i < next_obj st \<Longrightarrow> p_state (objs st i) = HANDSHAKING \<Longrightarrow> p_node_id (objs st i) = [] \<Longrightarrow>
      I (enter_table i st)"
begin

lemma change: "node_change env now st st' \<Longrightarrow> P now \<Longrightarrow> I st \<Longrightarrow> I st'"
  by (induction rule: node_change.induct)
    (simp_all add: out event block_in tx_in forget txs round flags cancel begin_sync delete clear seen height
      reader handshake alloc enter_any)

lemma run: "node_run env P st st' \<Longrightarrow> I st \<Longrightarrow> I st'"
  by (induction rule: node_run.induct) (auto intro: preserved change any_ledger)

end

section \<open>Operations are sequences of changes\<close>

lemmas changes_step = rtranclp.rtrancl_into_rtrancl [of "node_change env now" for env now]

interpretation changes: step_invariant "(node_change env now)\<^sup>*\<^sup>* st0" "\<lambda>t. t = now" env for st0 now env
  by unfold_locales (auto elim!: changes_step intro: node_change.intros)

lemma step_changes: "node_step env now st st' \<Longrightarrow> (node_change env now)\<^sup>*\<^sup>* st st'"
  by (rule changes.preserved [OF _ refl rtranclp.rtrancl_refl])

section \<open>The peer table and the identities\<close>

definition entries_ok :: "node \<Rightarrow> bool" where
  "entries_ok st \<longleftrightarrow> (\<forall>a i. (a, i) \<in> set (peers st) \<longrightarrow> i < next_obj st \<and> a = getAddress (objs st i))"

definition distinct_ids :: "node \<Rightarrow> bool" where
  "distinct_ids st \<longleftrightarrow> (\<forall>a i b j. (a, i) \<in> set (peers st) \<longrightarrow> (b, j) \<in> set (peers st) \<longrightarrow> i \<noteq> j \<longrightarrow>
     p_node_id (objs st i) \<noteq> [] \<longrightarrow> p_node_id (objs st i) \<noteq> p_node_id (objs st j))"

definition not_self :: "node \<Rightarrow> bool" where
  "not_self st \<longleftrightarrow> (\<forall>i. p_state (objs st i) = CONNECTED \<longrightarrow> p_node_id (objs st i) \<noteq> node_id st)"

definition node_ok :: "node \<Rightarrow> bool" where
  "node_ok st \<longleftrightarrow> distinct (map fst (peers st)) \<and> entries_ok st \<and> distinct_ids st \<and> not_self st"

text \<open>A smaller table over the same objects, and the same table over objects that agree on address
  and identity.\<close>

lemma node_ok_subset:
  assumes "node_ok st" "distinct (map fst ps)" "set ps \<subseteq> set (peers st)"
  shows "node_ok (st\<lparr>peers := ps\<rparr>)"
proof -
  have "entries_ok (st\<lparr>peers := ps\<rparr>)" "distinct_ids (st\<lparr>peers := ps\<rparr>)"
    using assms(1,3) by (simp_all add: node_ok_def entries_ok_def distinct_ids_def subset_iff) blast+
  then show ?thesis using assms by (simp add: node_ok_def not_self_def)
qed

lemma node_ok_same:
  assumes "node_ok st" "getAddress (f (objs st i)) = getAddress (objs st i)"
    and "p_node_id (f (objs st i)) = p_node_id (objs st i)" "p_state (f (objs st i)) = p_state (objs st i)"
  shows "node_ok (with_peer i f st)"
proof -
  have "getAddress (objs (with_peer i f st) j) = getAddress (objs st j)"
    "p_node_id (objs (with_peer i f st) j) = p_node_id (objs st j)"
    "p_state (objs (with_peer i f st) j) = p_state (objs st j)" for j
    using assms(2-4) by (simp_all add: with_peer_def)
  moreover have "peers (with_peer i f st) = peers st" "next_obj (with_peer i f st) = next_obj st"
    "config (with_peer i f st) = config st" "node_id (with_peer i f st) = node_id st"
    by (simp_all add: with_peer_def)
  ultimately show ?thesis
    using assms(1) by (simp add: node_ok_def entries_ok_def distinct_ids_def not_self_def)
qed

lemma node_ok_identify:
  assumes ok: "node_ok st" and pid: "pid \<noteq> node_id st" "\<not> hasPeerWithNodeId st pid i"
  shows "node_ok (with_peer i (\<lambda>p. p\<lparr>p_listen_port := lp, p_node_id := pid, p_block_height := h,
    p_version := v, p_state := CONNECTED\<rparr>) st)" (is "node_ok ?st")
proof -
  have free: "pid \<noteq> [] \<Longrightarrow> (a, j) \<in> set (peers st) \<Longrightarrow> j \<noteq> i \<Longrightarrow> p_node_id (objs st j) \<noteq> pid" for a j
    using pid(2) by (auto simp: hasPeerWithNodeId_def list_ex_iff)
  have "entries_ok ?st" using ok by (simp add: node_ok_def entries_ok_def with_peer_def getAddress_def)
  moreover have "not_self ?st" using ok pid(1) by (simp add: node_ok_def not_self_def with_peer_def)
  moreover have "distinct_ids ?st"
    unfolding distinct_ids_def
  proof (intro allI impI)
    fix a j b k
    assume jk: "(a, j) \<in> set (peers ?st)" "(b, k) \<in> set (peers ?st)" "j \<noteq> k" "p_node_id (objs ?st j) \<noteq> []"
    then show "p_node_id (objs ?st j) \<noteq> p_node_id (objs ?st k)"
      using ok free [of a j] free [of b k]
      by (cases "j = i"; cases "k = i") (auto simp: node_ok_def distinct_ids_def with_peer_def)
  qed
  ultimately show ?thesis using ok by (simp add: node_ok_def) (simp add: with_peer_def)
qed

lemma node_ok_allocate:
  assumes "node_ok st" "p_state p = HANDSHAKING" "p_node_id p = []"
  shows "node_ok (snd (allocate p st))"
proof -
  have e: "(a, i) \<in> set (peers st) \<Longrightarrow> i \<noteq> next_obj st" for a i
    using assms(1) by (auto simp: node_ok_def entries_ok_def)
  have "entries_ok (snd (allocate p st))"
    using assms(1) e by (auto simp: node_ok_def entries_ok_def allocate_def less_Suc_eq)
  moreover have "distinct_ids (snd (allocate p st))"
    using assms(1) e by (simp add: node_ok_def distinct_ids_def allocate_def)
  moreover have "not_self (snd (allocate p st))"
    using assms by (simp add: node_ok_def not_self_def allocate_def)
  ultimately show ?thesis using assms(1) by (simp add: node_ok_def) (simp add: allocate_def)
qed

lemma node_ok_enter:
  assumes "node_ok st" "i < next_obj st" "p_node_id (objs st i) = []"
  shows "node_ok (enter_table i st)"
proof -
  let ?ps = "AList.update (getAddress (objs st i)) i (peers st)"
  have st: "enter_table i st = st\<lparr>peers := ?ps\<rparr>" by (simp add: enter_table_def)
  have new: "(a, j) \<in> set ?ps \<Longrightarrow> (a = getAddress (objs st i) \<and> j = i) \<or> (a, j) \<in> set (peers st)" for a j
    using set_alist_update [of "getAddress (objs st i)" i "peers st"] by auto
  have "entries_ok (st\<lparr>peers := ?ps\<rparr>)"
    using new assms(1,2) by (fastforce simp: node_ok_def entries_ok_def)
  moreover have "distinct_ids (st\<lparr>peers := ?ps\<rparr>)"
    unfolding distinct_ids_def
  proof (intro allI impI)
    fix a j b k
    assume jk: "(a, j) \<in> set (peers (st\<lparr>peers := ?ps\<rparr>))" "(b, k) \<in> set (peers (st\<lparr>peers := ?ps\<rparr>))" "j \<noteq> k"
      "p_node_id (objs (st\<lparr>peers := ?ps\<rparr>) j) \<noteq> []"
    have "(a, j) \<in> set (peers st)" using new [of a j] jk(1,4) assms(3) by auto
    moreover have "(b, k) \<in> set (peers st) \<or> p_node_id (objs st k) = []" using new [of b k] jk(2) assms(3) by auto
    ultimately show "p_node_id (objs (st\<lparr>peers := ?ps\<rparr>) j) \<noteq> p_node_id (objs (st\<lparr>peers := ?ps\<rparr>) k)"
      using assms(1) jk(3,4) by (auto simp: node_ok_def distinct_ids_def)
  qed
  ultimately show ?thesis
    using assms(1) unfolding st by (simp add: node_ok_def not_self_def distinct_update)
qed

lemma node_ok_fields:
  "node_ok st \<Longrightarrow> peers st' = peers st \<Longrightarrow> objs st' = objs st \<Longrightarrow> next_obj st' = next_obj st \<Longrightarrow>
     config st' = config st \<Longrightarrow> node_id st' = node_id st \<Longrightarrow> node_ok st'"
  by (simp add: node_ok_def entries_ok_def distinct_ids_def not_self_def)

lemma new_node_ok: "node_ok (new_node own_id c cfg)"
  by (simp add: node_ok_def entries_ok_def distinct_ids_def not_self_def new_node_def no_peer_def new_peer_def)

interpretation table: node_invariant node_ok "\<lambda>_. True" env for env
proof
  show "node_ok (st\<lparr>peers := AList.delete a (peers st)\<rparr>)" if "node_ok st" for st a
    using that
    by (intro node_ok_subset set_alist_delete) (simp_all add: node_ok_def distinct_delete)
  show "node_ok (with_peer i (\<lambda>p. p\<lparr>p_recv_buffer := buf, p_last_seen := seen\<rparr>) st)"
    if "node_ok st" for st i buf seen
    using that by (rule node_ok_same) (simp_all add: getAddress_def)
  show "node_ok (with_peer i (updateLastSeen t) st)" if "node_ok st" for st i t
    using that by (rule node_ok_same) (simp_all add: getAddress_def updateLastSeen_def)
  show "node_ok (with_peer i (\<lambda>p. p\<lparr>p_block_height := h\<rparr>) st)" if "node_ok st" for st i h
    using that by (rule node_ok_same) (simp_all add: getAddress_def)
  show "node_ok (st\<lparr>peers := []\<rparr>)" if "node_ok st" for st
    using that by (rule node_ok_subset) simp_all
qed (simp_all add: node_ok_identify node_ok_allocate node_ok_enter,
    (rule node_ok_fields; simp add: cancelSync_def)+)

text \<open>The limit on the table is kept by every operation that runs without interruption.\<close>

definition within_limit :: "node \<Rightarrow> bool" where
  "within_limit st \<longleftrightarrow> length (peers st) \<le> max_peers (config st)"

interpretation limit: step_invariant within_limit "\<lambda>_. True" env for env
proof
  show "within_limit (st\<lparr>peers := AList.delete a (peers st)\<rparr>)" if "within_limit st" for st a
    using that length_alist_delete [of a "peers st"] by (simp add: within_limit_def)
  show "within_limit (enter_table i st)" if "has_room st" for st i
    using that length_alist_update [of "getAddress (objs st i)" i "peers st"]
    by (simp add: within_limit_def has_room_def enter_table_def)
qed (simp_all add: within_limit_def cancelSync_def with_peer_def allocate_def)

text \<open>Two connections that both found room for one more exceed it: the listener and a dialling thread
  each make an object after the check, and then enter it.\<close>

definition make_and_enter :: "peer \<Rightarrow> node \<Rightarrow> node" where
  "make_and_enter p st = enter_table (next_obj st) (snd (allocate p st))"

lemma make_and_enter_fields:
  "peers (make_and_enter p st) = AList.update (getAddress p) (next_obj st) (peers st)"
  "config (make_and_enter p st) = config st"
  by (simp_all add: make_and_enter_def enter_table_def allocate_def)

lemma make_and_enter_changes:
  assumes "p_state p = HANDSHAKING" "p_node_id p = []"
  shows "(node_change env now)\<^sup>*\<^sup>* st (make_and_enter p st)"
proof (rule converse_rtranclp_into_rtranclp)
  show "node_change env now st (snd (allocate p st))" using assms by (rule node_change.created)
  have "node_change env now (snd (allocate p st)) (make_and_enter p st)"
    unfolding make_and_enter_def by (rule node_change.entered) (simp_all add: allocate_def assms)
  then show "(node_change env now)\<^sup>*\<^sup>* (snd (allocate p st)) (make_and_enter p st)" by (rule r_into_rtranclp)
qed

lemma accepted_entry:
  assumes "running st" "sock \<noteq> INVALID_SOCK" "has_room st"
  shows "acceptConnection now sock ip port st = make_and_enter ((new_peer now sock ip port)\<lparr>p_state := HANDSHAKING\<rparr>) st"
  using assms by (simp add: acceptConnection_def make_and_enter_def allocate_def)

lemma length_new_entry: "a \<notin> fst ` set ps \<Longrightarrow> length (AList.update a i ps) = Suc (length ps)"
  by (induction ps) auto

lemma keys_update: "fst ` set (AList.update a i ps) = insert a (fst ` set ps)"
  by (metis list.set_map dom_map_of_conv_image_fst update_conv' dom_fun_upd option.discI)

lemma overlapping_entries_exceed_limit:
  assumes "Suc (length (peers st)) = max_peers (config st)"
    and "getAddress p \<noteq> getAddress q" "getAddress p \<notin> fst ` set (peers st)" "getAddress q \<notin> fst ` set (peers st)"
  shows "has_room st" "length (peers (make_and_enter q (make_and_enter p st))) = Suc (max_peers (config st))"
  using assms by (simp_all add: has_room_def make_and_enter_fields length_new_entry keys_update)

section \<open>The sync latch\<close>

definition latch_ok :: "int \<Rightarrow> node \<Rightarrow> bool" where
  "latch_ok T st \<longleftrightarrow>
     0 \<le> sync_timeout (config st) \<and> T + sync_timeout (config st) \<le> int64_max \<and>
     (if syncing st then 0 < sync_deadline st \<and> sync_deadline st \<le> T + sync_timeout (config st)
      else sync_peer st = [] \<and> sync_deadline st = 0)"

interpretation latch: node_invariant "latch_ok T" "\<lambda>now. 0 < now \<and> now \<le> T" env for T env
proof
  show "latch_ok T (st\<lparr>syncing := True, sync_peer := a, sync_deadline := to_int64 (now + sync_timeout (config st))\<rparr>)"
    if "latch_ok T st" "0 < now \<and> now \<le> T" for st now a
  proof -
    have "in_int64 (now + sync_timeout (config st))"
      using that by (auto simp: latch_ok_def in_int64_def int_bounds)
    then show ?thesis using that by (auto simp: latch_ok_def to_int64_id)
  qed
qed (simp_all add: latch_ok_def cancelSync_def with_peer_def allocate_def updateLastSeen_def enter_table_def split: if_splits)

text \<open>Whatever happened before, a tick later than every clock reading by the timeout finds or makes
  the node ready to sync again.\<close>

lemma stalled_sync_released:
  assumes "node_run env (\<lambda>now. 0 < now \<and> now \<le> T) st st'" "latch_ok T st"
    and "T + sync_timeout (config st') \<le> t"
  shows "\<not> syncing (cancelStalledSync t st')"
  using latch.run [OF assms(1,2)] assms(3)
  by (auto simp: latch_ok_def cancelStalledSync_def cancelSync_def split: if_splits)

section \<open>The life of a connection\<close>

definition advanced :: "node \<Rightarrow> node \<Rightarrow> bool" where
  "advanced st0 st \<longleftrightarrow> node_id st = node_id st0 \<and> config st = config st0 \<and> next_obj st0 \<le> next_obj st \<and>
     (\<forall>i. p_state (objs st i) \<le> CONNECTED) \<and>
     (\<forall>i < next_obj st0. p_state (objs st0 i) \<le> p_state (objs st i) \<and>
        p_socket (objs st i) = p_socket (objs st0 i) \<and> getAddress (objs st i) = getAddress (objs st0 i))"

lemma advanced_with_peer:
  assumes "advanced st0 st" "p_state (objs st i) \<le> p_state (f (objs st i))" "p_state (f (objs st i)) \<le> CONNECTED"
    and "p_socket (f (objs st i)) = p_socket (objs st i)" "getAddress (f (objs st i)) = getAddress (objs st i)"
  shows "advanced st0 (with_peer i f st)"
  using assms unfolding advanced_def with_peer_def by (auto intro: order_trans)

lemma advanced_allocate: "advanced st0 st \<Longrightarrow> p_state p = HANDSHAKING \<Longrightarrow> advanced st0 (snd (allocate p st))"
  by (auto simp: advanced_def allocate_def less_eq_peer_state_def)

interpretation life: node_invariant "advanced st0" "\<lambda>_. True" env for st0 env
proof
  show "advanced st0 (with_peer i (\<lambda>p. p\<lparr>p_recv_buffer := buf, p_last_seen := seen\<rparr>) st)"
    if "advanced st0 st" for st i buf seen
    using that by (rule advanced_with_peer) (use that in \<open>simp_all add: advanced_def getAddress_def\<close>)
  show "advanced st0 (with_peer i (updateLastSeen t) st)" if "advanced st0 st" for st i t
    using that by (rule advanced_with_peer) (use that in \<open>simp_all add: advanced_def getAddress_def updateLastSeen_def\<close>)
  show "advanced st0 (with_peer i (\<lambda>p. p\<lparr>p_block_height := h\<rparr>) st)" if "advanced st0 st" for st i h
    using that by (rule advanced_with_peer) (use that in \<open>simp_all add: advanced_def getAddress_def\<close>)
  show "advanced st0 (with_peer i (\<lambda>p. p\<lparr>p_listen_port := lp, p_node_id := pid, p_block_height := h,
      p_version := v, p_state := CONNECTED\<rparr>) st)" if "advanced st0 st" for st i lp pid h v
    using that by (rule advanced_with_peer) (use that in \<open>simp_all add: advanced_def getAddress_def\<close>)
qed (simp_all add: advanced_allocate, simp_all add: advanced_def cancelSync_def enter_table_def)

lemma node_run_any: "node_run env P st st' \<Longrightarrow> node_run env (\<lambda>_. True) st st'"
  by (induction rule: node_run.induct) (auto intro: node_run.intros)

lemma no_peer_state: "p_state no_peer \<le> CONNECTED"
  by (simp add: no_peer_def new_peer_def less_eq_peer_state_def)

lemma configured:
  assumes "node_run env P (new_node own_id c cfg) st"
  shows "config st = config (new_node own_id c cfg)"
proof -
  have "advanced (new_node own_id c cfg) (new_node own_id c cfg)"
    by (simp add: advanced_def new_node_def no_peer_state)
  with node_run_any [OF assms] have "advanced (new_node own_id c cfg) st" by (rule life.run)
  then show ?thesis by (simp add: advanced_def)
qed

section \<open>The receiver thread\<close>

text \<open>Descriptors of the peers in a table.\<close>

definition small_sockets :: "(string \<times> nat) list \<Rightarrow> node \<Rightarrow> bool" where
  "small_sockets ps st \<longleftrightarrow>
     (\<forall>(a, i)\<in>set ps. i < next_obj st \<and> -1 \<le> p_socket (objs st i) \<and> p_socket (objs st i) < int FD_SETSIZE)"

text \<open>An iteration is a sequence of rounds, as long as all descriptors fit into the set.\<close>

lemma advanced_refl: "\<forall>i. p_state (objs st i) \<le> CONNECTED \<Longrightarrow> advanced st st"
  by (simp add: advanced_def)

lemma small_sockets_kept:
  assumes "small_sockets ps st" "advanced st st'"
  shows "small_sockets ps st'"
  using assms by (fastforce simp: small_sockets_def advanced_def)

lemma serve_loop_steps:
  assumes "small_sockets ps st" "\<forall>i. p_state (objs st i) \<le> CONNECTED"
  shows "\<exists>st'. serve_loop env now read_set chunk ps st = Some st' \<and> (node_step env now)\<^sup>*\<^sup>* st st'"
  using assms
proof (induction env now read_set chunk ps st rule: serve_loop.induct)
  case (2 env now read_set chunk addr i rest st)
  let ?sock = "p_socket (objs st i)" and ?st = "receive_round env now addr i (chunk i) st"
  have rest: "small_sockets rest st" and sock: "-1 \<le> ?sock" "?sock < int FD_SETSIZE"
    using "2.prems"(1) by (auto simp: small_sockets_def)
  show ?case
  proof (cases "running st \<and> ?sock \<noteq> INVALID_SOCK")
    case False
    then show ?thesis using "2.IH"(1) [OF _ refl _ rest "2.prems"(2)] by auto
  next
    case True
    then have set: "FD_ISSET ?sock read_set = Some (?sock \<in> set read_set)"
      using sock by (simp add: FD_ISSET_def INVALID_SOCK_def)
    show ?thesis
    proof (cases "?sock \<in> set read_set")
      case out: False
      then show ?thesis using "2.IH"(3) [OF _ refl _ _ _ rest "2.prems"(2)] True set by simp
    next
      case ready: True
      have step: "node_step env now st ?st" by (rule node_step.quiet [OF quiet_step.receive])
      have adv: "advanced st ?st" by (rule life.preserved [OF step]) (simp_all add: advanced_refl "2.prems"(2))
      then have "\<forall>j. p_state (objs ?st j) \<le> CONNECTED" by (simp add: advanced_def)
      then have "\<exists>st'. serve_loop env now read_set chunk rest ?st = Some st' \<and> (node_step env now)\<^sup>*\<^sup>* ?st st'"
        using "2.IH"(2) [OF _ refl _ _ _ small_sockets_kept [OF rest adv]] True set ready by simp
      then show ?thesis using step True set ready by (auto intro: converse_rtranclp_into_rtranclp)
    qed
  qed
qed auto

lemma receiveMessages_steps:
  assumes "small_sockets (peers st) st" "\<forall>i. p_state (objs st i) \<le> CONNECTED"
  shows "\<exists>st'. receiveMessages env now os_select chunk st = Some st' \<and> (node_step env now)\<^sup>*\<^sup>* st st'"
  using serve_loop_steps [OF assms] by (simp add: receiveMessages_def Let_def split: option.split)

text \<open>The set leaves a larger descriptor out, but the scan of the answer still looks its bit up.\<close>

lemma large_descriptor_undefined:
  assumes "running st" "peers st = (a, i) # (b, j) # ps" "int FD_SETSIZE \<le> p_socket (objs st i)"
    and "0 \<le> p_socket (objs st j)" "p_socket (objs st j) < int FD_SETSIZE"
    and "\<And>read_set. p_socket (objs st j) \<in> set read_set \<Longrightarrow> os_select read_set = Some [p_socket (objs st j)]"
  shows "receiveMessages env now os_select chunk st = None"
proof -
  have keep: "set read_set \<subseteq> set (watch_loop socks read_set)" for socks read_set
    by (induction socks read_set rule: watch_loop.induct) auto
  have "p_socket (objs st i) \<noteq> INVALID_SOCK" "p_socket (objs st j) \<noteq> INVALID_SOCK"
    using assms(3,4) by (auto simp: INVALID_SOCK_def)
  then have w: "watch_loop (map (\<lambda>(a, i). p_socket (objs st i)) (peers st)) [] =
      watch_loop (map (\<lambda>(a, i). p_socket (objs st i)) ps) [p_socket (objs st j)]"
    using assms(3,5) by (simp add: assms(2) FD_SETSIZE_def)
  moreover have "p_socket (objs st j) \<in> set (watch_loop (map (\<lambda>(a, i). p_socket (objs st i)) ps) [p_socket (objs st j)])"
    using keep [of "[p_socket (objs st j)]"] by simp
  ultimately show ?thesis
    using assms \<open>p_socket (objs st i) \<noteq> INVALID_SOCK\<close>
    by (auto simp: receiveMessages_def Let_def FD_ISSET_def split: option.split)
qed

lemma receiver_of_reached:
  assumes "node_run env P (new_node own_id c cfg) st"
    and "\<forall>(a, i)\<in>set (peers st). -1 \<le> p_socket (objs st i) \<and> p_socket (objs st i) < int FD_SETSIZE"
  shows "\<exists>st'. receiveMessages env now os_select chunk st = Some st' \<and> (node_step env now)\<^sup>*\<^sup>* st st'"
proof (rule receiveMessages_steps)
  note any = node_run_any [OF assms(1)]
  have "entries_ok st" using table.run [OF any new_node_ok] by (simp add: node_ok_def)
  then show "small_sockets (peers st) st" using assms(2) by (fastforce simp: small_sockets_def entries_ok_def)
  have "advanced (new_node own_id c cfg) st"
    using life.run [OF any advanced_refl] by (simp add: new_node_def no_peer_state)
  then show "\<forall>i. p_state (objs st i) \<le> CONNECTED" by (simp add: advanced_def)
qed

end
