(* ===== verification/Command_Line.thy ===== *)
theory Command_Line
  imports Wallet Chain_System P2P_Safety Money
begin

text \<open>
  The command line program \<open>src/src/main.cpp\<close>: its prompts, every menu choice that changes
  state, and the menu loop.  What the program prints is left out, and with it the choices that only
  print (3, 4, 5, 10, 17, 19).  The terminal is the stream of its unread input, the disk a map from
  names to contents; the generator's answers and the counter of the nonce fallback are threaded
  through.  The node of \<open>P2PNode\<close> points at the program's ledger: the ledger is installed in
  the node before and read back after each call.  What the clock and the operating system answer
  while one menu choice is served is a \<open>reading\<close>.
\<close>

section \<open>State\<close>

record program =
  stdin :: istream
  files :: "string \<Rightarrow> string option"
  user_wallet :: wallet
  shared_chain :: blockchain
  p2p_node :: "node option"
  rng :: "entropy \<times> u64"

record reading =
  r_now :: int
  r_now_tx :: int
  r_node_id :: "u64 \<times> u64"
  r_can_write :: "string \<Rightarrow> bool"
  r_system :: environment

text \<open>The program at its first prompt, with the ledger its constructor made.\<close>

definition started :: "string \<Rightarrow> (string \<Rightarrow> string option) \<Rightarrow> entropy \<Rightarrow> blockchain \<Rightarrow> program" where
  "started input disk es c =
     \<lparr>stdin = Good input, files = disk, user_wallet = empty_wallet, shared_chain = c, p2p_node = None,
      rng = (es, 0)\<rparr>"

section \<open>Prompts\<close>

text \<open>
  A line, or \<open>None\<close> at the end of the input.  Every prompt gives \<open>getline\<close> a string of
  its own, and none is read again after a failure.
\<close>

definition promptLine :: "istream \<Rightarrow> string option \<times> istream" where
  "promptLine s =
     (let (line, s') = getline newline [] s in if stream_ok s' then (Some line, s') else (None, s'))"

lemma promptLine_decreases: "promptLine s = (Some line, s') \<Longrightarrow> stream_measure s' < stream_measure s"
  using getline_decreases [of newline "[]" s] by (auto simp: promptLine_def Let_def split: prod.splits if_splits)

text \<open>The loop of a prompt that asks again until the line is acceptable.\<close>

function prompt_until :: "(string \<Rightarrow> 'a option) \<Rightarrow> istream \<Rightarrow> 'a option \<times> istream" where
  "prompt_until accept s =
     (case promptLine s of
        (None, s') \<Rightarrow> (None, s')
      | (Some line, s') \<Rightarrow>
          (case accept line of Some v \<Rightarrow> (Some v, s') | None \<Rightarrow> prompt_until accept s'))"
  by pat_completeness auto
termination
  by (relation "measure (\<lambda>(accept, s). stream_measure s)") (auto dest: promptLine_decreases [OF sym])

declare prompt_until.simps [simp del]

definition isBlank :: "string \<Rightarrow> bool" where
  "isBlank text = list_all (\<lambda>c. c \<in> {CHR '' '', CHR 0x09, CHR 0x0D, CHR 0x0A, CHR 0x0C, CHR 0x0B}) text"

definition promptInt :: "istream \<Rightarrow> int option \<times> istream" where
  "promptInt s = prompt_until parseInt s"

definition promptAmount :: "istream \<Rightarrow> int option \<times> istream" where
  "promptAmount s = prompt_until parse_amount s"

definition port_line :: "u16 option \<Rightarrow> string \<Rightarrow> u16 option" where
  "port_line default_port line =
     (if isBlank line \<and> default_port \<noteq> None then default_port
      else case parseInt line of
             Some v \<Rightarrow> if v \<ge> 1 \<and> v \<le> 65535 then Some (word_of_int v) else None
           | None \<Rightarrow> None)"

definition promptPort :: "u16 option \<Rightarrow> istream \<Rightarrow> u16 option \<times> istream" where
  "promptPort default_port s = prompt_until (port_line default_port) s"

definition promptText :: "istream \<Rightarrow> string option \<times> istream" where
  "promptText s = prompt_until (\<lambda>line. if \<not> isBlank line then Some line else None) s"

text \<open>Without echo on a terminal; the input is the same.\<close>

definition promptPassword :: "istream \<Rightarrow> string option \<times> istream" where
  "promptPassword s = promptLine s"

section \<open>Wallet choices\<close>

definition createAddress :: "program \<Rightarrow> program" where
  "createAddress p =
     (let (address, w, es) = generateNewAddress (fst (rng p)) (user_wallet p)
      in p\<lparr>user_wallet := w, rng := (es, snd (rng p))\<rparr>)"

definition cli_importPrivateKey :: "program \<Rightarrow> program" where
  "cli_importPrivateKey p =
     (let (priv_hex, s) = promptText (stdin p); p = p\<lparr>stdin := s\<rparr>
      in case priv_hex of
           None \<Rightarrow> p
         | Some hex \<Rightarrow> p\<lparr>user_wallet := snd (importPrivateKey hex (user_wallet p))\<rparr>)"

definition selectAddress :: "program \<Rightarrow> program" where
  "selectAddress p =
     (if getAllAddresses (user_wallet p) = [] then p
      else
        let (address, s) = promptText (stdin p); p = p\<lparr>stdin := s\<rparr>
        in case address of
             None \<Rightarrow> p
           | Some a \<Rightarrow>
               if \<not> hasAddress (user_wallet p) a then p
               else p\<lparr>user_wallet := setDefaultAddress a (user_wallet p)\<rparr>)"

definition saveWallet :: "reading \<Rightarrow> program \<Rightarrow> program" where
  "saveWallet r p =
     (if getAllAddresses (user_wallet p) = [] then p
      else
        let (filename, s1) = promptText (stdin p)
        in case filename of
             None \<Rightarrow> p\<lparr>stdin := s1\<rparr>
           | Some name \<Rightarrow>
               let (password, s2) = promptPassword s1
               in (case password of
                     None \<Rightarrow> p\<lparr>stdin := s2\<rparr>
                   | Some pw \<Rightarrow>
                       let (confirmation, s3) = promptPassword s2; p = p\<lparr>stdin := s3\<rparr>
                       in (case confirmation of
                             None \<Rightarrow> p
                           | Some again \<Rightarrow>
                               if pw \<noteq> again then p
                               else
                                 let (ok, content, es) =
                                       wallet_saveToFile (r_can_write r name) (fst (rng p)) pw (user_wallet p);
                                     p = p\<lparr>rng := (es, snd (rng p))\<rparr>
                                 in (case content of
                                       None \<Rightarrow> p
                                     | Some text \<Rightarrow> p\<lparr>files := (files p)(name \<mapsto> text)\<rparr>))))"

definition loadWallet :: "program \<Rightarrow> program" where
  "loadWallet p =
     (let (filename, s1) = promptText (stdin p)
      in case filename of
           None \<Rightarrow> p\<lparr>stdin := s1\<rparr>
         | Some name \<Rightarrow>
             let (password, s2) = promptPassword s1; p = p\<lparr>stdin := s2\<rparr>
             in (case password of
                   None \<Rightarrow> p
                 | Some pw \<Rightarrow>
                     p\<lparr>user_wallet := snd (wallet_loadFromFile (files p name) pw (user_wallet p))\<rparr>))"

section \<open>Ledger choices\<close>

definition cli_addTransaction :: "reading \<Rightarrow> program \<Rightarrow> program" where
  "cli_addTransaction r p =
     (let from = default_address (user_wallet p)
      in if from = [] then p
         else
           let (receiver_address, s1) = promptText (stdin p)
           in case receiver_address of
                None \<Rightarrow> p\<lparr>stdin := s1\<rparr>
              | Some to \<Rightarrow>
                  let (sum_to_send, s2) = promptAmount s1; p = p\<lparr>stdin := s2\<rparr>
                  in (case sum_to_send of
                        None \<Rightarrow> p
                      | Some val \<Rightarrow>
                          let (fresh, es, counter) = freshNonce (r_now r) (rng p);
                              (ok, t, es') = wallet_signTransaction es (user_wallet p)
                                (new_transaction (r_now_tx r) fresh from to val) from;
                              p = p\<lparr>rng := (es', counter)\<rparr>
                          in if \<not> ok then p
                             else p\<lparr>shared_chain := bc_addTransaction t (shared_chain p)\<rparr>))"

text \<open>\<open>None\<close> when mining never finds a block.\<close>

definition cli_mine :: "reading \<Rightarrow> program \<Rightarrow> program option" where
  "cli_mine r p =
     (let selected = default_address (user_wallet p); (line, s) = promptLine (stdin p); p = p\<lparr>stdin := s\<rparr>
      in case line of
           None \<Rightarrow> Some p
         | Some text \<Rightarrow>
             let miner = (if isBlank text then selected else text)
             in if miner = [] then Some p
                else
                  let (fresh, es, counter) = freshNonce (r_now r) (rng p); p = p\<lparr>rng := (es, counter)\<rparr>
                  in map_option (\<lambda>c. p\<lparr>shared_chain := c\<rparr>)
                       (minePendingTransactions (r_now r) (r_now_tx r) fresh miner (shared_chain p)))"

definition cli_saveChain :: "reading \<Rightarrow> program \<Rightarrow> program" where
  "cli_saveChain r p =
     (let (filename, s) = promptText (stdin p); p = p\<lparr>stdin := s\<rparr>
      in case filename of
           None \<Rightarrow> p
         | Some name \<Rightarrow>
             (case snd (saveToFile (r_can_write r name) (shared_chain p)) of
                None \<Rightarrow> p
              | Some text \<Rightarrow> p\<lparr>files := (files p)(name \<mapsto> text)\<rparr>))"

definition cli_loadChain :: "program \<Rightarrow> program option" where
  "cli_loadChain p =
     (let (filename, s) = promptText (stdin p); p = p\<lparr>stdin := s\<rparr>
      in case filename of
           None \<Rightarrow> Some p
         | Some name \<Rightarrow>
             map_option (\<lambda>(ok, c). p\<lparr>shared_chain := c\<rparr>) (loadFromFile (files p name) (shared_chain p)))"

text \<open>A prompt whose answer is only used for printing.\<close>

definition cli_checkBalance :: "program \<Rightarrow> program" where
  "cli_checkBalance p = p\<lparr>stdin := snd (promptText (stdin p))\<rparr>"

section \<open>Network choices\<close>

definition setupP2PCallbacks :: "environment \<Rightarrow> environment" where
  "setupP2PCallbacks env = env\<lparr>onNewBlock := main_onNewBlock, onNewTransaction := main_onNewTransaction\<rparr>"

definition on_node :: "(node \<Rightarrow> node) \<Rightarrow> program \<Rightarrow> program" where
  "on_node f p =
     (case p2p_node p of
        None \<Rightarrow> p
      | Some n \<Rightarrow> let n' = f (n\<lparr>ledger := shared_chain p\<rparr>) in p\<lparr>p2p_node := Some n', shared_chain := ledger n'\<rparr>)"

definition node_running :: "program \<Rightarrow> bool" where
  "node_running p = (case p2p_node p of None \<Rightarrow> False | Some n \<Rightarrow> running n)"

lemma promptLine_reads: "stream_measure (snd (promptLine s)) \<le> stream_measure s"
proof (cases "stream_ok (snd (getline newline [] s))")
  case True
  then show ?thesis
    using getline_decreases [of newline "[]" s] by (simp add: promptLine_def Let_def case_prod_beta)
next
  case False
  then show ?thesis by (simp add: promptLine_def Let_def case_prod_beta stream_ok_def stream_measure_def)
qed

lemma prompt_until_reads: "stream_measure (snd (prompt_until accept s)) \<le> stream_measure s"
proof (induction accept s rule: prompt_until.induct)
  case (1 accept s)
  have "stream_measure (snd (prompt_until accept s')) \<le> stream_measure s"
    if "promptLine s = (Some line, s')" "accept line = None" for line s'
    using "1.IH" [OF that(1) [symmetric] refl that(2)] promptLine_reads [of s] that(1) by simp
  then show ?case
    using promptLine_reads [of s]
    by (subst prompt_until.simps) (auto split: prod.splits option.splits)
qed

lemmas prompts_read = promptLine_reads
  prompt_until_reads [of "\<lambda>line. if \<not> isBlank line then Some line else None", folded promptText_def]
  prompt_until_reads [of parse_amount, folded promptAmount_def]
  prompt_until_reads [of "port_line d" for d, folded promptPort_def]

lemma prompts_read_eqs:
  "promptText s = (x, s') \<Longrightarrow> stream_measure s' \<le> stream_measure s"
  "promptPort d s = (y, s') \<Longrightarrow> stream_measure s' \<le> stream_measure s"
  "promptAmount s = (z, s') \<Longrightarrow> stream_measure s' \<le> stream_measure s"
  "promptLine s = (u, s') \<Longrightarrow> stream_measure s' \<le> stream_measure s"
  by (metis prompts_read snd_conv)+

lemma seed_answers_decrease:
  "promptText s = (Some ip, s1) \<Longrightarrow> promptPort d s1 = (Some port, s2) \<Longrightarrow> promptLine s2 = (Some a, s3) \<Longrightarrow>
     stream_measure s3 < stream_measure s"
  by (drule prompts_read_eqs, drule prompts_read_eqs, drule promptLine_decreases) linarith

text \<open>The questions for seed nodes; \<open>None\<close> when the input ends before they are answered.\<close>

function seed_loop :: "string \<Rightarrow> string list \<Rightarrow> istream \<Rightarrow> string list option \<times> istream" where
  "seed_loop answer seeds s =
     (if answer \<noteq> [] \<and> hd answer \<in> {CHR ''y'', CHR ''Y''}
      then
        (case promptText s of
           (None, s1) \<Rightarrow> (None, s1)
         | (Some seed_ip, s1) \<Rightarrow>
             (case promptPort None s1 of
                (None, s2) \<Rightarrow> (None, s2)
              | (Some seed_port, s2) \<Rightarrow>
                  (case promptLine s2 of
                     (None, s3) \<Rightarrow> (None, s3)
                   | (Some answer', s3) \<Rightarrow> seed_loop answer' (seeds @ [endpoint seed_ip seed_port]) s3)))
      else (Some seeds, s))"
  by pat_completeness auto
termination
  by (relation "measure (\<lambda>(answer, seeds, s). stream_measure s)")
    (auto dest!: sym [of "(_, _)"] intro: seed_answers_decrease)

declare seed_loop.simps [simp del]

definition startP2PNode :: "reading \<Rightarrow> program \<Rightarrow> program" where
  "startP2PNode r p =
     (if node_running p then p
      else
        let (port, s1) = promptPort (Some 8333) (stdin p)
        in case port of
             None \<Rightarrow> p\<lparr>stdin := s1\<rparr>
           | Some listen \<Rightarrow>
               let (answer, s2) = promptLine s1
               in (case answer of
                     None \<Rightarrow> p\<lparr>stdin := s2\<rparr>
                   | Some a \<Rightarrow>
                       let (seeds, s3) = seed_loop a [] s2; p = p\<lparr>stdin := s3\<rparr>
                       in (case seeds of
                             None \<Rightarrow> p
                           | Some nodes \<Rightarrow>
                               let cfg = default_config\<lparr>listen_port := listen, max_peers := 25, min_peers := 3,
                                           seed_nodes := nodes\<rparr>;
                                   n0 = new_node (case_prod generateNodeId (r_node_id r)) (shared_chain p) cfg;
                                   (ok, n) = node_start (setupP2PCallbacks (r_system r)) (r_now r) n0
                               in if ok then p\<lparr>p2p_node := Some n, shared_chain := ledger n\<rparr>
                                  else p\<lparr>p2p_node := None\<rparr>)))"

definition stopP2PNode :: "reading \<Rightarrow> program \<Rightarrow> program" where
  "stopP2PNode r p =
     (if \<not> node_running p then p
      else (on_node (node_stop (setupP2PCallbacks (r_system r)) (r_now r)) p)\<lparr>p2p_node := None\<rparr>)"

definition cli_connectToPeer :: "reading \<Rightarrow> program \<Rightarrow> program" where
  "cli_connectToPeer r p =
     (if \<not> node_running p then p
      else
        let (ip, s1) = promptText (stdin p)
        in case ip of
             None \<Rightarrow> p\<lparr>stdin := s1\<rparr>
           | Some host \<Rightarrow>
               let (port, s2) = promptPort None s1; p = p\<lparr>stdin := s2\<rparr>
               in (case port of
                     None \<Rightarrow> p
                   | Some target \<Rightarrow>
                       on_node (\<lambda>n. snd (connectToPeer (setupP2PCallbacks (r_system r)) (r_now r) host target n)) p))"

definition cli_requestSync :: "reading \<Rightarrow> program \<Rightarrow> program" where
  "cli_requestSync r p =
     (if \<not> node_running p then p
      else on_node (requestSync (setupP2PCallbacks (r_system r)) (r_now r)) p)"

section \<open>The menu\<close>

definition menu_choice :: "reading \<Rightarrow> int \<Rightarrow> program \<Rightarrow> program option" where
  "menu_choice r choice p =
     (if choice = 1 then Some (cli_addTransaction r p)
      else if choice = 2 then cli_mine r p
      else if choice = 3 then Some (cli_checkBalance p)
      else if choice = 6 then Some (cli_saveChain r p)
      else if choice = 7 then cli_loadChain p
      else if choice = 8 then Some (createAddress p)
      else if choice = 9 then Some (cli_importPrivateKey p)
      else if choice = 11 then Some (selectAddress p)
      else if choice = 12 then Some (saveWallet r p)
      else if choice = 13 then Some (loadWallet p)
      else if choice = 14 then Some (startP2PNode r p)
      else if choice = 15 then Some (stopP2PNode r p)
      else if choice = 16 then Some (cli_connectToPeer r p)
      else if choice = 18 then Some (cli_requestSync r p)
      else Some p)"

definition shutdown :: "reading \<Rightarrow> program \<Rightarrow> program" where
  "shutdown r p =
     (if node_running p then on_node (node_stop (setupP2PCallbacks (r_system r)) (r_now r)) p else p)"

section \<open>What reading does to the input\<close>

lemma same_input [simp]: "stdin (on_node f p) = stdin p"
  by (simp add: on_node_def Let_def split: option.split)

text \<open>A property of the unread input that one \<open>getline\<close> keeps is kept by every choice.\<close>

locale input_law =
  fixes J :: "istream \<Rightarrow> bool"
  assumes next_line: "J s \<Longrightarrow> J (snd (getline newline [] s))"
begin

lemma line: "promptLine s = (x, s') \<Longrightarrow> J s \<Longrightarrow> J s'"
  using next_line [of s] by (auto simp: promptLine_def Let_def split: prod.splits if_splits)

lemma until: "J s \<Longrightarrow> J (snd (prompt_until accept s))"
proof (induction accept s rule: prompt_until.induct)
  case (1 accept s)
  have "J (snd (prompt_until accept s'))"
    if "promptLine s = (Some line, s')" "accept line = None" for line s'
    using "1.IH" [OF that(1) [symmetric] refl that(2)] line [OF that(1) "1.prems"] by simp
  then show ?case
    using line "1.prems" by (subst prompt_until.simps) (auto split: prod.splits option.splits)
qed

lemma answers:
  "promptText s = (x, s') \<Longrightarrow> J s \<Longrightarrow> J s'"
  "promptPort d s = (y, s') \<Longrightarrow> J s \<Longrightarrow> J s'"
  "promptAmount s = (z, s') \<Longrightarrow> J s \<Longrightarrow> J s'"
  "promptPassword s = (u, s') \<Longrightarrow> J s \<Longrightarrow> J s'"
  unfolding promptText_def promptPort_def promptAmount_def promptPassword_def
  by (metis until line snd_conv)+

lemma seeds: "J s \<Longrightarrow> J (snd (seed_loop answer seeds s))"
proof (induction answer seeds s rule: seed_loop.induct)
  case (1 answer seeds s)
  then show ?case
    using answers(1,2) line
    by (subst seed_loop.simps) (auto split: prod.splits option.splits)
qed

lemma seed_answers: "seed_loop a xs s = (v, s') \<Longrightarrow> J s \<Longrightarrow> J s'"
  by (metis seeds snd_conv)

lemma text_opt: "J s \<Longrightarrow> J (snd (promptText s))"
  unfolding promptText_def by (rule until)

lemma wallet_choices:
  assumes "J (stdin p)"
  shows "J (stdin (createAddress p))" "J (stdin (cli_importPrivateKey p))" "J (stdin (selectAddress p))"
  using assms
  by (auto simp: createAddress_def cli_importPrivateKey_def selectAddress_def Let_def
      split: prod.splits option.splits dest: answers(1))

lemma saveWallet: "J (stdin p) \<Longrightarrow> J (stdin (saveWallet r p))"
  by (auto simp: saveWallet_def Let_def split: prod.split option.split dest!: answers(1) answers(4))

lemma loadWallet: "J (stdin p) \<Longrightarrow> J (stdin (loadWallet p))"
  by (auto simp: loadWallet_def Let_def split: prod.split option.split dest!: answers(1) answers(4))

lemma cli_addTransaction: "J (stdin p) \<Longrightarrow> J (stdin (cli_addTransaction r p))"
  by (auto simp: cli_addTransaction_def Let_def split: prod.split option.split dest!: answers(1) answers(3))

lemma cli_mine: "cli_mine r p = Some p' \<Longrightarrow> J (stdin p) \<Longrightarrow> J (stdin p')"
  by (auto simp: cli_mine_def Let_def split: prod.splits option.splits if_splits dest!: line)

lemma cli_saveChain: "J (stdin p) \<Longrightarrow> J (stdin (cli_saveChain r p))"
  by (auto simp: cli_saveChain_def Let_def text_opt split: prod.split option.split dest!: answers(1))

lemma cli_loadChain: "cli_loadChain p = Some p' \<Longrightarrow> J (stdin p) \<Longrightarrow> J (stdin p')"
  by (auto simp: cli_loadChain_def Let_def split: prod.splits option.splits dest!: answers(1))

lemma startP2PNode: "J (stdin p) \<Longrightarrow> J (stdin (startP2PNode r p))"
  by (auto simp: startP2PNode_def Let_def split: prod.split option.split
      dest!: answers(2) line seed_answers)

lemma cli_connectToPeer: "J (stdin p) \<Longrightarrow> J (stdin (cli_connectToPeer r p))"
  by (auto simp: cli_connectToPeer_def Let_def split: prod.split option.split dest!: answers(1,2))

lemma choice: "menu_choice r c p = Some p' \<Longrightarrow> J (stdin p) \<Longrightarrow> J (stdin p')"
  by (auto simp: menu_choice_def wallet_choices saveWallet loadWallet cli_addTransaction cli_saveChain
      cli_checkBalance_def text_opt startP2PNode stopP2PNode_def cli_connectToPeer cli_requestSync_def
      dest: cli_mine cli_loadChain split: if_splits)

end

lemma getline_measure: "stream_measure (snd (getline newline [] s)) \<le> stream_measure s"
proof (cases "stream_ok (snd (getline newline [] s))")
  case True
  then show ?thesis using getline_decreases [of newline "[]" s] by simp
next
  case False
  then show ?thesis by (simp add: stream_ok_def stream_measure_def)
qed

interpretation bounded_input: input_law "\<lambda>s. stream_measure s \<le> n" for n
  by unfold_locales (rule le_trans [OF getline_measure])

section \<open>The menu loop\<close>

text \<open>
  The loop of \<open>main\<close>: \<open>rs k\<close> is what clock and operating system answer in the \<open>k\<close>-th
  round.  Every round reads at least one line, so the loop ends when the input does.
\<close>

function main_loop :: "(nat \<Rightarrow> reading) \<Rightarrow> nat \<Rightarrow> program \<Rightarrow> program option" where
  "main_loop rs k p =
     (case getline newline [] (stdin p) of
        (line, s) \<Rightarrow>
          if \<not> stream_ok s then Some (shutdown (rs k) (p\<lparr>stdin := s\<rparr>))
          else case parseInt line of
                 None \<Rightarrow> main_loop rs (k + 1) (p\<lparr>stdin := s\<rparr>)
               | Some choice \<Rightarrow>
                   if choice = 0 then Some (shutdown (rs k) (p\<lparr>stdin := s\<rparr>))
                   else case menu_choice (rs k) choice (p\<lparr>stdin := s\<rparr>) of
                          None \<Rightarrow> None
                        | Some p' \<Rightarrow> main_loop rs (k + 1) p')"
  by pat_completeness auto
termination
proof (relation "measure (\<lambda>(rs, k, p). stream_measure (stdin p))", goal_cases)
  case (2 rs k p line s)
  then show ?case using getline_decreases [of newline "[]" "stdin p"] by (metis case_prod_conv in_measure program.select_convs(1) program.surjective program.update_convs(1) snd_conv)
next
  case (3 rs k p line s choice p')
  then have "stream_measure s < stream_measure (stdin p)"
    using getline_decreases [of newline "[]" "stdin p"] by (metis snd_conv)
  moreover have "stream_measure (stdin p') \<le> stream_measure s"
    using bounded_input.choice [of "rs k" choice "p\<lparr>stdin := s\<rparr>" p' "stream_measure s"] 3 by simp
  ultimately show ?case by simp
qed simp

declare main_loop.simps [simp del]

end
