(* ===== verification/Session.thy ===== *)
theory Session
  imports Command_Line
begin

text \<open>
  The whole program: the menu loop on the ledger, wallet and node, interleaved with the steps of the
  network threads on the shared ledger.  The lemmas show that whatever the user types, the peers send
  and the system answers, the ledger moves by ledger operations only, the wallet by wallet operations
  and the node by node operations, so that the invariants of the components hold together; that a
  session ends; and what a payment and a restart do.
\<close>

section \<open>Steps of the program\<close>

text \<open>A choice is one round of the menu loop; mining needs a clock that is not behind the tip.  The
  user may type, and the threads of the node may run, between any two rounds: whole operations, or the
  single changes of shared state that operations interleaved with each other are made of.\<close>

inductive prog_step :: "program \<Rightarrow> program \<Rightarrow> bool" where
  choose: "menu_choice r c p = Some p' \<Longrightarrow>
    (c = 2 \<Longrightarrow> b_timestamp (last (chain (shared_chain p))) \<le> r_now r) \<Longrightarrow> prog_step p p'"
| typed: "prog_step p (p\<lparr>stdin := s\<rparr>)"
| network: "p2p_node p = Some n \<Longrightarrow>
    node_step (setupP2PCallbacks env) now (n\<lparr>ledger := shared_chain p\<rparr>) n' \<Longrightarrow>
    prog_step p (p\<lparr>p2p_node := Some n', shared_chain := ledger n'\<rparr>)"
| network_part: "p2p_node p = Some n \<Longrightarrow>
    node_change (setupP2PCallbacks env) now (n\<lparr>ledger := shared_chain p\<rparr>) n' \<Longrightarrow>
    prog_step p (p\<lparr>p2p_node := Some n', shared_chain := ledger n'\<rparr>)"

inductive_cases prog_stepE: "prog_step p p'"

section \<open>The ledger under the network\<close>

lemma main_onNewBlock_step: "bc_step\<^sup>*\<^sup>* c (main_onNewBlock b c)"
  by (auto simp: main_onNewBlock_def split: option.split intro: bc_step.receive)

lemma main_onNewTransaction_step: "bc_step\<^sup>*\<^sup>* c (main_onNewTransaction t c)"
  by (auto simp: main_onNewTransaction_def intro: bc_step.by_itself local_step.submit)

lemma setup_callbacks [simp]:
  "onNewBlock (setupP2PCallbacks env) = main_onNewBlock"
  "onNewTransaction (setupP2PCallbacks env) = main_onNewTransaction"
  by (simp_all add: setupP2PCallbacks_def)

lemma change_moves_ledger:
  "node_change (setupP2PCallbacks env) now n n' \<Longrightarrow> bc_step\<^sup>*\<^sup>* (ledger n) (ledger n')"
  by (induction rule: node_change.induct)
    (simp_all add: main_onNewBlock_step main_onNewTransaction_step cancelSync_def with_peer_def allocate_def
      enter_table_def)

section \<open>Every part moves by its own operations\<close>

definition parts_ok :: "(blockchain \<Rightarrow> bool) \<Rightarrow> (wallet \<Rightarrow> bool) \<Rightarrow> (node \<Rightarrow> bool) \<Rightarrow> program \<Rightarrow> bool" where
  "parts_ok L W N p \<longleftrightarrow> L (shared_chain p) \<and> W (user_wallet p) \<and> pred_option N (p2p_node p)"

lemma parts_ok_unrelated [simp]:
  "parts_ok L W N (p\<lparr>stdin := s\<rparr>) = parts_ok L W N p"
  "parts_ok L W N (p\<lparr>files := fs\<rparr>) = parts_ok L W N p"
  "parts_ok L W N (p\<lparr>rng := r\<rparr>) = parts_ok L W N p"
  by (simp_all add: parts_ok_def)

text \<open>What holds of a program when its parts are changed by the operations of their components.\<close>

locale program_invariant =
  fixes L :: "blockchain \<Rightarrow> bool" and W :: "wallet \<Rightarrow> bool" and N :: "node \<Rightarrow> bool"
  assumes ledger_ops: "L c \<Longrightarrow> bc_step c c' \<Longrightarrow> L c'"
    and wallet_ops: "W w \<Longrightarrow> wallet_step w w' \<Longrightarrow> W w'"
    and node_parts: "N n \<Longrightarrow> node_change (setupP2PCallbacks env) now n n' \<Longrightarrow> N n'"
    and node_ledger: "N n \<Longrightarrow> N (n\<lparr>ledger := c\<rparr>)"
    and node_new: "N (new_node own_id c cfg)"
begin

lemma ledger_run: "bc_step\<^sup>*\<^sup>* c c' \<Longrightarrow> L c \<Longrightarrow> L c'"
  by (induction rule: rtranclp_induct) (auto intro: ledger_ops)

lemma parts_kept:
  assumes "(node_change (setupP2PCallbacks env) now)\<^sup>*\<^sup>* n n'"
  shows "N n \<Longrightarrow> N n'" "L (ledger n) \<Longrightarrow> L (ledger n')"
  using assms by (induction rule: rtranclp_induct) (auto intro: node_parts ledger_run change_moves_ledger)

lemmas node_ops = parts_kept(1) [OF step_changes] and node_ledger_kept = parts_kept(2) [OF step_changes]

lemma on_node_kept:
  assumes "parts_ok L W N p" "\<And>n. node_step (setupP2PCallbacks env) now n (f n)"
  shows "parts_ok L W N (on_node f p)"
  using assms(1) node_ledger_kept [OF assms(2)] node_ops [OF assms(2) node_ledger]
  by (auto simp: parts_ok_def on_node_def Let_def split: option.split)

lemma set_wallet: "parts_ok L W N p \<Longrightarrow> wallet_step (user_wallet p) w \<Longrightarrow> parts_ok L W N (p\<lparr>user_wallet := w\<rparr>)"
  by (auto simp: parts_ok_def intro: wallet_ops)

lemma set_ledger: "parts_ok L W N p \<Longrightarrow> bc_step (shared_chain p) c \<Longrightarrow> parts_ok L W N (p\<lparr>shared_chain := c\<rparr>)"
  by (auto simp: parts_ok_def intro: ledger_ops)

lemma wallet_choices:
  assumes "parts_ok L W N p"
  shows "parts_ok L W N (createAddress p)" "parts_ok L W N (cli_importPrivateKey p)"
    "parts_ok L W N (selectAddress p)" "parts_ok L W N (saveWallet r p)" "parts_ok L W N (loadWallet p)"
proof -
  have made: "wallet_step w (fst (snd (generateNewAddress es w)))" for es w
    by (rule wallet_step.own, rule own_step.generate) (simp add: prod_eq_iff)
  show "parts_ok L W N (createAddress p)"
    using set_wallet [OF assms made] by (simp add: createAddress_def Let_def case_prod_beta)
  have imported: "wallet_step w (snd (importPrivateKey h w))" for h w
    by (rule wallet_step.own, rule own_step.import_private) (simp add: prod_eq_iff)
  show "parts_ok L W N (cli_importPrivateKey p)"
    using set_wallet [of "p\<lparr>stdin := s\<rparr>" for s, OF _ imported] assms
    by (simp add: cli_importPrivateKey_def Let_def split: prod.split option.split)
  show "parts_ok L W N (selectAddress p)"
    using set_wallet [of "p\<lparr>stdin := s\<rparr>" for s, OF _ wallet_step.own [OF own_step.select]] assms
    by (simp add: selectAddress_def Let_def split: prod.split option.split)
  show "parts_ok L W N (saveWallet r p)"
    using assms by (simp add: saveWallet_def Let_def split: prod.split option.split)
  have loaded: "wallet_step w (snd (wallet_loadFromFile content pw w))" for content pw w
    by (rule wallet_step.load) (simp add: prod_eq_iff)
  show "parts_ok L W N (loadWallet p)"
    using set_wallet [of "p\<lparr>stdin := s\<rparr>" for s, OF _ loaded] assms
    by (simp add: loadWallet_def Let_def split: prod.split option.split)
qed

lemma ledger_choices:
  assumes "parts_ok L W N p"
  shows "parts_ok L W N (cli_addTransaction r p)"
    and "cli_mine r p = Some p' \<Longrightarrow> b_timestamp (last (chain (shared_chain p))) \<le> r_now r \<Longrightarrow> parts_ok L W N p'"
    and "parts_ok L W N (cli_saveChain r p)" "cli_loadChain p = Some p' \<Longrightarrow> parts_ok L W N p'"
    and "parts_ok L W N (cli_checkBalance p)"
proof -
  have reads: "parts_ok L W N (p\<lparr>stdin := s, rng := g\<rparr>)" for s g using assms by simp
  show "parts_ok L W N (cli_addTransaction r p)"
    using assms set_ledger [OF reads bc_step.by_itself [OF local_step.submit]]
    by (simp add: cli_addTransaction_def Let_def split: prod.split option.split)
  show "parts_ok L W N p'" if "cli_mine r p = Some p'" "b_timestamp (last (chain (shared_chain p))) \<le> r_now r"
    using that assms set_ledger [OF reads bc_step.by_itself [OF local_step.mine]]
    by (auto simp: cli_mine_def Let_def split: prod.splits option.splits if_splits)
  show "parts_ok L W N (cli_saveChain r p)"
    using assms by (simp add: cli_saveChain_def Let_def split: prod.split option.split)
  show "parts_ok L W N p'" if "cli_loadChain p = Some p'"
    using that assms set_ledger [of "p\<lparr>stdin := s\<rparr>" for s, OF _ bc_step.load]
    by (auto simp: cli_loadChain_def Let_def split: prod.splits option.splits)
  show "parts_ok L W N (cli_checkBalance p)" using assms by (simp add: cli_checkBalance_def)
qed

lemma network_choices:
  assumes "parts_ok L W N p"
  shows "parts_ok L W N (startP2PNode r p)" "parts_ok L W N (stopP2PNode r p)"
    "parts_ok L W N (cli_connectToPeer r p)" "parts_ok L W N (cli_requestSync r p)"
proof -
  let ?env = "setupP2PCallbacks (r_system r)"
  note stopped = node_step.quiet [OF quiet_step.stop] and dialled = node_step.quiet [OF quiet_step.connect]
    and synced = node_step.quiet [OF quiet_step.sync] and started = node_step.quiet [OF quiet_step.start]
  have "N (snd (node_start ?env now (new_node i c cfg)))" "L c \<Longrightarrow> L (ledger (snd (node_start ?env now (new_node i c cfg))))"
    for now i c cfg
    using node_ops [OF started node_new] node_ledger_kept [OF started, of "new_node i c cfg"]
    by (simp_all add: new_node_def)
  then show "parts_ok L W N (startP2PNode r p)"
    using assms
    by (auto simp: startP2PNode_def parts_ok_def Let_def case_prod_beta split: option.split)
  show "parts_ok L W N (stopP2PNode r p)"
    using assms on_node_kept [OF assms stopped [of ?env]]
    by (auto simp: stopP2PNode_def parts_ok_def)
  show "parts_ok L W N (cli_connectToPeer r p)"
    using assms on_node_kept [of "p\<lparr>stdin := s\<rparr>" for s, OF _ dialled [of ?env]]
    by (simp add: cli_connectToPeer_def Let_def split: prod.split option.split)
  show "parts_ok L W N (cli_requestSync r p)"
    using assms on_node_kept [OF assms synced [of ?env]] by (simp add: cli_requestSync_def)
qed

lemma keep: "prog_step p p' \<Longrightarrow> parts_ok L W N p \<Longrightarrow> parts_ok L W N p'"
proof (erule prog_stepE)
  fix r c
  assume p: "parts_ok L W N p" "menu_choice r c p = Some p'"
    "c = 2 \<Longrightarrow> b_timestamp (last (chain (shared_chain p))) \<le> r_now r"
  then show "parts_ok L W N p'"
    using wallet_choices [OF p(1)] ledger_choices [OF p(1)] network_choices [OF p(1)]
    by (auto simp: menu_choice_def split: if_splits)
next
  fix n env now n'
  assume "parts_ok L W N p" "p' = p\<lparr>p2p_node := Some n', shared_chain := ledger n'\<rparr>" "p2p_node p = Some n"
    "node_step (setupP2PCallbacks env) now (n\<lparr>ledger := shared_chain p\<rparr>) n'"
  then show "parts_ok L W N p'"
    using node_ledger_kept node_ops [OF _ node_ledger] by (fastforce simp: parts_ok_def)
next
  fix n env now n'
  assume "parts_ok L W N p" "p' = p\<lparr>p2p_node := Some n', shared_chain := ledger n'\<rparr>" "p2p_node p = Some n"
    "node_change (setupP2PCallbacks env) now (n\<lparr>ledger := shared_chain p\<rparr>) n'"
  then show "parts_ok L W N p'"
    using parts_kept [OF r_into_rtranclp] node_ledger by (fastforce simp: parts_ok_def)
qed simp

lemma reach: "prog_step\<^sup>*\<^sup>* p p' \<Longrightarrow> parts_ok L W N p \<Longrightarrow> parts_ok L W N p'"
  by (induction rule: rtranclp_induct) (auto intro: keep)

end

text \<open>The invariants of the components together.\<close>

interpretation whole: program_invariant ledger_wf "\<lambda>w. list_all filed (key_pairs w)" node_ok
  by unfold_locales
    (blast intro: wf.keep filed_keys.keep table.change table.any_ledger new_node_ok)+

section \<open>A session ends\<close>

text \<open>All lines the input still holds satisfy \<open>P\<close>.\<close>

definition lines_left :: "(string \<Rightarrow> bool) \<Rightarrow> istream \<Rightarrow> bool" where
  "lines_left P s \<longleftrightarrow> s = AtEof \<or> s = Failed \<or>
     (\<exists>ls. s = Good (lines_of ls) \<and> list_all (\<lambda>l. newline \<notin> set l \<and> P l) ls)"

lemma lines_left_next:
  assumes "lines_left P s" "getline newline [] s = (line, s')"
  shows "lines_left P s'" "stream_ok s' \<Longrightarrow> P line"
proof -
  consider "s' = Failed" | ls where "s' = Good (lines_of ls)" "list_all (\<lambda>l. newline \<notin> set l \<and> P l) ls" "P line"
  proof (cases s)
    case (Good r)
    then obtain ls where r: "r = lines_of ls" "list_all (\<lambda>l. newline \<notin> set l \<and> P l) ls"
      using assms(1) by (auto simp: lines_left_def)
    then show ?thesis
      using assms(2) Good that by (cases ls) (auto simp: getline_end getline_delim)
  qed (use assms(2) that in \<open>auto simp: getline_end\<close>)
  then show "lines_left P s'" "stream_ok s' \<Longrightarrow> P line"
    by (cases; auto simp: lines_left_def stream_ok_def)+
qed

interpretation line_supply: input_law "lines_left P" for P
  by unfold_locales (metis lines_left_next(1) prod.collapse)

lemma menu_total:
  assumes "c \<noteq> 2"
  shows "\<exists>p'. menu_choice r c p = Some p'"
proof -
  have "\<exists>p'. cli_loadChain p = Some p'"
    using load_total by (fastforce simp: cli_loadChain_def Let_def split: prod.split option.split)
  then show ?thesis using assms by (simp add: menu_choice_def)
qed

lemma running_send_all [simp]: "running (send_all env is m st) = running st"
proof -
  have "running (snd (send_to env i m st)) = running st" for i st
    by (rule outbox_insert [of env i m st]) simp_all
  then show ?thesis by (induction "is" arbitrary: st) (simp_all add: send_all_def)
qed

lemma shutdown_stops: "\<not> node_running (shutdown r p)"
  by (auto simp: shutdown_def node_running_def on_node_def node_stop_def Let_def split: option.splits)

lemma main_loop_ends:
  "lines_left (\<lambda>l. parseInt l \<noteq> Some 2) (stdin p) \<Longrightarrow> \<exists>p'. main_loop rs k p = Some p' \<and> \<not> node_running p'"
proof (induction rs k p rule: main_loop.induct)
  case (1 rs k p)
  obtain line s where l: "getline newline [] (stdin p) = (line, s)" by fastforce
  note left = lines_left_next [OF "1.prems" l]
  show ?case
  proof (cases "stream_ok s \<and> parseInt line \<noteq> Some 0")
    case False
    then show ?thesis
      using l shutdown_stops by (subst main_loop.simps) (auto split: option.split)
  next
    case ok: True
    show ?thesis
    proof (cases "parseInt line")
      case None
      then show ?thesis
        using "1.IH"(1) [OF l [symmetric]] ok left(1) l by (subst main_loop.simps) simp
    next
      case (Some c)
      obtain p' where p': "menu_choice (rs k) c (p\<lparr>stdin := s\<rparr>) = Some p'"
        using menu_total [of c] left(2) ok Some by auto
      then have "lines_left (\<lambda>l. parseInt l \<noteq> Some 2) (stdin p')"
        using line_supply.choice [OF p'] left(1) by simp
      then show ?thesis
        using "1.IH"(2) [OF l [symmetric] _ Some _ p'] ok Some l p' by (subst main_loop.simps) simp
    qed
  qed
qed

section \<open>A payment\<close>

text \<open>What choice 1 adds to the pool is a valid payment from the selected address, under that
  address's own key, that the balance covers.\<close>

lemma payment_added:
  assumes "list_all self_signed (key_pairs (user_wallet p))"
    and "shared_chain (cli_addTransaction r p) \<noteq> shared_chain p"
  obtains t where
    "shared_chain (cli_addTransaction r p) =
       (shared_chain p)\<lparr>pending_transactions := pending_transactions (shared_chain p) @ [t]\<rparr>"
    "sender t = default_address (user_wallet p)" "derivedAddressFromKey t = sender t" "tx_valid t"
    "\<not> transactionExists (shared_chain p) t"
    "sender t \<noteq> ''system'' \<Longrightarrow> amount t \<le>
       to_int64 (getBalance (shared_chain p) (sender t) - pendingOutflow (shared_chain p) (sender t))"
proof -
  obtain es t t' es' a where
    sign: "wallet_signTransaction es (user_wallet p) t a = (True, t', es')"
    and a: "a = default_address (user_wallet p)"
    and added: "shared_chain (cli_addTransaction r p) = bc_addTransaction t' (shared_chain p)"
    using assms(2) by (auto simp: cli_addTransaction_def Let_def split: prod.splits option.splits if_splits)
  note s = wallet_signs [OF assms(1) sign]
  have t': "sender t' = a" "derivedAddressFromKey t' = a"
    using s(1,2,4) by (simp_all add: signed_fields_def)
  show thesis
    by (rule that [of t'])
      (use added assms(2) t' a in \<open>auto simp: bc_addTransaction_def split: if_splits\<close>)
qed

section \<open>A restart\<close>

lemma ask_text: "\<not> isBlank l \<Longrightarrow> newline \<notin> set l \<Longrightarrow> promptText (Good (l @ newline # rest)) = (Some l, Good rest)"
  unfolding promptText_def
  by (subst prompt_until.simps) (simp add: promptLine_def getline_delim stream_ok_def)

lemma ask_password: "newline \<notin> set l \<Longrightarrow> promptPassword (Good (l @ newline # rest)) = (Some l, Good rest)"
  by (simp add: promptPassword_def promptLine_def getline_delim stream_ok_def)

text \<open>A wallet saved by choice 12 is the wallet of any later session that loads the file.\<close>

lemma wallet_restart:
  assumes "well_addressed w" "list_all filed (key_pairs w)" "list_all usable (key_pairs w)" "key_pairs w \<noteq> []"
    and "user_wallet p = w" "stdin p = Good (name @ newline # pw @ newline # pw @ newline # rest)"
    and "\<not> isBlank name" "newline \<notin> set name" "newline \<notin> set pw"
    and "fst (wallet_saveToFile (r_can_write r name) (fst (rng p)) pw w)"
    and "files q = files (saveWallet r p)" "stdin q = Good (name @ newline # pw @ newline # rest')"
  shows "user_wallet (loadWallet q) = w"
proof -
  obtain content es where save: "wallet_saveToFile (r_can_write r name) (fst (rng p)) pw w = (True, Some content, es)"
    using assms(10) by (auto simp: wallet_saveToFile_def split: prod.splits if_splits)
  have "files (saveWallet r p) name = Some content"
    using assms(4-9) save
    by (simp add: saveWallet_def getAllAddresses_def Let_def ask_text ask_password)
  then show ?thesis
    using save_load_wallet [OF assms(1-3) save] assms(7-9,11,12)
    by (simp add: loadWallet_def Let_def ask_text ask_password)
qed

lemma payment_of_own_wallet:
  assumes "own_step\<^sup>*\<^sup>* empty_wallet (user_wallet p)"
    and "shared_chain (cli_addTransaction r p) \<noteq> shared_chain p"
  shows "\<exists>t. shared_chain (cli_addTransaction r p) =
      (shared_chain p)\<lparr>pending_transactions := pending_transactions (shared_chain p) @ [t]\<rparr> \<and>
    sender t = default_address (user_wallet p) \<and> derivedAddressFromKey t = sender t \<and> tx_valid t \<and>
    amount t \<le> to_int64 (getBalance (shared_chain p) (sender t) - pendingOutflow (shared_chain p) (sender t))"
proof -
  have self: "list_all self_signed (key_pairs (user_wallet p))"
    using signers.own_reach [OF assms(1)] by (simp add: empty_wallet_def)
  obtain t where t: "shared_chain (cli_addTransaction r p) =
       (shared_chain p)\<lparr>pending_transactions := pending_transactions (shared_chain p) @ [t]\<rparr>"
    "sender t = default_address (user_wallet p)" "derivedAddressFromKey t = sender t" "tx_valid t"
    "sender t \<noteq> ''system'' \<Longrightarrow> amount t \<le>
       to_int64 (getBalance (shared_chain p) (sender t) - pendingOutflow (shared_chain p) (sender t))"
    using payment_added [OF self assms(2)] by blast
  have "length (derivedAddressFromKey t) = 40"
    using derivedAddressFromKey_hex [of t] t(3) tx_valid_basic(1) [OF t(4)] by auto
  then have "sender t \<noteq> ''system''" using t(3) by auto
  then show ?thesis using t by blast
qed

end
