(* ===== verification/Int_Primes.thy ===== *)
theory Int_Primes
  imports Main
begin

text \<open>
  Prime integers: the least divisor of a number, Fermat's little theorem, and a primality test that
  needs one large prime factor \<open>f\<close> of \<open>n - 1\<close> (Pocklington's criterion, in the form that is
  satisfied with \<open>f > n\<^sup>1\<^sup>/\<^sup>3\<close>).
\<close>

definition prime_int :: "int \<Rightarrow> bool" where
  "prime_int p \<longleftrightarrow> 1 < p \<and> (\<forall>d. 0 < d \<longrightarrow> d dvd p \<longrightarrow> d = 1 \<or> d = p)"

lemma prime_int_gt_1: "prime_int p \<Longrightarrow> 1 < p"
  by (simp add: prime_int_def)

lemma prime_coprime:
  assumes "prime_int p" "\<not> p dvd a"
  shows "coprime p a"
proof -
  have "0 < gcd p a" using prime_int_gt_1 [OF assms(1)] by simp
  then have "gcd p a = 1" using assms by (metis gcd_dvd1 gcd_dvd2 prime_int_def)
  then show ?thesis by (simp add: coprime_iff_gcd_eq_1)
qed

lemma prime_dvd_mult: "prime_int p \<Longrightarrow> p dvd a * b \<longleftrightarrow> p dvd a \<or> p dvd b"
  using prime_coprime coprime_dvd_mult_right_iff by (metis dvd_mult dvd_mult2)

lemma prime_dvd_prod:
  assumes "prime_int p" "finite A"
  shows "p dvd prod f A \<longleftrightarrow> (\<exists>x\<in>A. p dvd f x)"
  using assms(2) prime_int_gt_1 [OF assms(1)]
  by (induction A rule: finite_induct) (auto simp: prime_dvd_mult [OF assms(1)])

lemma prime_divisor:
  assumes "1 < (n::int)"
  obtains q where "prime_int q" "q dvd n" "q = n \<or> q * q \<le> n"
proof -
  define D where "D = {d. 1 < d \<and> d dvd n}"
  have D: "n \<in> D" "D \<subseteq> {1..n}" using assms by (auto simp: D_def dest: zdvd_imp_le)
  then have fin: "finite D" by (meson finite_atLeastAtMost_int finite_subset)
  define q where "q = Min D"
  have q: "1 < q" "q dvd n" using Min_in [OF fin] D(1) unfolding q_def D_def by blast+
  have least: "q \<le> d" if "1 < d" "d dvd n" for d using that fin by (simp add: q_def D_def)
  have "prime_int q" unfolding prime_int_def
  proof (intro conjI allI impI)
    fix d assume "0 < d" "d dvd q"
    then show "d = 1 \<or> d = q" using least [of d] q zdvd_imp_le [of d q] dvd_trans by fastforce
  qed (use q in simp)
  moreover have "q * q \<le> n" if "q \<noteq> n"
  proof -
    obtain k where k: "n = q * k" using q by blast
    have "0 < k" using k assms q(1) by (metis less_trans zero_less_mult_pos zero_less_one)
    moreover have "k \<noteq> 1" using that k by auto
    ultimately have "1 < k" by simp
    then have "q \<le> k" using least [of k] k by simp
    then show ?thesis using k q by simp
  qed
  ultimately show thesis using that q by blast
qed

section \<open>Fermat's little theorem\<close>

lemma mult_mod_inj:
  assumes "prime_int p" "\<not> p dvd a"
  shows "inj_on (\<lambda>x. a * x mod p) {1..<p}"
proof
  fix x y assume x: "x \<in> {1..<p}" and y: "y \<in> {1..<p}" and "a * x mod p = a * y mod p"
  then have "p dvd a * (x - y)" by (simp add: mod_eq_dvd_iff right_diff_distrib)
  then have "p dvd x - y" using assms prime_dvd_mult by blast
  then show "x = y" using x y by (metis atLeastLessThan_iff mod_eq_dvd_iff mod_pos_pos_trivial order_trans zero_le_one)
qed

lemma fermat_little:
  assumes p: "prime_int p" and a: "\<not> p dvd a"
  shows "a ^ nat (p - 1) mod p = 1"
proof -
  let ?S = "{1..<p}"
  have "(\<lambda>x. a * x mod p) ` ?S \<subseteq> ?S"
  proof
    fix z assume "z \<in> (\<lambda>x. a * x mod p) ` ?S"
    then obtain x where x: "x \<in> ?S" "z = a * x mod p" by blast
    have "\<not> p dvd x" using x zdvd_not_zless by auto
    then have "\<not> p dvd a * x" using p a prime_dvd_mult by blast
    then have "z \<noteq> 0" using x by (simp add: dvd_eq_mod_eq_0)
    then show "z \<in> ?S" using x prime_int_gt_1 [OF p]
      by (metis atLeastLessThan_iff int_one_le_iff_zero_less order.strict_trans order_le_less pos_mod_bound pos_mod_sign zero_less_one)
  qed
  then have image: "(\<lambda>x. a * x mod p) ` ?S = ?S"
    using endo_inj_surj [OF _ _ mult_mod_inj [OF p a]] by simp
  have "prod (\<lambda>x. x) ?S = (\<Prod>x\<in>?S. a * x mod p)"
    using prod.reindex [OF mult_mod_inj [OF p a], of "\<lambda>x. x"] image by simp
  then have "prod (\<lambda>x. x) ?S mod p = (\<Prod>x\<in>?S. a * x) mod p"
    by (metis mod_prod_eq)
  also have "(\<Prod>x\<in>?S. a * x) = a ^ nat (p - 1) * prod (\<lambda>x. x) ?S"
    by (simp add: prod.distrib)
  finally have "p dvd (a ^ nat (p - 1) - 1) * prod (\<lambda>x. x) ?S"
    by (simp add: mod_eq_dvd_iff left_diff_distrib dvd_diff_commute)
  moreover have "\<not> p dvd prod (\<lambda>x. x) ?S"
  proof
    assume "p dvd prod (\<lambda>x. x) ?S"
    then obtain x where "x \<in> ?S" "p dvd x" using prime_dvd_prod [OF p, of ?S "\<lambda>x. x"] by auto
    then show False using zdvd_not_zless [of x p] by simp
  qed
  ultimately have "p dvd a ^ nat (p - 1) - 1" using prime_dvd_mult [OF p] by blast
  then show ?thesis using prime_int_gt_1 [OF p] by (metis mod_eq_dvd_iff mod_pos_pos_trivial zero_le_one)
qed

section \<open>A primality test\<close>

text \<open>
  If \<open>b\<close> has order \<open>f\<close> modulo every prime divisor of \<open>n\<close>, all divisors are 1 modulo \<open>f\<close>.
\<close>

lemma divisor_mod:
  assumes f: "prime_int f" and b: "b ^ nat f mod n = 1" "i * (b - 1) mod n = 1"
    and q: "prime_int q" "q dvd n"
  shows "f dvd q - 1"
proof (rule ccontr)
  assume "\<not> f dvd q - 1"
  then have "coprime (nat f) (nat (q - 1))"
    using prime_coprime [OF f] prime_int_gt_1 [OF f] prime_int_gt_1 [OF q(1)]
    by (metis coprime_int_iff int_nat_eq leD less_imp_le diff_ge_0_iff_ge order.trans zero_le_one)
  moreover have "nat f \<noteq> 0" using prime_int_gt_1 [OF f] by simp
  ultimately obtain u v where uv: "nat f * u = nat (q - 1) * v + 1"
    using bezout_add_strong_nat [of "nat f" "nat (q - 1)"] coprime_common_divisor_nat by metis
  have one: "b ^ nat f mod q = 1" "i * (b - 1) mod q = 1"
    using b q prime_int_gt_1 [OF q(1)] by (metis mod_mod_cancel mod_pos_pos_trivial zero_le_one)+
  have "\<not> q dvd b"
  proof
    assume "q dvd b"
    then have "q dvd b ^ nat f" using \<open>nat f \<noteq> 0\<close> by (meson dvd_power dvd_trans gr0I)
    then show False using one(1) by simp
  qed
  then have fermat: "b ^ nat (q - 1) mod q = 1" by (rule fermat_little [OF q(1)])
  have "b ^ (nat f * u) mod q = 1"
    using one(1) prime_int_gt_1 [OF q(1)] by (metis mod_pos_pos_trivial power_mod power_mult power_one zero_le_one)
  moreover have "b ^ (nat (q - 1) * v + 1) mod q = b mod q"
    using fermat by (metis add.commute mod_mult_left_eq mult_1 power_add power_mod power_mult power_one power_one_right)
  ultimately have "(b - 1) mod q = 0" using uv by (metis diff_self mod_0 mod_diff_left_eq mod_diff_eq)
  then have "i * (b - 1) mod q = 0" by (metis mod_mult_right_eq mod_0 mult_zero_right)
  then show False using one(2) by simp
qed

theorem prime_by_factor:
  assumes f: "prime_int f" and n: "n = c2 * f * f + c1 * f + 1" "1 < n"
    and c: "0 \<le> c1" "c1 < f" "0 \<le> c2" "c2 < f"
    and square: "c2 = 0 \<or> (\<forall>s. s * s \<noteq> c1 * c1 - 4 * c2)"
    and b: "b ^ nat f mod n = 1" "i * (b - 1) mod n = 1"
  shows "prime_int n"
proof (rule ccontr)
  assume "\<not> prime_int n"
  then obtain q where q: "prime_int q" "q dvd n" "q * q \<le> n"
    using prime_divisor [OF n(2)] by metis
  have f1: "1 < f" "1 < q" using f q(1) prime_int_gt_1 by blast+
  obtain u where u: "q - 1 = f * u" using divisor_mod [OF f b q(1,2)] by blast
  obtain k where k: "n = q * k" using q(2) by blast
  have "q \<le> k" using q(3) f1 k by simp
  have "f dvd k - 1"
  proof -
    have "f dvd n - 1" using n(1) by simp
    moreover have "n - 1 - (k - 1) = (q - 1) * k" using k by (simp add: algebra_simps)
    ultimately show ?thesis using u by (metis dvd_diff_right_iff dvd_mult2 dvd_triv_left)
  qed
  then obtain v where v: "k - 1 = f * v" by blast
  have pos: "0 < u" "0 < v" using u v f1 \<open>q \<le> k\<close> by (metis diff_gt_0_iff_gt less_le_trans zero_less_mult_pos less_trans zero_less_one)+
  have "q = 1 + f * u" "k = 1 + f * v" using u v by simp_all
  then have "n = (1 + f * u) * (1 + f * v)" using k by simp
  then have "f * (u * v * f + (u + v)) = f * (c2 * f + c1)" using n(1) by (simp add: algebra_simps)
  then have sum: "u * v * f + (u + v) = c2 * f + c1" using f1 by simp
  define e where "e = c2 - u * v"
  have e: "u + v = c1 + e * f" using sum by (simp add: e_def algebra_simps)
  have uv: "u + v \<le> u * v + 1" using mult_nonneg_nonneg [of "u - 1" "v - 1"] pos by (simp add: algebra_simps)
  have "0 < u * v" using pos by simp
  have "0 \<le> e"
  proof (rule ccontr)
    assume "\<not> 0 \<le> e"
    then have "e * f \<le> - 1 * f" using f1 by (intro mult_right_mono) auto
    then show False using e pos c by simp
  qed
  moreover have "e < 1"
  proof (rule ccontr)
    assume "\<not> e < 1"
    then have "f \<le> e * f" using mult_right_mono [of 1 e f] f1 by simp
    moreover have "u * v \<le> c2 - 1" using \<open>\<not> e < 1\<close> by (simp add: e_def)
    ultimately show False using e uv c by linarith
  qed
  ultimately have "u + v = c1" "u * v = c2" using e by (simp_all add: e_def)
  then have "(u - v) * (u - v) = c1 * c1 - 4 * c2" by (auto simp: algebra_simps)
  then show False using square \<open>0 < u * v\<close> \<open>u * v = c2\<close> by (metis less_irrefl)
qed

text \<open>A number strictly between two consecutive squares is not a square.\<close>

lemma not_square:
  assumes "0 \<le> (r::int)" "r * r < d" "d < (r + 1) * (r + 1)"
  shows "s * s \<noteq> d"
proof
  assume "s * s = d"
  then have "r < \<bar>s\<bar>" "\<bar>s\<bar> < r + 1"
    using assms abs_mult_self_eq [of s] by (metis abs_ge_zero mult_mono' not_less, metis add_nonneg_nonneg mult_mono' not_less zero_le_one)
  then show False by simp
qed

end
