(* ===== verification/Quaternary.thy ===== *)
theory Quaternary
  imports Main
begin

text \<open>
  Arithmetic on numbers written in base 4, least digit first, by equations that the simplifier
  evaluates quickly: addition, multiplication, and reduction modulo numbers slightly below a power
  of 4.  It serves to check certificates about numbers of several hundred bits in the kernel.
\<close>

section \<open>Digits\<close>

datatype quad = QZ | D0 quad | D1 quad | D2 quad | D3 quad

fun val4 :: "quad \<Rightarrow> int" where
  "val4 QZ = 0"
| "val4 (D0 a) = 4 * val4 a"
| "val4 (D1 a) = 4 * val4 a + 1"
| "val4 (D2 a) = 4 * val4 a + 2"
| "val4 (D3 a) = 4 * val4 a + 3"

fun quad_of_num :: "num \<Rightarrow> quad" where
  "quad_of_num num.One = D1 QZ"
| "quad_of_num (num.Bit0 num.One) = D2 QZ"
| "quad_of_num (num.Bit1 num.One) = D3 QZ"
| "quad_of_num (num.Bit0 (num.Bit0 m)) = D0 (quad_of_num m)"
| "quad_of_num (num.Bit1 (num.Bit0 m)) = D1 (quad_of_num m)"
| "quad_of_num (num.Bit0 (num.Bit1 m)) = D2 (quad_of_num m)"
| "quad_of_num (num.Bit1 (num.Bit1 m)) = D3 (quad_of_num m)"

definition quad_of :: "int \<Rightarrow> quad" where
  "quad_of n = (if n \<le> 0 then QZ else quad_of_num (num_of_nat (nat n)))"

fun qinc :: "quad \<Rightarrow> quad" where
  "qinc QZ = D1 QZ"
| "qinc (D0 a) = D1 a"
| "qinc (D1 a) = D2 a"
| "qinc (D2 a) = D3 a"
| "qinc (D3 a) = D0 (qinc a)"

text \<open>Addition without and with a carry.\<close>

fun qadd :: "quad \<Rightarrow> quad \<Rightarrow> quad" and qaddc :: "quad \<Rightarrow> quad \<Rightarrow> quad" where
  "qadd QZ b = b" | "qadd a QZ = a" | "qaddc QZ b = qinc b" | "qaddc a QZ = qinc a"
| "qadd (D0 a) (D0 b) = D0 (qadd a b)" | "qadd (D0 a) (D1 b) = D1 (qadd a b)"
| "qadd (D0 a) (D2 b) = D2 (qadd a b)" | "qadd (D0 a) (D3 b) = D3 (qadd a b)"
| "qadd (D1 a) (D0 b) = D1 (qadd a b)" | "qadd (D1 a) (D1 b) = D2 (qadd a b)"
| "qadd (D1 a) (D2 b) = D3 (qadd a b)" | "qadd (D1 a) (D3 b) = D0 (qaddc a b)"
| "qadd (D2 a) (D0 b) = D2 (qadd a b)" | "qadd (D2 a) (D1 b) = D3 (qadd a b)"
| "qadd (D2 a) (D2 b) = D0 (qaddc a b)" | "qadd (D2 a) (D3 b) = D1 (qaddc a b)"
| "qadd (D3 a) (D0 b) = D3 (qadd a b)" | "qadd (D3 a) (D1 b) = D0 (qaddc a b)"
| "qadd (D3 a) (D2 b) = D1 (qaddc a b)" | "qadd (D3 a) (D3 b) = D2 (qaddc a b)"
| "qaddc (D0 a) (D0 b) = D1 (qadd a b)" | "qaddc (D0 a) (D1 b) = D2 (qadd a b)"
| "qaddc (D0 a) (D2 b) = D3 (qadd a b)" | "qaddc (D0 a) (D3 b) = D0 (qaddc a b)"
| "qaddc (D1 a) (D0 b) = D2 (qadd a b)" | "qaddc (D1 a) (D1 b) = D3 (qadd a b)"
| "qaddc (D1 a) (D2 b) = D0 (qaddc a b)" | "qaddc (D1 a) (D3 b) = D1 (qaddc a b)"
| "qaddc (D2 a) (D0 b) = D3 (qadd a b)" | "qaddc (D2 a) (D1 b) = D0 (qaddc a b)"
| "qaddc (D2 a) (D2 b) = D1 (qaddc a b)" | "qaddc (D2 a) (D3 b) = D2 (qaddc a b)"
| "qaddc (D3 a) (D0 b) = D0 (qaddc a b)" | "qaddc (D3 a) (D1 b) = D1 (qaddc a b)"
| "qaddc (D3 a) (D2 b) = D2 (qaddc a b)" | "qaddc (D3 a) (D3 b) = D3 (qaddc a b)"

fun qdbl :: "quad \<Rightarrow> quad" and qdblc :: "quad \<Rightarrow> quad" where
  "qdbl QZ = QZ" | "qdblc QZ = D1 QZ"
| "qdbl (D0 a) = D0 (qdbl a)" | "qdbl (D1 a) = D2 (qdbl a)"
| "qdbl (D2 a) = D0 (qdblc a)" | "qdbl (D3 a) = D2 (qdblc a)"
| "qdblc (D0 a) = D1 (qdbl a)" | "qdblc (D1 a) = D3 (qdbl a)"
| "qdblc (D2 a) = D1 (qdblc a)" | "qdblc (D3 a) = D3 (qdblc a)"

text \<open>Multiplication, given the threefold and the double of the second factor.\<close>

fun qmul3 :: "quad \<Rightarrow> quad \<Rightarrow> quad \<Rightarrow> quad \<Rightarrow> quad" where
  "qmul3 QZ b b2 b3 = QZ"
| "qmul3 (D0 a) b b2 b3 = D0 (qmul3 a b b2 b3)"
| "qmul3 (D1 a) b b2 b3 = qadd b (D0 (qmul3 a b b2 b3))"
| "qmul3 (D2 a) b b2 b3 = qadd b2 (D0 (qmul3 a b b2 b3))"
| "qmul3 (D3 a) b b2 b3 = qadd b3 (D0 (qmul3 a b b2 b3))"

definition qmul :: "quad \<Rightarrow> quad \<Rightarrow> quad" where
  "qmul a b = qmul3 a b (qdbl b) (qadd b (qdbl b))"

lemma val4_nonneg [simp]: "0 \<le> val4 a"
  by (induction a) simp_all

lemma val4_quad_of_num: "val4 (quad_of_num m) = numeral m"
  by (induction m rule: quad_of_num.induct)
    (simp_all only: val4.simps quad_of_num.simps numeral_Bit0 numeral_Bit1 numeral_One distrib_right mult_1_left
      mult_zero_right add.assoc add.commute add.left_commute add_0_left)

lemma quad_of_numeral: "quad_of (numeral m) = quad_of_num m"
  by (simp add: quad_of_def)

lemma quad_of_one: "quad_of 1 = D1 QZ"
  by (simp add: quad_of_def)

lemma val4_quad_of: "0 \<le> n \<Longrightarrow> val4 (quad_of n) = n"
  by (auto simp: quad_of_def val4_quad_of_num num_of_nat_inverse simp flip: of_nat_numeral nat_of_num_numeral)

lemma val4_qinc [simp]: "val4 (qinc a) = val4 a + 1"
  by (induction a) simp_all

lemma val4_qadd [simp]: "val4 (qadd a b) = val4 a + val4 b" "val4 (qaddc a b) = val4 a + val4 b + 1"
  by (induction a b and a b rule: qadd_qaddc.induct) simp_all

lemma val4_qdbl [simp]: "val4 (qdbl a) = 2 * val4 a" "val4 (qdblc a) = 2 * val4 a + 1"
  by (induction a and a rule: qdbl_qdblc.induct) simp_all

lemma val4_qmul [simp]: "val4 (qmul a b) = val4 a * val4 b"
proof -
  have "val4 (qmul3 a b b2 b3) = val4 a * val4 b" if "val4 b2 = 2 * val4 b" "val4 b3 = 3 * val4 b" for b2 b3
    by (induction a) (simp_all add: that algebra_simps)
  then show ?thesis by (simp add: qmul_def)
qed

section \<open>Reduction\<close>

text \<open>
  A template is a row of threes; it stands for the power of 4 above it.  The digits of a number
  below and above that power, and the complement of the digits below.
\<close>

fun threes :: "quad \<Rightarrow> bool" where
  "threes (D3 t) = threes t"
| "threes t = (t = QZ)"

fun qlow :: "quad \<Rightarrow> quad \<Rightarrow> quad" where
  "qlow (D3 t) (D0 a) = D0 (qlow t a)" | "qlow (D3 t) (D1 a) = D1 (qlow t a)"
| "qlow (D3 t) (D2 a) = D2 (qlow t a)" | "qlow (D3 t) (D3 a) = D3 (qlow t a)"
| "qlow t a = QZ"

fun qhigh :: "quad \<Rightarrow> quad \<Rightarrow> quad" where
  "qhigh (D3 t) (D0 a) = qhigh t a" | "qhigh (D3 t) (D1 a) = qhigh t a"
| "qhigh (D3 t) (D2 a) = qhigh t a" | "qhigh (D3 t) (D3 a) = qhigh t a"
| "qhigh t a = a"

fun qneg_low :: "quad \<Rightarrow> quad \<Rightarrow> quad" where
  "qneg_low (D3 t) (D0 a) = D3 (qneg_low t a)" | "qneg_low (D3 t) (D1 a) = D2 (qneg_low t a)"
| "qneg_low (D3 t) (D2 a) = D1 (qneg_low t a)" | "qneg_low (D3 t) (D3 a) = D0 (qneg_low t a)"
| "qneg_low t a = t"

lemma val4_split: "threes t \<Longrightarrow> val4 (qlow t a) + (val4 t + 1) * val4 (qhigh t a) = val4 a"
  by (induction t a rule: qlow.induct) (auto simp: algebra_simps)

lemma val4_qneg_low: "threes t \<Longrightarrow> val4 (qneg_low t a) = val4 t - val4 (qlow t a)"
  by (induction t a rule: qlow.induct) auto

text \<open>
  Reduction modulo \<open>m\<close>, where the power of 4 is \<open>c\<close> modulo \<open>m\<close> and \<open>d\<close> is \<open>- c\<close>.  It brings a
  product of two reduced numbers down to about the size of \<open>m\<close>.
\<close>

definition qfold :: "quad \<Rightarrow> quad \<Rightarrow> quad \<Rightarrow> quad" where
  "qfold t c a = qadd (qlow t a) (qmul (qhigh t a) c)"

definition qred :: "quad \<Rightarrow> quad \<Rightarrow> quad \<Rightarrow> quad" where
  "qred t c a = qfold t c (qfold t c (qfold t c (qfold t c a)))"

definition qneg :: "quad \<Rightarrow> quad \<Rightarrow> quad \<Rightarrow> quad" where
  "qneg t d a = qinc (qadd (qneg_low t a) (qmul (qinc (qhigh t a)) d))"

definition is_modulus :: "int \<Rightarrow> quad \<Rightarrow> quad \<Rightarrow> quad \<Rightarrow> bool" where
  "is_modulus m t c d \<longleftrightarrow> threes t \<and> m dvd val4 t + 1 - val4 c \<and> m dvd val4 c + val4 d"

lemma val4_qfold:
  assumes "is_modulus m t c d"
  shows "val4 (qfold t c a) mod m = val4 a mod m"
proof -
  have "m dvd (val4 t + 1 - val4 c) * val4 (qhigh t a)" using assms by (simp add: is_modulus_def)
  moreover have "val4 a - val4 (qfold t c a) = (val4 t + 1 - val4 c) * val4 (qhigh t a)"
    using val4_split [of t a] assms by (simp add: is_modulus_def qfold_def algebra_simps)
  ultimately show ?thesis by (simp add: mod_eq_dvd_iff dvd_diff_commute)
qed

lemma val4_qred: "is_modulus m t c d \<Longrightarrow> val4 (qred t c a) mod m = val4 a mod m"
  by (simp add: qred_def val4_qfold)

lemma val4_qneg:
  assumes "is_modulus m t c d"
  shows "val4 (qneg t d a) mod m = (- val4 a) mod m"
proof -
  have "m dvd (val4 t + 1 - val4 c) * (val4 (qhigh t a) + 1) + (val4 c + val4 d) * (val4 (qhigh t a) + 1)"
    using assms unfolding is_modulus_def by (intro dvd_add [OF dvd_mult2 dvd_mult2]) blast+
  moreover have "val4 (qneg t d a) - (- val4 a) =
      (val4 t + 1 - val4 c) * (val4 (qhigh t a) + 1) + (val4 c + val4 d) * (val4 (qhigh t a) + 1)"
    using val4_split [of t a] val4_qneg_low [of t a] assms by (simp add: is_modulus_def qneg_def algebra_simps)
  ultimately show ?thesis by (simp only: mod_eq_dvd_iff)
qed

text \<open>Numbers that are 0 modulo \<open>m\<close>: the digits are 0, or they are \<open>t + 1 - c\<close>.\<close>

fun quad_zero :: "quad \<Rightarrow> bool" where
  "quad_zero QZ = True" | "quad_zero (D0 a) = quad_zero a" | "quad_zero (D1 a) = False"
| "quad_zero (D2 a) = False" | "quad_zero (D3 a) = False"

fun quad_power :: "quad \<Rightarrow> quad \<Rightarrow> bool" where
  "quad_power (D3 t) (D0 a) = quad_power t a" | "quad_power QZ (D1 a) = quad_zero a"
| "quad_power t a = False"

definition zero_mod :: "quad \<Rightarrow> quad \<Rightarrow> quad \<Rightarrow> bool" where
  "zero_mod t c a \<longleftrightarrow> quad_zero a \<or> quad_power t (qadd a c)"

lemma is_zero_val4: "quad_zero a \<Longrightarrow> val4 a = 0"
  by (induction a) simp_all

lemma is_power_val4: "quad_power t a \<Longrightarrow> val4 a = val4 t + 1"
  by (induction t a rule: quad_power.induct) (auto dest: is_zero_val4)

lemma zero_mod:
  assumes "is_modulus m t c d" "zero_mod t c a"
  shows "m dvd val4 a"
proof -
  have "val4 a = 0 \<or> val4 a = val4 t + 1 - val4 c"
    using assms(2) is_zero_val4 is_power_val4 [of t "qadd a c"] by (auto simp: zero_mod_def)
  then show ?thesis using assms(1) unfolding is_modulus_def by auto
qed

section \<open>Powers\<close>

definition qsquare :: "quad \<Rightarrow> quad \<Rightarrow> quad \<Rightarrow> quad" where
  "qsquare t c a = qred t c (qmul a a)"

text \<open>From \<open>acc\<close>, two squarings and a multiplication for every digit of the exponent.\<close>

fun qpow3 :: "quad \<Rightarrow> quad \<Rightarrow> quad \<Rightarrow> quad \<Rightarrow> quad \<Rightarrow> quad \<Rightarrow> quad \<Rightarrow> quad" where
  "qpow3 t c b b2 b3 acc QZ = acc"
| "qpow3 t c b b2 b3 acc (D0 e) = qsquare t c (qsquare t c (qpow3 t c b b2 b3 acc e))"
| "qpow3 t c b b2 b3 acc (D1 e) = qred t c (qmul b (qsquare t c (qsquare t c (qpow3 t c b b2 b3 acc e))))"
| "qpow3 t c b b2 b3 acc (D2 e) = qred t c (qmul b2 (qsquare t c (qsquare t c (qpow3 t c b b2 b3 acc e))))"
| "qpow3 t c b b2 b3 acc (D3 e) = qred t c (qmul b3 (qsquare t c (qsquare t c (qpow3 t c b b2 b3 acc e))))"

definition qpow :: "quad \<Rightarrow> quad \<Rightarrow> quad \<Rightarrow> quad \<Rightarrow> quad \<Rightarrow> quad" where
  "qpow t c b acc e = qpow3 t c b (qsquare t c b) (qred t c (qmul b (qsquare t c b))) acc e"

fun quad_digits :: "quad \<Rightarrow> nat" where
  "quad_digits QZ = 0" | "quad_digits (D0 a) = Suc (quad_digits a)" | "quad_digits (D1 a) = Suc (quad_digits a)"
| "quad_digits (D2 a) = Suc (quad_digits a)" | "quad_digits (D3 a) = Suc (quad_digits a)"

fun qeq :: "quad \<Rightarrow> quad \<Rightarrow> bool" where
  "qeq QZ b = quad_zero b" | "qeq (D0 a) QZ = quad_zero a"
| "qeq (D0 a) (D0 b) = qeq a b" | "qeq (D1 a) (D1 b) = qeq a b"
| "qeq (D2 a) (D2 b) = qeq a b" | "qeq (D3 a) (D3 b) = qeq a b"
| "qeq a b = False"

lemma qeq_val4: "qeq a b \<Longrightarrow> val4 a = val4 b"
  by (induction a b rule: qeq.induct) (auto dest: is_zero_val4)

text \<open>\<open>a\<close> stands for the \<open>i\<close>-th power of \<open>x\<close> modulo \<open>m\<close>.\<close>

definition is_pow :: "int \<Rightarrow> int \<Rightarrow> quad \<Rightarrow> nat \<Rightarrow> bool" where
  "is_pow m x a i \<longleftrightarrow> val4 a mod m = x ^ i mod m"

lemma is_pow_mult:
  assumes "is_modulus m t c d" "is_pow m x a i" "is_pow m x b j"
  shows "is_pow m x (qred t c (qmul a b)) (i + j)"
  using assms(2,3) by (simp add: is_pow_def val4_qred [OF assms(1)] power_add) (metis mod_mult_eq)

lemma is_pow_square: "is_modulus m t c d \<Longrightarrow> is_pow m x a i \<Longrightarrow> is_pow m x (qsquare t c a) (i + i)"
  unfolding qsquare_def by (rule is_pow_mult)

lemma is_pow_qpow:
  assumes m: "is_modulus m t c d" and b: "is_pow m x b 1" and acc: "is_pow m x acc k"
  shows "is_pow m x (qpow t c b acc e) (k * 4 ^ quad_digits e + nat (val4 e))"
proof -
  let ?b2 = "qsquare t c b"
  let ?b3 = "qred t c (qmul b ?b2)"
  note b2 = is_pow_square [OF m b] and mult = is_pow_mult [OF m]
  note b3 = is_pow_mult [OF m b b2]
  have sq4: "is_pow m x (qsquare t c (qsquare t c a)) (4 * n)" if "is_pow m x a n" for a n
    using is_pow_square [OF m is_pow_square [OF m that]] by (simp add: add.assoc flip: mult_2)
  have digit: "nat (4 * val4 e + j) = 4 * nat (val4 e) + nat j" if "0 \<le> j" for e j
    using that by (simp add: nat_add_distrib nat_mult_distrib)
  have "is_pow m x (qpow3 t c b ?b2 ?b3 acc e) (k * 4 ^ quad_digits e + nat (val4 e))"
  proof (induction e)
    case QZ
    then show ?case using acc by simp
  next
    case (D0 e)
    from sq4 [OF this] show ?case using digit [of 0 e] by (simp add: algebra_simps)
  next
    case (D1 e)
    from mult [OF b sq4 [OF this]] show ?case using digit [of 1 e] by (simp add: algebra_simps)
  next
    case (D2 e)
    from mult [OF b2 sq4 [OF this]] show ?case using digit [of 2 e] by (simp add: algebra_simps)
  next
    case (D3 e)
    from mult [OF b3 sq4 [OF this]] show ?case using digit [of 3 e] by (simp add: algebra_simps eval_nat_numeral)
  qed
  then show ?thesis by (simp add: qpow_def)
qed

lemmas quad_eval = quad_of_numeral quad_of_one quad_of_num.simps qinc.simps qadd.simps qaddc.simps qdbl.simps
  qdblc.simps qmul3.simps qmul_def qlow.simps qhigh.simps qneg_low.simps qfold_def qred_def qneg_def
  quad_zero.simps quad_power.simps zero_mod_def qsquare_def qpow3.simps qpow_def qeq.simps

end
