(* ===== verification/Secp_Primes.thy ===== *)
theory Secp_Primes
  imports Int_Primes Quaternary
begin

text \<open>
  The order of the generator of secp256k1 is prime.  The certificate is a chain of numbers
  each of which is proved prime from a large prime factor of its predecessor; the powers are
  evaluated in base 4.
\<close>

section \<open>The test on quaternary numbers\<close>

lemma is_pow_base: "0 \<le> b \<Longrightarrow> is_pow m b (quad_of b) 1"
  by (simp add: is_pow_def val4_quad_of)

lemma is_pow_start: "is_pow m b (quad_of 1) 0"
  by (simp add: is_pow_def quad_of_one)

lemma is_pow_next:
  assumes "is_modulus m t c d" "0 \<le> b" "is_pow m b (quad_of acc) k"
    and "qeq (qpow t c (quad_of b) (quad_of acc) (quad_of e)) (quad_of r)"
    and "0 \<le> e" "k * 4 ^ quad_digits (quad_of e) + nat e = k'"
  shows "is_pow m b (quad_of r) k'"
  using is_pow_qpow [OF assms(1) is_pow_base [OF assms(2)] assms(3), of "quad_of e"] qeq_val4 [OF assms(4)] assms(5,6)
  by (simp add: is_pow_def val4_quad_of)

lemma modulus_by_value:
  assumes "threes (quad_of t)" "0 \<le> t" "0 \<le> c" "0 \<le> d" "t + 1 = c + k * m" "c + d = m"
  shows "is_modulus m (quad_of t) (quad_of c) (quad_of d)"
proof -
  have "t + 1 - c = k * m" using assms(5) by simp
  then show ?thesis using assms by (simp add: is_modulus_def val4_quad_of)
qed

lemma digits_quad_of [simp]:
  "quad_digits (quad_of (numeral m)) = quad_digits (quad_of_num m)" "quad_digits (quad_of 1) = 1"
  by (simp_all add: quad_of_numeral quad_of_one)

lemma template_quad_of [simp]: "threes (quad_of (numeral m)) = threes (quad_of_num m)"
  by (simp add: quad_of_numeral)

lemma prime_by_power:
  assumes "is_pow n b (quad_of r) (nat f)" "0 \<le> r" "r mod n = 1"
    and "prime_int f" "n = c2 * f * f + c1 * f + 1" "1 < n"
    and "0 \<le> c1" "c1 < f" "0 \<le> c2" "c2 < f"
    and "c2 = 0 \<or> (0 \<le> s \<and> s * s < c1 * c1 - 4 * c2 \<and> c1 * c1 - 4 * c2 < (s + 1) * (s + 1))"
    and "i * (b - 1) = j * n + 1"
  shows "prime_int n"
proof (rule prime_by_factor [OF assms(4-10)])
  show "c2 = 0 \<or> (\<forall>s. s * s \<noteq> c1 * c1 - 4 * c2)" using assms(11) not_square by blast
  show "b ^ nat f mod n = 1" using assms(1-3) by (simp add: is_pow_def val4_quad_of)
  show "i * (b - 1) mod n = 1" using assms(6,12) by simp
qed

section \<open>The chain\<close>

lemma prime_by_trial:
  assumes "1 < n" "n < (k + 1) * (k + 1)" "0 \<le> k" "list_all (\<lambda>d. n mod d \<noteq> 0) [2..k]"
  shows "prime_int n"
proof (rule ccontr)
  assume "\<not> prime_int n"
  then obtain q where q: "prime_int q" "q dvd n" "q * q \<le> n" using prime_divisor [OF assms(1)] by metis
  then have "q < k + 1" using assms(2,3) mult_mono' [of "k + 1" q "k + 1" q] by fastforce
  then show False using assms(4) q(2) prime_int_gt_1 [OF q(1)] by (auto simp: list_all_iff dvd_eq_mod_eq_0)
qed

lemma prime_11: "prime_int 1871"
  by (rule prime_by_trial [of _ 43]) (simp_all add: upto_rec_numeral)

lemma modulus_21:
  "is_modulus 1627771
     (quad_of 4294967295)
     (quad_of 907398)
     (quad_of 720373)"
  by (rule modulus_by_value [where k = 2638]) simp_all

lemma pow_21_1:
  "is_pow 1627771
     910796
     (quad_of 3722712278)
     1871"
  by (rule is_pow_next [OF modulus_21 _ is_pow_start, where e = 1871])
    (simp, simp only: quad_eval, simp_all)

lemma prime_21: "prime_int 1627771"
  by (rule prime_by_power [where f = 1871
        and b = 910796
        and r = 3722712278
        and i = 589711
        and j = 329964
        and s = 0
        and ?c1.0 = 870 and ?c2.0 = 0])
    (use pow_21_1 prime_11 in simp_all)

lemma modulus_38:
  "is_modulus 297159362677
     (quad_of 4503599627370495)
     (quad_of 149486000561)
     (quad_of 147673362116)"
  by (rule modulus_by_value [where k = 15155]) simp_all

lemma pow_38_1:
  "is_pow 297159362677
     114170894341
     (quad_of 231784302888061)
     1627771"
  by (rule is_pow_next [OF modulus_38 _ is_pow_start, where e = 1627771])
    (simp, simp only: quad_eval, simp_all)

lemma prime_38: "prime_int 297159362677"
  by (rule prime_by_power [where f = 1627771
        and b = 114170894341
        and r = 231784302888061
        and i = 44169280672
        and j = 16970174627
        and s = 0
        and ?c1.0 = 182556 and ?c2.0 = 0])
    (use pow_38_1 prime_21 in simp_all)

lemma modulus_95:
  "is_modulus 29047611873442575647497758179
     (quad_of 340282366920938463463374607431768211455)
     (quad_of 14321903061893783846659805490)
     (quad_of 14725708811548791800837952689)"
  by (rule modulus_by_value [where k = 11714641754]) simp_all

lemma pow_95_1:
  "is_pow 29047611873442575647497758179
     16062460713643416818883781819
     (quad_of 100508890367752200306693473823799949779)
     297159362677"
  by (rule is_pow_next [OF modulus_95 _ is_pow_start, where e = 297159362677])
    (simp, simp only: quad_eval, simp_all)

lemma prime_95: "prime_int 29047611873442575647497758179"
  by (rule prime_by_power [where f = 297159362677
        and b = 16062460713643416818883781819
        and r = 100508890367752200306693473823799949779
        and i = 7881196461825673388358983901
        and j = 4358065960676078314225264123
        and s = 86782207286
        and ?c1.0 = 86782207287 and ?c2.0 = 328951])
    (use pow_95_1 prime_38 in simp_all)

lemma modulus_109:
  "is_modulus 341948486974166000522343609283189
     (quad_of 1427247692705959881058285969449495136382746623)
     (quad_of 239073886776278006881272569538966)
     (quad_of 102874600197887993641071039744223)"
  by (rule modulus_by_value [where k = 4173867547522]) simp_all

lemma pow_109_1:
  "is_pow 341948486974166000522343609283189
     291782875431971620014836968593543
     (quad_of 443461418370028193011619457148459712262249087)
     103197848039267"
  by (rule is_pow_next [OF modulus_109 _ is_pow_start, where e = 103197848039267])
    (simp, simp only: quad_eval, simp_all)

lemma pow_109_2:
  "is_pow 341948486974166000522343609283189
     291782875431971620014836968593543
     (quad_of 503295459114783591671595522004803859765876059)
     29047611873442575647497758179"
  by (rule is_pow_next [OF modulus_109 _ pow_109_1, where e = 79868712429027])
    (simp, simp only: quad_eval, simp_all)

lemma prime_109: "prime_int 341948486974166000522343609283189"
  by (rule prime_by_power [where f = 29047611873442575647497758179
        and b = 291782875431971620014836968593543
        and r = 503295459114783591671595522004803859765876059
        and i = 230912421032721991545077801069578
        and j = 197036374624976603458235156404975
        and s = 0
        and ?c1.0 = 11772 and ?c2.0 = 0])
    (use pow_109_2 prime_95 in simp_all)

lemma modulus_order:
  "is_modulus 115792089237316195423570985008687907852837564279074904382605163141518161494337
     (quad_of 115792089237316195423570985008687907853269984665640564039457584007913129639935)
     (quad_of 432420386565659656852420866394968145599)
     (quad_of 115792089237316195423570985008687907852405143892509244725752742275123193348738)"
  by (rule modulus_by_value [where k = 1]) simp_all

lemma pow_order_1:
  "is_pow 115792089237316195423570985008687907852837564279074904382605163141518161494337
     86644313145397489891193855759928671818841495415153161568930588450251036589538
     (quad_of 73930740248650057207450704591440985289394073362444771936687414581636360834566)
     72410408682"
  by (rule is_pow_next [OF modulus_order _ is_pow_start, where e = 72410408682])
    (simp, simp only: quad_eval, simp_all)

lemma pow_order_2:
  "is_pow 115792089237316195423570985008687907852837564279074904382605163141518161494337
     86644313145397489891193855759928671818841495415153161568930588450251036589538
     (quad_of 100885048806154508991754076871111539849351895919452219774140409626640947672879)
     4976005394916370285825"
  by (rule is_pow_next [OF modulus_order _ pow_order_1, where e = 49418863873])
    (simp, simp only: quad_eval, simp_all)

lemma pow_order_3:
  "is_pow 115792089237316195423570985008687907852837564279074904382605163141518161494337
     86644313145397489891193855759928671818841495415153161568930588450251036589538
     (quad_of 115792089237316195423570985008687907852837564279074904382605163141518161494338)
     341948486974166000522343609283189"
  by (rule is_pow_next [OF modulus_order _ pow_order_2, where e = 30851215989])
    (simp, simp only: quad_eval, simp_all)

lemma prime_order: "prime_int 115792089237316195423570985008687907852837564279074904382605163141518161494337"
  by (rule prime_by_power [where f = 341948486974166000522343609283189
        and b = 86644313145397489891193855759928671818841495415153161568930588450251036589538
        and r = 115792089237316195423570985008687907852837564279074904382605163141518161494338
        and i = 57112704531168816596589732607440886458891436705097388389849158079043094771009
        and j = 42736002852813264955634017004243308499087223244295714589437664442505423119136
        and s = 239540216835517601548171058147373
        and ?c1.0 = 239540216835517601548171058147374 and ?c2.0 = 990278880650])
    (use pow_order_3 prime_109 in simp_all)

end
