(* ===== verification/Curve_Group.thy ===== *)
theory Curve_Group
  imports Main
begin

text \<open>
  The group law of an elliptic curve \<open>y\<^sup>2 = x\<^sup>3 + a x + b\<close> over a field.  The slope
  \<open>l\<close> of the line through two points is characterised by two equations that cover chord and
  tangent alike; associativity then needs no case distinction between the two: if \<open>l\<close> and
  \<open>m\<close> are the slopes of \<open>P\<^sub>1, P\<^sub>2\<close> and \<open>P\<^sub>2, P\<^sub>3\<close> and \<open>t (l - m) = x\<^sub>1 - x\<^sub>3\<close>,
  then \<open>t - l\<close> and \<open>t - m\<close> are the slopes of the two outer additions.
\<close>

section \<open>Points\<close>

datatype 'a point = Infinity | Point 'a 'a

fun pt_neg :: "'a::field point \<Rightarrow> 'a point" where
  "pt_neg Infinity = Infinity"
| "pt_neg (Point x y) = Point x (- y)"

fun pt_add :: "'a::field \<Rightarrow> 'a point \<Rightarrow> 'a point \<Rightarrow> 'a point" where
  "pt_add a Infinity Q = Q"
| "pt_add a P Infinity = P"
| "pt_add a (Point x1 y1) (Point x2 y2) =
     (if x1 = x2 \<and> y1 = - y2 then Infinity
      else
        let l = (if x1 = x2 then (3 * x1 * x1 + a) / (2 * y1) else (y2 - y1) / (x2 - x1));
            x3 = l * l - x1 - x2
        in Point x3 (l * (x1 - x3) - y1))"

fun on_curve_ab :: "'a::field \<Rightarrow> 'a \<Rightarrow> 'a point \<Rightarrow> bool" where
  "on_curve_ab a b Infinity = True"
| "on_curve_ab a b (Point x y) = (y * y = x * x * x + a * x + b)"

definition is_slope :: "'a::field \<Rightarrow> 'a \<Rightarrow> 'a \<Rightarrow> 'a \<Rightarrow> 'a \<Rightarrow> 'a \<Rightarrow> bool" where
  "is_slope a x1 y1 x2 y2 l \<longleftrightarrow>
     y1 = y2 + l * (x1 - x2) \<and> l * (y1 + y2) = x1 * x1 + x1 * x2 + x2 * x2 + a"

section \<open>Lines\<close>

lemma pt_add_Infinity [simp]: "pt_add a P Infinity = P"
  by (cases P) simp_all

lemma is_slopeD:
  assumes "is_slope a x1 y1 x2 y2 l"
  shows "l * (x1 - x2) = y1 - y2" "l * (y1 + y2) = x1 * x1 + x1 * x2 + x2 * x2 + a"
  using assms by (auto simp: is_slope_def)

lemma is_slope_sym: "is_slope a x1 y1 x2 y2 l \<Longrightarrow> is_slope a x2 y2 x1 y1 l"
  unfolding is_slope_def by algebra

lemma is_slope_neg: "is_slope a x1 y1 x2 y2 l \<Longrightarrow> is_slope a x1 (- y1) x2 (- y2) (- l)"
  unfolding is_slope_def by algebra

text \<open>The reflected third point of the line lies on the line.\<close>

lemma is_slope_third:
  assumes "is_slope a x1 y1 x2 y2 l" "x3 = l * l - x1 - x2" "y3 = l * (x1 - x3) - y1"
  shows "is_slope a x1 y1 x3 (- y3) l" "is_slope a x2 y2 x3 (- y3) l"
  using assms unfolding is_slope_def by algebra+

lemma third_on_curve:
  assumes "is_slope a x1 y1 x2 y2 l" "y1 * y1 = x1 * x1 * x1 + a * x1 + b"
    and "x3 = l * l - x1 - x2" "y3 = l * (x1 - x3) - y1"
  shows "y3 * y3 = x3 * x3 * x3 + a * x3 + b"
  using assms unfolding is_slope_def by algebra

text \<open>The slope of the outer addition.\<close>

lemma slope_of_sum:
  assumes l: "is_slope a x1 y1 x2 y2 l" and m: "is_slope a x2 y2 x3 y3 m" and "l \<noteq> m"
    and t: "t * (l - m) = x1 - x3"
    and x4: "x4 = l * l - x1 - x2" and y4: "y4 = l * (x1 - x4) - y1"
  shows "is_slope a x4 y4 x3 y3 (t - l)"
proof -
  have "(t * (x3 - x4) - (2 * y2 + (l + m) * (x3 - x2))) * (l - m) = 0"
    using l m t x4 unfolding is_slope_def by algebra
  then have tA: "t * (x3 - x4) = 2 * y2 + (l + m) * (x3 - x2)" using \<open>l \<noteq> m\<close> by simp
  show ?thesis unfolding is_slope_def
  proof
    show "y4 = y3 + (t - l) * (x4 - x3)"
      using l m tA y4 unfolding is_slope_def by algebra
    show "(t - l) * (y4 + y3) = x4 * x4 + x4 * x3 + x3 * x3 + a"
      using l m t tA x4 y4 unfolding is_slope_def by algebra
  qed
qed

lemma outer_sums_agree:
  assumes "is_slope a x1 y1 x2 y2 l" "is_slope a x2 y2 x3 y3 m" "l \<noteq> m" "t * (l - m) = x1 - x3"
    and "x6 = (t - l) * (t - l) - (l * l - x1 - x2) - x3"
    and "x7 = (t - m) * (t - m) - x1 - (m * m - x2 - x3)"
  shows "x6 = x7" "(t - l) * (x3 - x6) - y3 = (t - m) * (x1 - x7) - y1"
proof -
  show x: "x6 = x7" using assms(4-6) by algebra
  show "(t - l) * (x3 - x6) - y3 = (t - m) * (x1 - x7) - y1"
    using assms(1,2,4,5) x unfolding is_slope_def by algebra
qed

section \<open>The group\<close>

text \<open>A curve without singular points, in a characteristic other than 2.\<close>

locale smooth_curve =
  fixes a b :: "'a::field"
  assumes odd_characteristic: "(2::'a) \<noteq> 0"
    and no_singular_point: "\<not> (x * x * x + a * x + b = 0 \<and> 3 * x * x + a = 0)"
begin

lemma slope_unique:
  assumes "is_slope a x1 y1 x2 y2 l" "is_slope a x1 y1 x2 y2 m" "\<not> (x1 = x2 \<and> y1 = - y2)"
  shows "l = m"
proof (cases "x1 = x2")
  case True
  then have "y1 = y2" "y1 + y2 \<noteq> 0"
    using assms by (auto simp: is_slope_def eq_neg_iff_add_eq_0)
  moreover have "(l - m) * (y1 + y2) = 0" using assms(1,2) [THEN is_slopeD(2)] by (simp add: left_diff_distrib)
  ultimately show ?thesis by simp
next
  case False
  have "(l - m) * (x1 - x2) = 0" using assms(1,2) [THEN is_slopeD(1)] by (simp add: left_diff_distrib)
  then show ?thesis using False by simp
qed

lemma slope_exists:
  assumes "on_curve_ab a b (Point x1 y1)" "on_curve_ab a b (Point x2 y2)" "\<not> (x1 = x2 \<and> y1 = - y2)"
  obtains l where "is_slope a x1 y1 x2 y2 l"
    "pt_add a (Point x1 y1) (Point x2 y2) = Point (l * l - x1 - x2) (l * (x1 - (l * l - x1 - x2)) - y1)"
proof (cases "x1 = x2")
  case True
  have "y1 * y1 = y2 * y2" using assms(1,2) True by simp
  then have "(y1 - y2) * (y1 + y2) = 0" by (simp add: algebra_simps)
  then have y: "y1 = y2" using assms(3) True by (auto simp: eq_neg_iff_add_eq_0)
  have "y1 + y1 \<noteq> 0" using assms(3) True y by (simp add: eq_neg_iff_add_eq_0)
  then have "2 * y1 \<noteq> 0" by (simp only: mult_2) simp
  define l where "l = (3 * x1 * x1 + a) / (2 * y1)"
  have "l * (2 * y1) = 3 * x1 * x1 + a" using \<open>2 * y1 \<noteq> 0\<close> by (simp add: l_def)
  then have "is_slope a x1 y1 x2 y2 l" by (simp add: is_slope_def True y algebra_simps)
  then show thesis
    by (rule that) (use assms(3) True in \<open>simp add: Let_def l_def\<close>)
next
  case False
  define l where "l = (y2 - y1) / (x2 - x1)"
  have l: "l * (x2 - x1) = y2 - y1" using False by (simp add: l_def)
  have "(l * (y1 + y2) - (x1 * x1 + x1 * x2 + x2 * x2 + a)) * (x2 - x1) = 0"
    using assms(1,2) l by simp algebra
  then have "l * (y1 + y2) = x1 * x1 + x1 * x2 + x2 * x2 + a" using False by simp
  then have "is_slope a x1 y1 x2 y2 l" using l unfolding is_slope_def by algebra
  then show thesis
    by (rule that) (use False in \<open>simp add: Let_def l_def\<close>)
qed

lemma add_by_slope:
  assumes "on_curve_ab a b (Point x1 y1)" "on_curve_ab a b (Point x2 y2)" "\<not> (x1 = x2 \<and> y1 = - y2)"
    and "is_slope a x1 y1 x2 y2 l"
  shows "pt_add a (Point x1 y1) (Point x2 y2) = Point (l * l - x1 - x2) (l * (x1 - (l * l - x1 - x2)) - y1)"
  using slope_exists [OF assms(1-3)] slope_unique [OF _ assms(4,3)] by metis

lemma closed:
  assumes "on_curve_ab a b P" "on_curve_ab a b Q"
  shows "on_curve_ab a b (pt_add a P Q)"
proof (cases "\<exists>x1 y1 x2 y2. P = Point x1 y1 \<and> Q = Point x2 y2 \<and> \<not> (x1 = x2 \<and> y1 = - y2)")
  case True
  then obtain x1 y1 x2 y2 where PQ: "P = Point x1 y1" "Q = Point x2 y2" "\<not> (x1 = x2 \<and> y1 = - y2)" by blast
  obtain l where "is_slope a x1 y1 x2 y2 l"
    "pt_add a P Q = Point (l * l - x1 - x2) (l * (x1 - (l * l - x1 - x2)) - y1)"
    using slope_exists assms PQ by metis
  then show ?thesis using third_on_curve [OF _ _ refl refl] assms(1) PQ(1) by (simp only: on_curve_ab.simps)
next
  case False
  then show ?thesis using assms by (cases P; cases Q) auto
qed

lemma closed_neg: "on_curve_ab a b P \<Longrightarrow> on_curve_ab a b (pt_neg P)"
  by (cases P) simp_all

lemma neg_neg [simp]: "pt_neg (pt_neg P) = P"
  by (cases P) simp_all

lemma add_neg [simp]: "pt_add a P (pt_neg P) = Infinity" "pt_add a (pt_neg P) P = Infinity"
  by (cases P; simp)+

lemma commute:
  assumes "on_curve_ab a b P" "on_curve_ab a b Q"
  shows "pt_add a P Q = pt_add a Q P"
proof (cases "\<exists>x1 y1 x2 y2. P = Point x1 y1 \<and> Q = Point x2 y2 \<and> \<not> (x1 = x2 \<and> y1 = - y2)")
  case True
  then obtain x1 y1 x2 y2 where PQ: "P = Point x1 y1" "Q = Point x2 y2" "\<not> (x1 = x2 \<and> y1 = - y2)" by blast
  obtain l where l: "is_slope a x1 y1 x2 y2 l" using slope_exists assms PQ by metis
  have "\<not> (x2 = x1 \<and> y2 = - y1)" using PQ(3) by auto
  then have "pt_add a Q P = Point (l * l - x2 - x1) (l * (x2 - (l * l - x2 - x1)) - y2)"
    using add_by_slope [OF _ _ _ is_slope_sym [OF l]] assms PQ by metis
  moreover have "pt_add a P Q = Point (l * l - x1 - x2) (l * (x1 - (l * l - x1 - x2)) - y1)"
    using add_by_slope [OF _ _ PQ(3) l] assms PQ by metis
  moreover have "l * (x2 - (l * l - x2 - x1)) - y2 = l * (x1 - (l * l - x1 - x2)) - y1"
    using l unfolding is_slope_def by algebra
  ultimately show ?thesis by (simp add: algebra_simps)
next
  case False
  then show ?thesis by (cases P; cases Q) auto
qed

text \<open>The sum determines the summand.\<close>

lemma cancel:
  assumes P: "on_curve_ab a b P" and Q: "on_curve_ab a b Q"
  shows "pt_add a (pt_neg P) (pt_add a P Q) = Q"
proof (cases "\<exists>x1 y1 x2 y2. P = Point x1 y1 \<and> Q = Point x2 y2 \<and> \<not> (x1 = x2 \<and> y1 = - y2)")
  case True
  then obtain x1 y1 x2 y2 where PQ: "P = Point x1 y1" "Q = Point x2 y2" "\<not> (x1 = x2 \<and> y1 = - y2)" by blast
  then obtain l where l: "is_slope a x1 y1 x2 y2 l" using slope_exists P Q by metis
  define x3 y3 where "x3 = l * l - x1 - x2" and "y3 = l * (x1 - x3) - y1"
  have sum: "pt_add a P Q = Point x3 y3"
    using add_by_slope [OF _ _ PQ(3) l] P Q PQ x3_def y3_def by metis
  have on: "on_curve_ab a b (Point x3 y3)" using closed [OF P Q] sum by simp
  have "is_slope a x1 y1 x3 (- y3) l"
    by (rule is_slope_third(1) [OF l x3_def y3_def])
  then have ret: "is_slope a x1 (- y1) x3 y3 (- l)" using is_slope_neg by fastforce
  have "\<not> (x1 = x3 \<and> - y1 = - y3)"
  proof
    assume e: "x1 = x3 \<and> - y1 = - y3"
    then have "y1 = - y1" by (simp add: y3_def)
    then have y1: "y1 = 0" using odd_characteristic by (metis eq_neg_iff_add_eq_0 mult_2 mult_eq_0_iff)
    then have "3 * x1 * x1 + a = 0"
      using ret e unfolding is_slope_def by algebra
    moreover have "x1 * x1 * x1 + a * x1 + b = 0" using P PQ(1) y1 by simp
    ultimately show False using no_singular_point by blast
  qed
  then have "pt_add a (Point x1 (- y1)) (Point x3 y3) =
      Point (l * l - x1 - x3) (- l * (x1 - (l * l - x1 - x3)) + y1)"
    using add_by_slope [OF _ on _ ret] P PQ(1) by simp
  moreover have "l * l - x1 - x3 = x2" "- l * (x1 - (l * l - x1 - x3)) + y1 = y2"
    using is_slopeD(1) [OF l] by (simp_all add: x3_def algebra_simps)
  ultimately show ?thesis using sum by (simp only: PQ(1,2) pt_neg.simps)
next
  case False
  then show ?thesis by (cases P; cases Q) auto
qed

text \<open>Associativity, first for points of which no two neighbours are inverse.\<close>

lemma associate_points:
  assumes P: "P = Point x1 y1" "on_curve_ab a b P" and Q: "Q = Point x2 y2" "on_curve_ab a b Q"
    and R: "R = Point x3 y3" "on_curve_ab a b R"
    and "\<not> (x1 = x2 \<and> y1 = - y2)" "\<not> (x2 = x3 \<and> y2 = - y3)"
  shows "pt_add a (pt_add a P Q) R = pt_add a P (pt_add a Q R)"
proof -
  obtain l where l: "is_slope a x1 y1 x2 y2 l" using slope_exists P Q assms(7) by metis
  obtain m where m: "is_slope a x2 y2 x3 y3 m" using slope_exists Q R assms(8) by metis
  define x4 y4 where "x4 = l * l - x1 - x2" and "y4 = l * (x1 - x4) - y1"
  define x5 y5 where "x5 = m * m - x2 - x3" and "y5 = m * (x2 - x5) - y2"
  have PQ: "pt_add a P Q = Point x4 y4"
    using add_by_slope [OF _ _ assms(7) l] P Q x4_def y4_def by metis
  have QR: "pt_add a Q R = Point x5 y5"
    using add_by_slope [OF _ _ assms(8) m] Q R x5_def y5_def by metis
  note on = closed [OF P(2) Q(2), unfolded PQ] closed [OF Q(2) R(2), unfolded QR]
  show ?thesis
  proof (cases "l = m")
    case True
    show ?thesis
    proof (cases "x1 = x3")
      case True
      then have "P = R"
        using is_slopeD(1) [OF l] is_slopeD(1) [OF m] \<open>l = m\<close> P(1) R(1) by (simp add: algebra_simps)
      then show ?thesis using commute P Q closed by metis
    next
      case False
      have "(x4 - x3) * (x1 - x3) = 0"
        using l m \<open>l = m\<close> x4_def unfolding is_slope_def by algebra
      then have "x4 = x3" using False by simp
      then have "x5 = x1" using \<open>l = m\<close> by (simp add: x4_def x5_def algebra_simps)
      have "y4 = - y3" "y5 = - y1"
        using is_slopeD(1) [OF l] is_slopeD(1) [OF m] \<open>l = m\<close> \<open>x4 = x3\<close> \<open>x5 = x1\<close> y4_def y5_def by algebra+
      then have "pt_add a (Point x4 y4) R = Infinity" "pt_add a P (Point x5 y5) = Infinity"
        using \<open>x4 = x3\<close> \<open>x5 = x1\<close> by (simp_all add: P(1) R(1))
      then show ?thesis by (simp only: PQ QR)
    qed
  next
    case False
    define t where "t = (x1 - x3) / (l - m)"
    have t: "t * (l - m) = x1 - x3" "t * (m - l) = x3 - x1"
      using False by (simp_all add: t_def field_simps)
    have y5': "y5 = m * (x3 - x5) - y3" using is_slopeD(1) [OF m] by (simp add: y5_def algebra_simps)
    have x5': "x5 = m * m - x3 - x2" by (simp add: x5_def)
    have outer: "is_slope a x4 y4 x3 y3 (t - l)" "is_slope a x5 y5 x1 y1 (t - m)"
      using slope_of_sum [OF l m False t(1) x4_def y4_def]
        slope_of_sum [OF is_slope_sym [OF m] is_slope_sym [OF l] False [symmetric] t(2) x5' y5'] .
    have ne1: "\<not> (x4 = x3 \<and> y4 = - y3)"
      using slope_unique [OF is_slope_third(2) [OF l x4_def y4_def]] m assms(8) False by auto
    have ne2: "\<not> (x1 = x5 \<and> y1 = - y5)"
    proof
      assume "x1 = x5 \<and> y1 = - y5"
      then have "is_slope a x2 y2 x1 y1 m" using is_slope_third(1) [OF m x5_def y5_def] by simp
      then show False using slope_unique [OF l is_slope_sym assms(7)] False by blast
    qed
    define x6 x7 where "x6 = (t - l) * (t - l) - x4 - x3" and "x7 = (t - m) * (t - m) - x1 - x5"
    have left: "pt_add a (pt_add a P Q) R = Point x6 ((t - l) * (x4 - x6) - y4)"
      using add_by_slope [OF _ _ ne1 outer(1)] on R PQ x6_def by metis
    have right: "pt_add a P (pt_add a Q R) = Point x7 ((t - m) * (x1 - x7) - y1)"
      using add_by_slope [OF _ _ ne2 is_slope_sym [OF outer(2)]] on P QR x7_def by metis
    have "(t - l) * (x4 - x6) - y4 = (t - l) * (x3 - x6) - y3"
      using is_slopeD(1) [OF outer(1)] by (simp add: algebra_simps)
    then show ?thesis
      using outer_sums_agree [OF l m False t(1) x6_def [unfolded x4_def] x7_def [unfolded x5_def]]
      by (simp only: left right)
  qed
qed

lemma associate:
  assumes P: "on_curve_ab a b P" and Q: "on_curve_ab a b Q" and R: "on_curve_ab a b R"
  shows "pt_add a (pt_add a P Q) R = pt_add a P (pt_add a Q R)"
proof (cases "P = Infinity \<or> Q = Infinity \<or> R = Infinity \<or> P = pt_neg Q \<or> R = pt_neg Q")
  case True
  moreover have "pt_add a (pt_neg Q) (pt_add a Q R) = R" by (rule cancel [OF Q R])
  moreover have "pt_add a (pt_add a P Q) (pt_neg Q) = P"
    using cancel [OF Q P] commute closed closed_neg P Q by metis
  ultimately show ?thesis by auto
next
  case False
  then obtain x1 y1 x2 y2 x3 y3 where "P = Point x1 y1" "Q = Point x2 y2" "R = Point x3 y3"
    by (cases P; cases Q; cases R) auto
  then show ?thesis using associate_points False P Q R by auto
qed

end

end
