(* ===== verification/Secp_Field.thy ===== *)
theory Secp_Field
  imports Secp_Primes Curve_Group
begin

text \<open>
  A prime divisor \<open>secp_q\<close> of the modulus of secp256k1, the field of that many elements, and the
  group of the points of \<open>y\<^sup>2 = x\<^sup>3 + 7\<close> over it.  That the divisor is the modulus itself
  follows later from the order of a point.
\<close>

definition secp_modulus :: int where
  "secp_modulus = 115792089237316195423570985008687907853269984665640564039457584007908834671663"

definition secp_q :: int where
  "secp_q = (SOME q. prime_int q \<and> q dvd secp_modulus)"

lemma secp_q: "prime_int secp_q" "secp_q dvd secp_modulus"
proof -
  have "1 < secp_modulus" by (simp add: secp_modulus_def)
  then obtain q where "prime_int q" "q dvd secp_modulus" by (rule prime_divisor)
  then have "prime_int secp_q \<and> secp_q dvd secp_modulus"
    using someI [of "\<lambda>q. prime_int q \<and> q dvd secp_modulus" q] unfolding secp_q_def by blast
  then show "prime_int secp_q" "secp_q dvd secp_modulus" by simp_all
qed

lemma secp_q_pos: "1 < secp_q"
  using prime_int_gt_1 [OF secp_q(1)] .

section \<open>The field\<close>

typedef fp = "{0..<secp_q}"
  using secp_q_pos by (intro exI [of _ 0]) simp

setup_lifting type_definition_fp

instantiation fp :: field
begin

lift_definition zero_fp :: fp is 0 using secp_q_pos by simp
lift_definition one_fp :: fp is 1 using secp_q_pos by simp
lift_definition plus_fp :: "fp \<Rightarrow> fp \<Rightarrow> fp" is "\<lambda>x y. (x + y) mod secp_q" using secp_q_pos by simp
lift_definition minus_fp :: "fp \<Rightarrow> fp \<Rightarrow> fp" is "\<lambda>x y. (x - y) mod secp_q" using secp_q_pos by simp
lift_definition uminus_fp :: "fp \<Rightarrow> fp" is "\<lambda>x. (- x) mod secp_q" using secp_q_pos by simp
lift_definition times_fp :: "fp \<Rightarrow> fp \<Rightarrow> fp" is "\<lambda>x y. x * y mod secp_q" using secp_q_pos by simp
lift_definition inverse_fp :: "fp \<Rightarrow> fp" is "\<lambda>x. if x = 0 then 0 else x ^ nat (secp_q - 2) mod secp_q"
  using secp_q_pos by simp
definition divide_fp :: "fp \<Rightarrow> fp \<Rightarrow> fp" where "divide_fp x y = x * inverse y"

instance
proof
  fix a b c :: fp
  show "a * b * c = a * (b * c)" by transfer (simp add: mod_simps mult.assoc)
  show "a * b = b * a" by transfer (simp add: mult.commute)
  show "1 * a = a" by transfer simp
  show "a + b + c = a + (b + c)" by transfer (simp add: mod_simps add.assoc)
  show "a + b = b + a" by transfer (simp add: add.commute)
  show "0 + a = a" by transfer simp
  show "- a + a = 0" by transfer (simp add: mod_simps)
  show "a - b = a + - b" by transfer (simp add: mod_simps)
  show "(a + b) * c = a * c + b * c" by transfer (simp add: mod_simps algebra_simps)
  show "(0::fp) \<noteq> 1" by transfer simp
  show "inverse a * a = 1" if "a \<noteq> 0"
    using that
  proof transfer
    fix x assume x: "x \<in> {0..<secp_q}" "x \<noteq> 0"
    then have "\<not> secp_q dvd x" using zdvd_not_zless [of x secp_q] by simp
    then have "x ^ nat (secp_q - 1) mod secp_q = 1" by (rule fermat_little [OF secp_q(1)])
    moreover have "nat (secp_q - 1) = Suc (nat (secp_q - 2))" using secp_q_pos by simp
    ultimately show "(if x = 0 then 0 else x ^ nat (secp_q - 2) mod secp_q) * x mod secp_q = 1"
      using x by (simp add: mod_simps mult.commute)
  qed
  show "a div b = a * inverse b" by (simp add: divide_fp_def)
  show "inverse (0::fp) = 0" by transfer simp
qed

end

lemma Rep_of_nat: "Rep_fp (of_nat n) = int n mod secp_q"
  by (induction n) (simp_all add: zero_fp.rep_eq plus_fp.rep_eq one_fp.rep_eq mod_simps)

lemma Rep_of_int: "Rep_fp (of_int n) = n mod secp_q"
  by (cases n rule: int_cases2) (simp_all add: Rep_of_nat uminus_fp.rep_eq mod_simps)

lemma of_int_eq_iff_mod: "(of_int a :: fp) = of_int b \<longleftrightarrow> a mod secp_q = b mod secp_q"
  by (metis Rep_fp_inject Rep_of_int)

lemma of_int_cong: "a mod secp_modulus = b mod secp_modulus \<Longrightarrow> (of_int a :: fp) = of_int b"
  using secp_q(2) by (metis mod_mod_cancel of_int_eq_iff_mod)

lemma of_int_surj: "\<exists>n. 0 \<le> n \<and> n < secp_q \<and> (a :: fp) = of_int n"
  by (metis Rep_fp Rep_fp_inject Rep_of_int atLeastLessThan_iff mod_pos_pos_trivial)

lemma finite_fp: "card (UNIV :: fp set) = nat secp_q" "finite (UNIV :: fp set)"
proof -
  have U: "(UNIV :: fp set) = Abs_fp ` {0..<secp_q}"
    using type_definition.Abs_image [OF type_definition_fp] by simp
  show "finite (UNIV :: fp set)" unfolding U by simp
  have "inj_on Abs_fp {0..<secp_q}" by (meson Abs_fp_inject inj_onI)
  then show "card (UNIV :: fp set) = nat secp_q" unfolding U by (simp add: card_image)
qed

lemma of_int_nonzero:
  assumes "i * n mod secp_modulus = 1"
  shows "(of_int n :: fp) \<noteq> 0"
proof
  assume "(of_int n :: fp) = 0"
  then have "(of_int (i * n) :: fp) = 0" by simp
  moreover have "(of_int (i * n) :: fp) = of_int 1" by (rule of_int_cong, subst assms) (simp add: secp_modulus_def)
  ultimately show False by (metis of_int_1 zero_neq_one)
qed

section \<open>The curve\<close>

lemma small_nonzero: "(2::fp) \<noteq> 0" "(3::fp) \<noteq> 0" "(7::fp) \<noteq> 0"
  using of_int_nonzero [of "(secp_modulus + 1) div 2" 2] of_int_nonzero [of "(2 * secp_modulus + 1) div 3" 3]
    of_int_nonzero [of "(6 * secp_modulus + 1) div 7" 7]
  by (simp_all add: secp_modulus_def)

interpretation secp: smooth_curve "0::fp" 7
proof
  show "\<not> (x * x * x + 0 * x + 7 = 0 \<and> 3 * x * x + 0 = 0)" for x :: fp
    using small_nonzero by auto
qed (rule small_nonzero)

typedef curve = "{P :: fp point. on_curve_ab 0 7 P}"
  by (rule exI [of _ Infinity]) simp

setup_lifting type_definition_curve

instantiation curve :: ab_group_add
begin

lift_definition zero_curve :: curve is Infinity by simp
lift_definition plus_curve :: "curve \<Rightarrow> curve \<Rightarrow> curve" is "pt_add 0" by (rule secp.closed)
lift_definition uminus_curve :: "curve \<Rightarrow> curve" is pt_neg by (rule secp.closed_neg)
lift_definition minus_curve :: "curve \<Rightarrow> curve \<Rightarrow> curve" is "\<lambda>P Q. pt_add 0 P (pt_neg Q)"
  by (rule secp.closed [OF _ secp.closed_neg])

instance
proof
  fix a b c :: curve
  show "a + b + c = a + (b + c)" by transfer (rule secp.associate)
  show "a + b = b + a" by transfer (rule secp.commute)
  show "0 + a = a" by transfer simp
  show "- a + a = 0" by transfer simp
  show "a - b = a + - b" by transfer simp
qed

end

section \<open>Integer multiples\<close>

fun ntimes :: "nat \<Rightarrow> 'g::ab_group_add \<Rightarrow> 'g" where
  "ntimes 0 g = 0"
| "ntimes (Suc n) g = g + ntimes n g"

definition ztimes :: "int \<Rightarrow> 'g::ab_group_add \<Rightarrow> 'g" where
  "ztimes n g = (if n < 0 then - ntimes (nat (- n)) g else ntimes (nat n) g)"

lemma ztimes_0 [simp]: "ztimes 0 g = 0" and ztimes_1 [simp]: "ztimes 1 g = g"
  by (simp_all add: ztimes_def)

lemma ztimes_succ: "ztimes (n + 1) g = ztimes n g + g"
proof (cases n rule: int_cases)
  case (nonneg k)
  then show ?thesis by (simp add: ztimes_def nat_add_distrib)
next
  case (neg k)
  have below: "ztimes (- int j) g = - ntimes j g" for j
    by (simp add: ztimes_def)
  have "n + 1 = - int k" using neg by simp
  then show ?thesis using below [of k] below [of "Suc k"] neg by simp
qed

lemma ztimes_pred: "ztimes (n - 1) g = ztimes n g - g"
  using ztimes_succ [of "n - 1" g] by simp

lemma ztimes_add: "ztimes (m + n) g = ztimes m g + ztimes n g"
proof (induction n rule: int_induct [of _ 0])
  case (step1 i)
  then show ?case using ztimes_succ [of "m + i" g] by (simp add: ztimes_succ add.assoc)
next
  case (step2 i)
  then show ?case using ztimes_pred [of "m + i" g] by (simp add: ztimes_pred add_diff_eq)
qed simp

lemma ztimes_neg: "ztimes (- n) g = - ztimes n g"
  by (metis add.right_inverse minus_unique ztimes_0 ztimes_add)

lemma ztimes_diff: "ztimes (m - n) g = ztimes m g - ztimes n g"
  using ztimes_add [of m "- n" g] by (simp add: ztimes_neg)

lemma ztimes_distrib: "ztimes n (g + h) = ztimes n g + ztimes n h"
  by (induction n rule: int_induct [of _ 0]) (simp_all add: ztimes_succ ztimes_pred)

lemma ztimes_mult: "ztimes (m * n) g = ztimes m (ztimes n g)"
  by (induction m rule: int_induct [of _ 0])
    (simp_all add: ztimes_succ ztimes_pred distrib_right left_diff_distrib ztimes_add ztimes_diff)

lemma ztimes_zero [simp]: "ztimes n 0 = 0"
  by (induction n rule: int_induct [of _ 0]) (simp_all add: ztimes_succ ztimes_pred)

end
