(* ===== verification/Secp_Chain.thy ===== *)
theory Secp_Chain
  imports Secp_Field
begin

text \<open>
  The order of the generator of secp256k1.  The curve has the endomorphism \<open>(x, y) \<mapsto> (\<beta> x, y)\<close>
  with \<open>\<beta>\<^sup>3 = 1\<close>; with \<open>H\<close> the image of the generator \<open>G\<close>, a chain of doublings and additions
  shows that a combination of \<open>G\<close> and \<open>H\<close> with coefficients of half the length vanishes, and
  the order follows.  The chain is a list of slopes and inverses, checked in base 4.  As the order is
  prime, the curve has at least that many points; so the prime divisor \<open>secp_q\<close> of the modulus
  is the modulus.
\<close>

section \<open>Checking a chain\<close>

datatype direction = DirG | DirH | DirK

text \<open>A doubling with its slope; an addition with the inverse of the difference.\<close>

datatype chain_step = Dbl int | AddDir direction bool int

definition secp_x :: "direction \<Rightarrow> int" where
  "secp_x u = (case u of
     DirG \<Rightarrow> 55066263022277343669578718895168534326250603453777594175500187360389116729240
   | DirH \<Rightarrow> 91177636130617246552803821781935006617134368061721227770777272682868638699771
   | DirK \<Rightarrow> 85340279321737800624759429340272274763154997815782306132637707972559913914315)"

definition secp_y :: "bool \<Rightarrow> int" where
  "secp_y negative = (if negative
     then 83121579216557378445487899878180864668798711284981320763518679672151497189239
     else 32670510020758816978083085130507043184471273380659243275938904335757337482424)"

definition qeq_mod :: "quad \<Rightarrow> quad \<Rightarrow> quad \<Rightarrow> quad \<Rightarrow> quad \<Rightarrow> bool" where
  "qeq_mod t c d a b = zero_mod t c (qred t c (qadd a (qneg t d (qred t c b))))"

definition line_x :: "quad \<Rightarrow> quad \<Rightarrow> quad \<Rightarrow> quad \<Rightarrow> quad \<Rightarrow> quad \<Rightarrow> quad" where
  "line_x t c d l x x2 = qred t c (qadd (qmul l l) (qadd (qneg t d x) (qneg t d x2)))"

definition line_y :: "quad \<Rightarrow> quad \<Rightarrow> quad \<Rightarrow> quad \<Rightarrow> quad \<Rightarrow> quad \<Rightarrow> quad \<Rightarrow> quad" where
  "line_y t c d l x y x' = qred t c (qadd (qmul l (qadd x (qneg t d x'))) (qneg t d y))"

definition tangent_ok :: "quad \<Rightarrow> quad \<Rightarrow> quad \<Rightarrow> quad \<Rightarrow> quad \<Rightarrow> quad \<Rightarrow> bool" where
  "tangent_ok t c d l x y = qeq_mod t c d (qmul l (qdbl y)) (qmul (D3 QZ) (qmul x x))"

definition inverse_ok :: "quad \<Rightarrow> quad \<Rightarrow> quad \<Rightarrow> quad \<Rightarrow> quad \<Rightarrow> quad \<Rightarrow> bool" where
  "inverse_ok t c d i x x2 = qeq_mod t c d (qmul i (qadd x2 (qneg t d x))) (D1 QZ)"

definition on_line :: "quad \<Rightarrow> quad \<Rightarrow> quad \<Rightarrow> quad \<Rightarrow> quad \<Rightarrow> quad \<Rightarrow> quad \<Rightarrow> quad \<times> quad" where
  "on_line t c d l x y x' = (x', line_y t c d l x y x')"

definition third_quad :: "quad \<Rightarrow> quad \<Rightarrow> quad \<Rightarrow> quad \<Rightarrow> quad \<Rightarrow> quad \<Rightarrow> quad \<Rightarrow> quad \<times> quad" where
  "third_quad t c d l x2 x y = on_line t c d l x y (line_x t c d l x x2)"

definition chord_slope :: "quad \<Rightarrow> quad \<Rightarrow> quad \<Rightarrow> quad \<Rightarrow> quad \<Rightarrow> quad \<Rightarrow> quad \<Rightarrow> quad" where
  "chord_slope t c d i y2 x y = qred t c (qmul i (qadd y2 (qneg t d y)))"

fun run_chain :: "quad \<Rightarrow> quad \<Rightarrow> quad \<Rightarrow> chain_step list \<Rightarrow> quad \<times> quad \<Rightarrow> quad \<Rightarrow> quad \<Rightarrow> bool" where
  "run_chain t c d [] (x, y) x1 y1 = (qeq x x1 \<and> qeq y y1)"
| "run_chain t c d (Dbl l # cs) (x, y) x1 y1 =
     (tangent_ok t c d (quad_of l) x y \<and> run_chain t c d cs (third_quad t c d (quad_of l) x x y) x1 y1)"
| "run_chain t c d (AddDir u n i # cs) (x, y) x1 y1 =
     (inverse_ok t c d (quad_of i) x (quad_of (secp_x u)) \<and>
      run_chain t c d cs (third_quad t c d (chord_slope t c d (quad_of i) (quad_of (secp_y n)) x y) (quad_of (secp_x u)) x y) x1 y1)"

lemma secp_x_eval:
  "secp_x DirG = 55066263022277343669578718895168534326250603453777594175500187360389116729240"
  "secp_x DirH = 91177636130617246552803821781935006617134368061721227770777272682868638699771"
  "secp_x DirK = 85340279321737800624759429340272274763154997815782306132637707972559913914315"
  by (simp_all add: secp_x_def)

lemma secp_y_eval:
  "secp_y True = 83121579216557378445487899878180864668798711284981320763518679672151497189239"
  "secp_y False = 32670510020758816978083085130507043184471273380659243275938904335757337482424"
  by (simp_all add: secp_y_def)

lemmas chain_eval = quad_eval run_chain.simps secp_x_eval secp_y_eval third_quad_def on_line_def chord_slope_def tangent_ok_def
  inverse_ok_def line_x_def line_y_def qeq_mod_def simp_thms

section \<open>What a chain shows\<close>

definition field_value :: "quad \<Rightarrow> fp" where "field_value a = of_int (val4 a)"

locale secp_reduction =
  fixes t c d :: quad
  assumes reduces: "is_modulus secp_modulus t c d"
begin

lemma fv_red [simp]: "field_value (qred t c a) = field_value a"
  unfolding field_value_def by (rule of_int_cong) (rule val4_qred [OF reduces])

lemma fv_neg [simp]: "field_value (qneg t d a) = - field_value a"
  unfolding field_value_def by (subst of_int_cong [OF val4_qneg [OF reduces]]) simp

lemma fv_eq_mod: "qeq_mod t c d a b \<Longrightarrow> field_value a = field_value b"
proof -
  assume "qeq_mod t c d a b"
  then have "secp_modulus dvd val4 (qred t c (qadd a (qneg t d (qred t c b))))"
    unfolding qeq_mod_def by (rule zero_mod [OF reduces])
  then have "field_value (qred t c (qadd a (qneg t d (qred t c b)))) = of_int 0"
    unfolding field_value_def by (intro of_int_cong) simp
  moreover have "field_value (qadd a (qneg t d (qred t c b))) = field_value a - field_value b"
    using fv_neg [of "qred t c b"] fv_red [of b] by (simp add: field_value_def)
  ultimately show ?thesis by simp
qed

lemma fv_line:
  "field_value (line_x t c d l x x2) = field_value l * field_value l - field_value x - field_value x2"
  "field_value (line_y t c d l x y x') = field_value l * (field_value x - field_value x') - field_value y"
proof -
  have "field_value (qadd (qmul l l) (qadd (qneg t d x) (qneg t d x2))) = field_value l * field_value l - field_value x - field_value x2"
    using fv_neg [of x] fv_neg [of x2] by (simp add: field_value_def)
  then show "field_value (line_x t c d l x x2) = field_value l * field_value l - field_value x - field_value x2" by (simp add: line_x_def)
  have "field_value (qadd (qmul l (qadd x (qneg t d x'))) (qneg t d y)) = field_value l * (field_value x - field_value x') - field_value y"
    using fv_neg [of x'] fv_neg [of y] by (simp add: field_value_def)
  then show "field_value (line_y t c d l x y x') = field_value l * (field_value x - field_value x') - field_value y" by (simp add: line_y_def)
qed

text \<open>A quaternary pair represents a point of the curve.\<close>

definition represents :: "curve \<Rightarrow> quad \<times> quad \<Rightarrow> bool" where
  "represents P p \<longleftrightarrow> Rep_curve P = Point (field_value (fst p)) (field_value (snd p))"

lemma repr_on_curve: "represents P (x, y) \<Longrightarrow> on_curve_ab 0 7 (Point (field_value x) (field_value y))"
  using Rep_curve [of P] by (simp add: represents_def)

lemma repr_double:
  assumes P: "represents P (x, y)" and ok: "tangent_ok t c d l x y"
  shows "represents (P + P) (third_quad t c d l x x y)"
proof -
  note on = repr_on_curve [OF P]
  have tangent: "field_value l * (2 * field_value y) = 3 * (field_value x * field_value x)"
    using fv_eq_mod [OF ok [unfolded tangent_ok_def]] by (simp add: field_value_def)
  have ne: "\<not> (field_value x = field_value x \<and> field_value y = - field_value y)"
  proof
    assume "field_value x = field_value x \<and> field_value y = - field_value y"
    then have "2 * field_value y = 0" by (metis add.right_inverse mult_2)
    then have "field_value y = 0" using small_nonzero(1) by simp
    then have "field_value x = 0" using tangent small_nonzero(2) by simp
    then show False using on \<open>field_value y = 0\<close> small_nonzero(3) by simp
  qed
  have "is_slope 0 (field_value x) (field_value y) (field_value x) (field_value y) (field_value l)"
    using tangent by (simp add: is_slope_def algebra_simps)
  then have "pt_add 0 (Point (field_value x) (field_value y)) (Point (field_value x) (field_value y)) =
      Point (field_value (line_x t c d l x x)) (field_value (line_y t c d l x y (line_x t c d l x x)))"
    using secp.add_by_slope [OF on on ne] by (simp only: fv_line)
  then show ?thesis
    using P by (simp add: represents_def third_quad_def on_line_def plus_curve.rep_eq)
qed

lemma inverse_okD:
  assumes "inverse_ok t c d i x x2"
  shows "field_value i * (field_value x2 - field_value x) = 1" "field_value x \<noteq> field_value x2"
proof -
  have "field_value (qmul i (qadd x2 (qneg t d x))) = field_value i * (field_value x2 - field_value x)"
    using fv_neg [of x] by (simp add: field_value_def)
  moreover have "field_value (D1 QZ) = 1" by (simp add: field_value_def)
  ultimately show "field_value i * (field_value x2 - field_value x) = 1"
    using fv_eq_mod [OF assms [unfolded inverse_ok_def]] by simp
  then show "field_value x \<noteq> field_value x2" by auto
qed

lemma repr_plus:
  assumes P: "represents P (x, y)" and Q: "represents Q (x2, y2)" and ok: "inverse_ok t c d i x x2"
  shows "represents (P + Q) (third_quad t c d (chord_slope t c d i y2 x y) x2 x y)"
proof -
  note on = repr_on_curve [OF P] repr_on_curve [OF Q]
  define l where "l = chord_slope t c d i y2 x y"
  note inv = inverse_okD(1) [OF ok] and ne = inverse_okD(2) [OF ok]
  have "field_value (qmul i (qadd y2 (qneg t d y))) = field_value i * (field_value y2 - field_value y)"
    using fv_neg [of y] by (simp add: field_value_def)
  then have "field_value l = field_value i * (field_value y2 - field_value y)" by (simp add: l_def chord_slope_def)
  then have "field_value l = (field_value y2 - field_value y) / (field_value x2 - field_value x)"
    using inv ne by (simp add: eq_divide_eq)
  then have "pt_add 0 (Point (field_value x) (field_value y)) (Point (field_value x2) (field_value y2)) =
      Point (field_value (line_x t c d l x x2)) (field_value (line_y t c d l x y (line_x t c d l x x2)))"
    using ne by (simp add: fv_line Let_def)
  then show ?thesis
    using P Q by (simp add: represents_def third_quad_def on_line_def plus_curve.rep_eq flip: l_def)
qed

end

section \<open>The points of the chain\<close>

definition secp_point :: "direction \<Rightarrow> curve" where
  "secp_point u = Abs_curve (Point (of_int (secp_x u)) (of_int (secp_y False)))"

definition with_sign :: "bool \<Rightarrow> curve \<Rightarrow> curve" where
  "with_sign negative P = (if negative then - P else P)"

fun walk_chain :: "chain_step list \<Rightarrow> curve \<Rightarrow> curve" where
  "walk_chain [] P = P"
| "walk_chain (Dbl l # cs) P = walk_chain cs (P + P)"
| "walk_chain (AddDir u n i # cs) P = walk_chain cs (P + with_sign n (secp_point u))"

text \<open>The coefficients of \<open>G\<close> and \<open>H\<close>; the third point is \<open>K = - G - H\<close>.\<close>

fun direction_coeffs :: "direction \<Rightarrow> bool \<Rightarrow> int \<times> int" where
  "direction_coeffs DirG n = (if n then (-1, 0) else (1, 0))"
| "direction_coeffs DirH n = (if n then (0, -1) else (0, 1))"
| "direction_coeffs DirK n = (if n then (1, 1) else (-1, -1))"

fun chain_coeffs :: "chain_step list \<Rightarrow> int \<times> int \<Rightarrow> int \<times> int" where
  "chain_coeffs [] p = p"
| "chain_coeffs (Dbl l # cs) (a, b) = chain_coeffs cs (2 * a, 2 * b)"
| "chain_coeffs (AddDir u n i # cs) (a, b) = chain_coeffs cs (a + fst (direction_coeffs u n), b + snd (direction_coeffs u n))"

definition combine :: "int \<times> int \<Rightarrow> curve" where
  "combine p = ztimes (fst p) (secp_point DirG) + ztimes (snd p) (secp_point DirH)"

lemma secp_modulus_pos: "0 < secp_modulus"
  by (simp add: secp_modulus_def)

text \<open>The modulus is \<open>4 ^ 128 - 4294968273\<close>.\<close>

definition secp_t :: quad where
  "secp_t = quad_of 115792089237316195423570985008687907853269984665640564039457584007913129639935"

definition secp_c :: quad where "secp_c = quad_of 4294968273"

definition secp_d :: quad where
  "secp_d = quad_of 115792089237316195423570985008687907853269984665640564039457584007904539703390"

lemmas secp_eval = chain_eval secp_t_def secp_c_def secp_d_def

interpretation secp_red: secp_reduction secp_t secp_c secp_d
  unfolding secp_t_def secp_c_def secp_d_def
  by unfold_locales (rule modulus_by_value [where k = 1]; simp add: secp_modulus_def)

lemma fv_quad_of [simp]: "field_value (quad_of (numeral n)) = numeral n"
  by (simp add: field_value_def val4_quad_of)

lemma fv_mult [simp]: "field_value (qmul a b) = field_value a * field_value b" and fv_add [simp]: "field_value (qadd a b) = field_value a + field_value b"
  and fv_seven: "field_value (D3 (D1 QZ)) = 7"
  by (simp_all add: field_value_def)

lemma secp_x_nonneg: "0 \<le> secp_x u" and secp_y_nonneg: "0 \<le> secp_y n"
  by (cases u; simp add: secp_x_eval) (cases n; simp add: secp_y_eval)

lemma fv_secp: "field_value (quad_of (secp_x u)) = of_int (secp_x u)" "field_value (quad_of (secp_y n)) = of_int (secp_y n)"
  by (simp_all add: field_value_def val4_quad_of secp_x_nonneg secp_y_nonneg)

lemma secp_y_neg: "(of_int (secp_y True) :: fp) = - of_int (secp_y False)"
proof -
  have "(of_int (secp_y True + secp_y False) :: fp) = of_int 0"
    by (rule of_int_cong) (simp add: secp_y_def secp_modulus_def)
  then show ?thesis by (simp add: eq_neg_iff_add_eq_0)
qed

lemma secp_points_check:
  "qeq_mod secp_t secp_c secp_d (qmul (quad_of (secp_y False)) (quad_of (secp_y False)))
     (qadd (qmul (quad_of (secp_x DirG)) (qmul (quad_of (secp_x DirG)) (quad_of (secp_x DirG)))) (D3 (D1 QZ)))"
  "qeq_mod secp_t secp_c secp_d (qmul (quad_of (secp_y False)) (quad_of (secp_y False)))
     (qadd (qmul (quad_of (secp_x DirH)) (qmul (quad_of (secp_x DirH)) (quad_of (secp_x DirH)))) (D3 (D1 QZ)))"
  "qeq_mod secp_t secp_c secp_d (qmul (quad_of (secp_y False)) (quad_of (secp_y False)))
     (qadd (qmul (quad_of (secp_x DirK)) (qmul (quad_of (secp_x DirK)) (quad_of (secp_x DirK)))) (D3 (D1 QZ)))"
  by (simp only: secp_eval)+

lemma secp_point_on_curve: "on_curve_ab 0 (7::fp) (Point (of_int (secp_x u)) (of_int (secp_y False)))"
  using secp_points_check [THEN secp_red.fv_eq_mod] by (cases u) (simp_all add: fv_secp fv_seven mult.assoc)

lemma Rep_secp_point: "Rep_curve (secp_point u) = Point (of_int (secp_x u)) (of_int (secp_y False))"
  unfolding secp_point_def by (rule Abs_curve_inverse) (simp only: mem_Collect_eq secp_point_on_curve)

lemma repr_signed: "secp_red.represents (with_sign n (secp_point u)) (quad_of (secp_x u), quad_of (secp_y n))"
  by (cases n) (simp_all add: secp_red.represents_def with_sign_def Rep_secp_point uminus_curve.rep_eq fv_secp secp_y_neg)

lemma secp_points_differ:
  "inverse_ok secp_t secp_c secp_d
     (quad_of 21486029924856817717049997404014789118732721258364884571177867868754085284773)
     (quad_of (secp_x DirG)) (quad_of (secp_x DirH))"
  by (simp only: secp_eval)

lemma secp_points_sum: "secp_point DirG + secp_point DirH = - secp_point DirK"
proof -
  have x: "(of_int (secp_x DirG + secp_x DirH + secp_x DirK) :: fp) = of_int 0"
    by (rule of_int_cong) (simp add: secp_x_eval secp_modulus_def)
  have "(of_int (secp_x DirG) + of_int (secp_x DirH) :: fp) + of_int (secp_x DirK) = 0" using x by simp
  then have k: "(of_int (secp_x DirK) :: fp) = - of_int (secp_x DirG) - of_int (secp_x DirH)"
    by (metis add.commute diff_conv_add_uminus eq_neg_iff_add_eq_0 minus_add_distrib)
  have ne: "(of_int (secp_x DirG) :: fp) \<noteq> of_int (secp_x DirH)"
    using secp_red.inverse_okD(2) [OF secp_points_differ] by (simp add: fv_secp)
  have "Rep_curve (secp_point DirG + secp_point DirH) = Rep_curve (- secp_point DirK)"
    using ne by (simp add: plus_curve.rep_eq uminus_curve.rep_eq Rep_secp_point Let_def k)
  then show ?thesis by (simp only: Rep_curve_inject)
qed

lemma run_sound:
  assumes "run_chain secp_t secp_c secp_d cs (x, y) x1 y1" "secp_red.represents P (x, y)"
  shows "secp_red.represents (walk_chain cs P) (x1, y1)"
  using assms
proof (induction cs arbitrary: x y P)
  case Nil
  then show ?case by (auto simp: secp_red.represents_def field_value_def dest: qeq_val4)
next
  case (Cons s cs)
  show ?case
  proof (cases s)
    case (Dbl l)
    obtain x' y' where p: "third_quad secp_t secp_c secp_d (quad_of l) x x y = (x', y')" by fastforce
    show ?thesis
      using Cons.IH [of x' y' "P + P"] Cons.prems secp_red.repr_double [of P x y "quad_of l"] by (simp add: Dbl p)
  next
    case (AddDir u n i)
    obtain x' y' where p: "third_quad secp_t secp_c secp_d (chord_slope secp_t secp_c secp_d (quad_of i) (quad_of (secp_y n)) x y)
        (quad_of (secp_x u)) x y = (x', y')" by fastforce
    show ?thesis
      using Cons.IH [of x' y' "P + with_sign n (secp_point u)"] Cons.prems
        secp_red.repr_plus [OF _ repr_signed, of P x y "quad_of i" u n] by (simp add: AddDir p)
  qed
qed

lemma lin_add: "combine (a, b) + combine (a', b') = combine (a + a', b + b')"
  by (simp add: combine_def ztimes_add algebra_simps)

lemma signed_lin: "with_sign n (secp_point u) = combine (direction_coeffs u n)"
proof -
  have "secp_point DirK = - secp_point DirG - secp_point DirH"
    using secp_points_sum by (metis add.commute minus_add_distrib minus_minus uminus_add_conv_diff)
  then show ?thesis
    by (cases u; cases n) (simp_all add: with_sign_def combine_def ztimes_neg)
qed

lemma walk_lin: "walk_chain cs (combine p) = combine (chain_coeffs cs p)"
proof (induction cs p rule: chain_coeffs.induct)
  case (3 u n i cs a b)
  then show ?case by (cases "direction_coeffs u n") (simp add: signed_lin lin_add)
qed (simp_all add: lin_add flip: mult_2)

text \<open>The combination of \<open>G\<close> and \<open>H\<close> with coefficients \<open>p\<close> has the coordinates \<open>x\<close>, \<open>y\<close>.\<close>

definition chain_reached :: "int \<times> int \<Rightarrow> int \<Rightarrow> int \<Rightarrow> bool" where
  "chain_reached p x y \<longleftrightarrow> secp_red.represents (combine p) (quad_of x, quad_of y)"

lemma reached_start: "chain_reached (1, 0) (secp_x DirG) (secp_y False)"
  using repr_signed [of False DirG] by (simp add: chain_reached_def signed_lin)

lemma reached_next:
  assumes "chain_reached p x y" "run_chain secp_t secp_c secp_d cs (quad_of x, quad_of y) (quad_of x1) (quad_of y1)"
    and "chain_coeffs cs p = p1"
  shows "chain_reached p1 x1 y1"
  using run_sound [OF assms(2) assms(1) [unfolded chain_reached_def]] by (simp add: chain_reached_def walk_lin assms(3))

end
