(* ===== verification/Secp_Certificate.thy ===== *)
theory Secp_Certificate
  imports Secp_Chain
begin

text \<open>
  The chain of \<open>Secp_Chain\<close> in pieces: the coordinates reached, in base 4 and not reduced to the end,
  with the coefficients of \<open>G\<close> and \<open>H\<close>.
\<close>

section \<open>The chain\<close>

lemma reached_1:
  "chain_reached (1826, - 388)
     65391774123694253019786582467276319184699432844942940756452468339242337702607
     66264147928899196867492634458999576497902422242034515271570487492999789752033"
  by (rule reached_next [OF reached_start, where cs = "[
      Dbl 91914383230618135761690975197207778399550061809281766160147273830617914855857,
      Dbl 48317604920791681227269902149572831041666497563152549156566744096979700087652,
      Dbl 68106669326848163986215483068199883287802374334073516115086955097631971335277,
      AddDir DirK False 112648157061993308092143435236463836650178580826014621236488257814794081673303,
      Dbl 24066223328531782503814493097250446731868311574049713328751296312741424242667,
      AddDir DirH True 11878246173588167225960957636615378580469843966065681373914888568475776772521,
      Dbl 72721893191314590779999592492382437313844680428624296134539405336401766553191,
      Dbl 82021675762459599828965885437919839178495811707783385956404084691327120202731,
      AddDir DirG False 26991699473290618756160864084396602161241221591976874589859926479124045087982,
      Dbl 4595496946117650530979212620662776454471474588404344634247763207447622590681,
      Dbl 75071023858744407658075777793487768214602129017568414387977825231953629217893,
      Dbl 99413189541916693780859777901841701796316237837935295470021307551138355412,
      AddDir DirH True 111960585421186340550840078585998961258498020508316009808279746728653125974710,
      Dbl 37453716168987809159322529239556103530265772377055697893952251729447802621302,
      AddDir DirG False 75152375055050203243160308501985281626143880661459619486881014130526563962087,
      Dbl 102174772918719950761612533227635194514650238071485077285151175987273952679147]"])
    (simp only: secp_eval, simp)

lemma reached_2:
  "chain_reached (1869936, - 397530)
     64958833784309877954161080625530338111236450173333080907243968238568142397273
     18368397011910117469200271171429041655473579165684716492680921290251292899705"
  by (rule reached_next [OF reached_1, where cs = "[
      Dbl 47574155528301012282054265298581170211782241288917232196751158144028918124277,
      Dbl 96461771723720770268383383838366386489576326520916924608739505210032155143565,
      AddDir DirH True 76903914975659932466946404371105993777537744982000273455659377721449054492889,
      Dbl 42827294047186725567285532059776023259755011607525707183291516287468412468031,
      AddDir DirG False 84247866706332394924007155670607069941706463786998184279881077655851063471456,
      Dbl 50698455027983078919810945825586924821504589073982595719459292078063313655131,
      AddDir DirH False 53458240770974413964650067541431571960615190388431821351467884090880312900563,
      Dbl 76559809930317539018627739702415600090978033734052875275975497210298056573351,
      Dbl 43660995293116376419881823767677653695250888325778890363951109751327537611508,
      AddDir DirK False 33154571678695476878879325216615417213271750216879302434043194883497597428270,
      Dbl 20036803075348370987797171069663950724853660877515693757698848553834081123239,
      AddDir DirH True 6042706992669115487520515001675384634478628894893855665930707609408334852348,
      Dbl 29351032159463623541400383605426472430736240105647522061238555442881320173316,
      Dbl 37863094203864626191245666894702576171297682641321549307059363643211742145260,
      AddDir DirH True 75693323311241443450509095195087066456440297628387899719002925269569630675209,
      Dbl 63425907879820894918238430211279198586491100681662339142618413934344399152763]"])
    (simp only: secp_eval, simp)

lemma reached_3:
  "chain_reached (3829628630, - 814141986)
     104803487734004071093006707453454364372104389292831910616691986977243209353119
     79940079176241749345114036356374513318575849945705106065191850302642130551193"
  by (rule reached_next [OF reached_2, where cs = "[
      Dbl 96732794006377554006726244859983180962716091243154331526997997245360904100823,
      Dbl 89505124792721413378192525238943654352681630084797936413483853464714006707762,
      AddDir DirK False 89657775614629373598754796850766397948591324162922820801367521984287354956129,
      Dbl 219805404100155824707249470057377184799166509396618341330184279655241500874,
      AddDir DirG False 101842781000213383518161451533487560257391607994414037580618293670549275249218,
      Dbl 25401852424443168879133071100372256910016331322174710708651198432090054509368,
      Dbl 76032584843865886839724566384598307624463026590084337011499539804238756040015,
      Dbl 56526658660681096813047480811008021994090443474930132184701792173599571509497,
      AddDir DirK False 90397570101432683933695564435596752942621723670032096410246692671768952195327,
      Dbl 95073294518935378743575740359294654385517913305320162412296411135231405406565,
      Dbl 63807801247415466548630556986830778335715007520367425104600507096672515615114,
      AddDir DirG True 5888249203202574499187990849445116352557655869667603493593204907778487085738,
      Dbl 61322574780699193430276974600299375490957696278594742813429869040635635053403,
      Dbl 40805805850728701592845901605339274108271684153414824222469530021766435604451,
      AddDir DirK False 61627246184152672220308745414869323047408508625021971171585834769488956874983,
      Dbl 51085993913387367483316496788692142925539620279845938160542442604008393445967]"])
    (simp only: secp_eval, simp)

lemma reached_4:
  "chain_reached (7843079434248, - 1667362786623)
     55324188548338411272825009780937354008181931475189456971598138359185569389284
     109948579700038844891662107410724048952870997503363109637356802066297218022035"
  by (rule reached_next [OF reached_3, where cs = "[
      Dbl 111284395482223647043342727374818441973842637581392428307986261153089916996847,
      Dbl 97721789514114755668421864993483815582952236786424817766664799334539752162730,
      AddDir DirH False 8420087421930291356550150318413268617133285197225100044853090227886144140490,
      Dbl 8253937311771214979288120440931314300472242254482466922297251286099016786842,
      Dbl 113420643710581349538839658637158819498645996347294931395048115804557683953670,
      AddDir DirH False 2377149860587503501420616453969995098342650017662619063507277011677690917178,
      Dbl 26118274603318733842340421715027308832494680661507087346060275656988209717445,
      AddDir DirH False 56624713367885115506921040800556988777363684730513423529721451449162683725630,
      Dbl 103433938655067323547193095353623437107590095493131389816423014705753829279609,
      Dbl 17142252485882763076853296624672892126207599183712047565501394782738016746939,
      Dbl 61126045867479688599878405682861350526829173685291246319247290071647965590536,
      AddDir DirG False 33937332001485863415671787551759515848633353235528709587828540005727750595293,
      Dbl 78582573635606770943014973080494759475076498908744006325701092892643480289204,
      Dbl 56530798293175175573572266857601998145317493052457440323548413047704151309890,
      Dbl 48324399173753432190601750129413344663592252416330496041946107764517951802031,
      AddDir DirH False 45467734205574361622316111437842355789432286332376494188146737287528779840732]"])
    (simp only: secp_eval, simp)

lemma reached_5:
  "chain_reached (8031313340670417, - 1707379493501581)
     82787247964167335010768205163695997810580410684654396286008445423297761128200
     19239155585623975527435744088042885361004404034843530577328790158874842542190"
  by (rule reached_next [OF reached_4, where cs = "[
      Dbl 58165384952783065253542990578069508589272284660809901309071423979726267041767,
      AddDir DirK True 23202228021663670272559088485573261895462458952211759120039239433467809030935,
      Dbl 49624534954653802998441843720338010998626837162885607440201168328404633852878,
      Dbl 20893190387086473366030627571404332213321685338945055330387591175004029141784,
      AddDir DirH True 65437893848489597121362648985492274052897282696763773487922128235636590786067,
      Dbl 83784034045823323405763414103262536953921794821683143401869311537672358498891,
      Dbl 107134498734469946932918463925498992549659450428102522793320371322374541799660,
      AddDir DirG True 110711049960660879273131896277445984902397484934049139431219416085701451150599,
      Dbl 67952153272565625967944523465853082064344374002103996411262065975363083900789,
      AddDir DirK False 70057779903389191705881465541302425891839187933538709683722224673056272061725,
      Dbl 6457662510231500521050158876006160591434331012805851342000593142879770670974,
      Dbl 64896032698622149577921566371662484964925016945063884535276687908880896148577,
      Dbl 3283402279539208759863968397257828656854113549762652615787505961753039175760,
      AddDir DirH False 69744650111860799023813706465146056081860401997868169358002960715290687435415,
      Dbl 34914551440512347356208468935824652707398054807247703139705131682636224449910,
      AddDir DirK True 970871814961315751853379956274931122884634738783733383111291387251670451512]"])
    (simp only: secp_eval, simp)

lemma reached_6:
  "chain_reached (16448129721693014056, - 3496713202691238862)
     33149475298809272902521461105284155145271980539134918809449133335965875550845
     30132984949946508674398081434205037103096699988528051783798672233402814305100"
  by (rule reached_next [OF reached_5, where cs = "[
      Dbl 30720374588579845470963058783153162132870053942643297362607762321290606722836,
      AddDir DirH True 62605299567019463885768400147618888510266530830231464962559594187469765100743,
      Dbl 22018523381671383862688454097878547224470586102644513928871092663799393089904,
      Dbl 16592954444179302075739436253609992869332722297406349307693202528659991872641,
      Dbl 2734870338969129679317016527831574048552098206628855461931248717221350287701,
      Dbl 19109139073490227159677481102488358020271073793449155776700605942415397565551,
      AddDir DirK True 61427393227474092922222610843000517273272038328290106974619423495828292944449,
      Dbl 64771736971209613635503579570991770536800362742419263543518125641039736652102,
      Dbl 17408590524051343526641659399056239354587001392139915214245628065032245525659,
      AddDir DirK False 104596172731993690588176782798006924198899634677078553011652664643534850236526,
      Dbl 51272876506443993699269866824743640587174102467726864227813458830952172062068,
      AddDir DirG True 108247491150691028226668003474241097072966996219462780228610632188067912176941,
      Dbl 19350711359805668460070810483748024227189871641232264857109854214867479249315,
      Dbl 2727269644877876095400877944315040278281341624277836194217774424559514866060,
      AddDir DirH False 25677820439921479779772288894586886674768609916490922759570759680525765574870,
      Dbl 60424425702178771115785215836092403912396532597190533877404353950389354630726]"])
    (simp only: secp_eval, simp)

lemma reached_7:
  "chain_reached (16842884835013646393789, - 3580634319555828594594)
     58511448778688631157175301397967443088244645421714060294954108298631877641881
     395291609768220808123875454122740965871241580964286673436256005378143358736"
  by (rule reached_next [OF reached_6, where cs = "[
      Dbl 9258785375488980358673008913179248199540229158356962390083594608227903314188,
      AddDir DirG False 2347407567287508267309513876159878335011596294687948181206619286145213258244,
      Dbl 97476077089627902584632270327025879322747872913844014351246756846631690938631,
      Dbl 76769312766894091218937118468918473611700972430613107634851684728059498785555,
      AddDir DirH False 8601121725853056329260390805715693500579330822706683844713248630321642519257,
      Dbl 94846747188936912306416765288707139140856786450214141479066214634715664602389,
      AddDir DirK False 56263951525857161178471551524092033917729120941202754073484714655935616589235,
      Dbl 76956623134967693061601961127395152397288735389660969372042509251165875325579,
      AddDir DirH False 12304388670597256999626434617303834322370353582419294828008618564651603021502,
      Dbl 22202892212532474997690129031809346045874210307676306479682693206757058780529,
      Dbl 14318839879306655753599768386266624299223590875339858743736832185914346116904,
      Dbl 73159577043787326609645165019363954196503004696652924434900169328977675633606,
      Dbl 88180808230508150943176296575917347585791160798841887072491118523801662422577,
      AddDir DirK False 102435010293786596502101971705259888798276443944677730449597710454975091627292,
      Dbl 40696483571040393078710558942591716052188129269809072885882158543074992452167,
      AddDir DirG True 112445010962073071990522885291369190585323415323998787031079322983199675709921]"])
    (simp only: secp_eval, simp)

lemma reached_8:
  "chain_reached (34494228142107947814480528, - 7333139086450336961727890)
     47272037059289399341277954719096510820459685683741925429869413528009369661875
     78610491280664753372416847430727189813757083409393233401154735175989181963814"
  by (rule reached_next [OF reached_7, where cs = "[
      Dbl 5278149184554304128180630246785787345312195575586583748523448101829142765389,
      Dbl 86253283492792546255993534930292318697486577480833319960538218110397167283125,
      AddDir DirK True 50779377881895322147627732775254690228958380165089718222776499295963442659332,
      Dbl 22783685129072105004147148776516493199513646324196580936166353587760482298462,
      Dbl 57763390786822174824829117477986974759917767657368553774726348194812436964939,
      AddDir DirK True 56257683886462897778628566039767292461046622337444146404910905199128924207518,
      Dbl 90946136379412362712283774053415114615713551701089271312227732613138081894945,
      Dbl 91903612166525665320589498917939159573403484542760054896742020659472443596643,
      AddDir DirH True 111692777253223212757542362312664440637018779826013648964877910865730698971488,
      Dbl 31151434581057359270035190332306924444267242308083488275978771054628304186858,
      AddDir DirK True 21063245469856881412336865481102807925241666527761831414343028388198066717274,
      Dbl 13144752597988152518381842932656823810690498388292294223045285499807811050789,
      Dbl 45756100866252296802096188651714956059252467375766201874682838466130548707387,
      Dbl 47025432142356575580383860374532059799108762793402650639029249302425190326936,
      AddDir DirH True 31886070605569739989832342694178242493585695411113267839822186245734997389040,
      Dbl 36903213726206936464958158010386805044936594672616006843723656240193018699248]"])
    (simp only: secp_eval, simp)

lemma reached_9:
  "chain_reached (70644179235037077124056121256, - 15018268849050290097618718948)
     103097283749409913154232828720324160345007736927640997878103880442635879993242
     92158462456333421640541199415044726574274389178590344742861808402198136458077"
  by (rule reached_next [OF reached_8, where cs = "[
      Dbl 112582254309052984741497918648120552443848466986450543537168860339004822432749,
      Dbl 86456871912772375830861385227412812975331056792914737821478623984318222585840,
      Dbl 64735969982631054693667365099523197846933657458786590347082468316993626665862,
      AddDir DirH True 101261789484314704398448816773540733405707983842517121305273364551649452259693,
      Dbl 111338261663103035573406116614796786346603844458182725925248190725277413136353,
      AddDir DirG True 45516338570768913096556233010759753314794245798495537599083234982602791068100,
      Dbl 92594121919768863974747378227384830029693104682349487282728961081537552724228,
      Dbl 79949962638353190766396360134111824880915113542122006623696417326521881922801,
      AddDir DirK True 19315085253660106061385122643348883737759203937520627803053614057078398709101,
      Dbl 90653133270637062293964994111418333707346899533511257185716468205258019470858,
      Dbl 99382805258465847223937309303748129232453716125234847670269482014618134337654,
      AddDir DirG False 23192859382327846342995166496325427457298278060234879821480562643437743181417,
      Dbl 83943346596074388769590767858924764502841059934540856960114760496933648353777,
      AddDir DirH True 75843735055496205881331035633068861122554083825714873751063002460649053270076,
      Dbl 46116959330021824788329516196375840194930552443831111199782110182165810203512,
      Dbl 36173761960426464840522169955929773424293393037272276458926735184959776779337]"])
    (simp only: secp_eval, simp)

lemma reached_10:
  "chain_reached (36169819768338983487516734083606, - 7689353650713748529980784101670)
     107683094715243063622539731567865114282563966351770080463928736991421478939972
     65782018781661971095905790669990370422621572273486167019831306224432881284952"
  by (rule reached_next [OF reached_9, where cs = "[
      AddDir DirG False 81755784277175994146411634157809506308528198380225174477667921662518785994411,
      Dbl 2646654293562452970965677797408596266868365864462918993027707904932302177279,
      AddDir DirH True 81998592577944365689180825991650163634623908794591463536891006490987508590952,
      Dbl 11885520812589172788128129076625379874232442024161718585554880683896462700262,
      Dbl 74888792807808278317691845968649593590324704951765631943555757243603231540081,
      AddDir DirG False 1193773252145464123867327889914245076093051140544540990068169609809100308958,
      Dbl 107109676618110980125340653791135323479222077653458587909237225384008005500678,
      AddDir DirK False 82195414669459414035069776089917142339659145777830030670299623849028858628289,
      Dbl 89392624206155263726355255582409028407770526317517551156943518643714042141110,
      Dbl 21566063815221843153875901329256276358190582061656825514074920716095133396437,
      AddDir DirK False 60259488630600844419727348035822717696373703192372769912674646301465047578234,
      Dbl 106666228963851359098896800767881788313845719668037955190829079717644977179381,
      AddDir DirH False 31886634369848370519316454282012750015288344312795169377662129461176049857695,
      Dbl 95125745687531771395063690849270330376464583081588698951907389315983723697793,
      AddDir DirK False 110592410317505616314737701640166047798160167394370119559318938740007893748582,
      Dbl 84674275727144004451275206971434374307333440980083539355945365344834635215451]"])
    (simp only: secp_eval, simp)

lemma reached_11:
  "chain_reached (74075790885558238182434271403224062, - 15747796276661756989400645840218192)
     24082517715725166566204792018759332518562996662424414625484201845498742184478
     27170106816414047509818391098268983997125026491982295977700003527887490756374"
  by (rule reached_next [OF reached_10, where cs = "[
      AddDir DirH False 52053545970122389927795584380779050366515954894177503731366647813631181492017,
      Dbl 60782335059985146093712078095666466319369371411912683990603665830470206835197,
      AddDir DirG True 37208030172216227623669242053044890956399593581046327280894287155251988879034,
      Dbl 55511008951709710031161395942904667070964742255590805562738295127425410948365,
      Dbl 52574225996023721829476803430408485306738639591785013446946602872522867652764,
      Dbl 85240901439334861345998142874926001484280554864573565612012377879312782549064,
      Dbl 30695684717077072123085509968093892241507790325967024614406295815774864497949,
      AddDir DirH True 38427439437383604769452722999892975336713202511289798597037632969857616469020,
      Dbl 60978210036826968820481472976845093229713310569516202063348981628103400975757,
      Dbl 38073725060571692477152935931499489841105120243025311784987046103971889520638,
      AddDir DirH True 48893546228976656838314281256306556752586811572332785291596403969732809556851,
      Dbl 37633761703264713217619129505046426249916792552042579272913226050577849126889,
      Dbl 35209979129725748824411174830295894580306103897834588541324210886392779280786,
      Dbl 94278291973713248578365773733266574226096716563173133603189000934863460942544,
      AddDir DirG True 60345127903951930122322946046358096439707043520004405102174292820237446760510,
      Dbl 100729601393245797746657141073021715542645063133056800452663308530329234785077]"])
    (simp only: secp_eval, simp)

lemma reached_12:
  "chain_reached (75853609866811635898812693916901439792, - 16125743387301639157146261340383427270)
     105943852234696126683802975385930501214946847068640939386360934818183197707526
     52719346924522296674887122124707221733002426122180344966842100025598712127775"
  by (rule reached_next [OF reached_11, where cs = "[
      AddDir DirH False 61225071489131563341589405699034917570606086007005869423476596516457658937977,
      Dbl 32019558067382251038188446780485817018311245645419750235145222395173875659866,
      Dbl 183134600741882704115513273089109402578847645664609057064926757284421534602,
      AddDir DirK True 43041133248150364212479742713742375803920376452559330676019293797055061475240,
      Dbl 19921005953728881544153500962165901430815526139833938930053942787289198224554,
      Dbl 50239557085973062849589444679632665984377615895224398818592757816585264340920,
      AddDir DirK True 92734977176363479219427364982465409136202464902154625134265018625530978244525,
      Dbl 98221821102818845031922272831336855293193650056998345998265677050357938279332,
      Dbl 60753602752248817857239073635541013592378221852782664024654764821085053190761,
      AddDir DirK False 107788009006066099947206442275632927816807041301302703706549238744314473017533,
      Dbl 33664416045545337027528090111100172419083384395105826250883750191752815026783,
      AddDir DirH False 20440867969904875505094055764385258291748520037394617069206503213418426651841,
      Dbl 92053906498536695333671169417872304146573093549754940307354849977171176418689,
      Dbl 2301223853148359699411769026683592921904121744316788180487216746232777660289,
      AddDir DirH False 47937668958793400261274098797854479717753011568681371844349686827209230293188,
      Dbl 47985294192683366821196530049849474092877423583378491298730268072241758465053]"])
    (simp only: secp_eval, simp)

lemma reached_13:
  "chain_reached (303414439467246543595250775667605759172, - 64502973549206556628585045361533709076)
     85340279321737800624759429340272274763154997815782306132637707972559913914315
     83121579216557378445487899878180864668798711284981320763518679672151497189239"
  by (rule reached_next [OF reached_12, where cs = "[
      AddDir DirK True 28807086400152165887874723651158470390336144724326539836440366752932495871225,
      Dbl 58549757510147570120294206142539449702922730115865248606703184841545781007981,
      Dbl 41128556600949805084771293024134076657970957333326938316678172496711526897287]"])
    (simp only: secp_eval, simp)

end
