(* ===== verification/Secp_Order.thy ===== *)
theory Secp_Order
  imports Secp_Certificate
begin

text \<open>
  The order of the generator of secp256k1 is \<open>secp_order\<close>, and the modulus is prime.
\<close>

section \<open>The combination that vanishes\<close>

lemma lin_vanishes: "combine (303414439467246543595250775667605759171, - 64502973549206556628585045361533709077) = 0"
proof -
  have "Rep_curve (combine (303414439467246543595250775667605759172, - 64502973549206556628585045361533709076)) = Point (of_int 85340279321737800624759429340272274763154997815782306132637707972559913914315)
      (of_int 83121579216557378445487899878180864668798711284981320763518679672151497189239)"
    using reached_13 by (simp add: chain_reached_def secp_red.represents_def)
  also have "\<dots> = Point (of_int (secp_x DirK)) (of_int (secp_y True))"
    by (simp only: point.inject) (intro conjI of_int_cong; simp add: secp_x_eval secp_y_eval secp_modulus_def)
  also have "\<dots> = Rep_curve (- secp_point DirK)"
    by (simp add: uminus_curve.rep_eq Rep_secp_point secp_y_neg)
  finally have "combine (303414439467246543595250775667605759172, - 64502973549206556628585045361533709076) = - secp_point DirK"
    by (simp only: Rep_curve_inject)
  then have "combine (303414439467246543595250775667605759172, - 64502973549206556628585045361533709076) + combine (-1, -1) = 0"
    using signed_lin [of False DirK] by (simp add: with_sign_def)
  then show ?thesis by (simp add: lin_add)
qed

section \<open>The endomorphism\<close>

definition secp_beta :: int where
  "secp_beta = 60197513588986302554485582024885075108884032450952339817679072026166228089408"

fun scale_x :: "'a::field \<Rightarrow> 'a point \<Rightarrow> 'a point" where
  "scale_x r Infinity = Infinity"
| "scale_x r (Point x y) = Point (r * x) y"

lemma scale_x_curve: "r * r * r = 1 \<Longrightarrow> on_curve_ab 0 b P \<Longrightarrow> on_curve_ab 0 b (scale_x r P)"
proof (cases P)
  case (Point x y)
  assume r: "r * r * r = 1" and "on_curve_ab 0 b P"
  have "r * x * (r * x) * (r * x) = x * x * x" using r by algebra
  then show ?thesis using \<open>on_curve_ab 0 b P\<close> by (simp add: Point)
qed simp

lemma scale_x_slope:
  "r * r * r = 1 \<Longrightarrow> is_slope 0 x1 y1 x2 y2 l \<Longrightarrow> is_slope 0 (r * x1) y1 (r * x2) y2 (r * r * l)"
  unfolding is_slope_def by algebra

lemma scale_x_add:
  assumes r: "r * r * r = (1::fp)" and P: "on_curve_ab 0 7 P" and Q: "on_curve_ab 0 7 Q"
  shows "scale_x r (pt_add 0 P Q) = pt_add 0 (scale_x r P) (scale_x r Q)"
proof (cases "\<exists>x1 y1 x2 y2. P = Point x1 y1 \<and> Q = Point x2 y2 \<and> \<not> (x1 = x2 \<and> y1 = - y2)")
  case True
  then obtain x1 y1 x2 y2 where PQ: "P = Point x1 y1" "Q = Point x2 y2" and ne: "\<not> (x1 = x2 \<and> y1 = - y2)"
    by blast
  obtain l where l: "is_slope 0 x1 y1 x2 y2 l" using secp.slope_exists P Q PQ ne by metis
  note on = scale_x_curve [OF r P, unfolded PQ scale_x.simps] scale_x_curve [OF r Q, unfolded PQ scale_x.simps]
  have "r \<noteq> 0" using r by auto
  then have ne': "\<not> (r * x1 = r * x2 \<and> y1 = - y2)" using ne by simp
  have x: "r * r * l * (r * r * l) - r * x1 - r * x2 = r * (l * l - x1 - x2)" using r by algebra
  have y: "r * r * l * (r * x1 - r * (l * l - x1 - x2)) - y1 = l * (x1 - (l * l - x1 - x2)) - y1" using r by algebra
  show ?thesis
    using secp.add_by_slope [OF on ne' scale_x_slope [OF r l]] secp.add_by_slope [OF _ _ ne l] P Q
    by (simp only: PQ scale_x.simps x y)
next
  case False
  then show ?thesis by (cases P; cases Q) auto
qed

lemma beta_products:
  "qeq_mod secp_t secp_c secp_d (qmul (quad_of secp_beta) (quad_of (secp_x DirG))) (quad_of (secp_x DirH))"
  "qeq_mod secp_t secp_c secp_d (qmul (quad_of secp_beta) (quad_of (secp_x DirH))) (quad_of (secp_x DirK))"
  "qeq_mod secp_t secp_c secp_d (qmul (quad_of secp_beta) (quad_of (secp_x DirK))) (quad_of (secp_x DirG))"
  "qeq_mod secp_t secp_c secp_d
     (qmul (quad_of secp_beta) (qmul (quad_of secp_beta) (quad_of secp_beta))) (D1 QZ)"
  by (simp only: secp_eval secp_beta_def)+

definition secp_root :: fp where "secp_root = field_value (quad_of secp_beta)"

lemma beta_cube: "secp_root * secp_root * secp_root = 1"
  using secp_red.fv_eq_mod [OF beta_products(4)] by (simp add: secp_root_def field_value_def mult.assoc)

lift_definition endo :: "curve \<Rightarrow> curve" is "scale_x secp_root"
  by (rule scale_x_curve [OF beta_cube])

lemma turn_add: "endo (P + Q) = endo P + endo Q"
  by transfer (rule scale_x_add [OF beta_cube])

lemma turn_0 [simp]: "endo 0 = 0"
  by transfer simp

lemma turn_neg: "endo (- P) = - endo P"
  by (metis add.right_inverse minus_unique turn_0 turn_add)

lemma turn_diff: "endo (P - Q) = endo P - endo Q"
  using turn_add [of "P - Q" Q] by simp

lemma turn_ztimes: "endo (ztimes n P) = ztimes n (endo P)"
  by (induction n rule: int_induct [of _ 0]) (simp_all add: ztimes_succ ztimes_pred turn_add turn_diff)

lemma turn_point:
  "endo (secp_point DirG) = secp_point DirH"
  "endo (secp_point DirH) = secp_point DirK"
  "endo (secp_point DirK) = secp_point DirG"
  using beta_products(1-3) [THEN secp_red.fv_eq_mod]
  by (simp_all add: endo.rep_eq Rep_secp_point secp_root_def fv_secp flip: Rep_curve_inject)

section \<open>The order\<close>

definition secp_order :: int where
  "secp_order = 115792089237316195423570985008687907852837564279074904382605163141518161494337"

definition secp_gen :: curve where "secp_gen = secp_point DirG"

text \<open>In \<open>Z[\<beta>]\<close> the order is the norm of the combination.\<close>

lemma norm_annihilates:
  assumes G: "ztimes a G + ztimes b (endo G) = 0" and third_quad: "G + endo G = - endo (endo G)"
    and cube: "endo (endo (endo G)) = G"
  shows "ztimes (a * a + b * b - a * b) G = 0"
proof -
  let ?H = "endo G" and ?K = "endo (endo G)"
  have "endo (endo (ztimes a G + ztimes b ?H)) = 0" by (simp only: G turn_0)
  then have K: "ztimes a ?K + ztimes b G = 0" by (simp only: turn_add turn_ztimes cube)
  have "?H + ?K = - G" using third_quad by (simp add: eq_neg_iff_add_eq_0 ac_simps)
  then have "ztimes (a * b) ?H + ztimes (a * b) ?K = ztimes (a * b) (- G)" by (simp flip: ztimes_distrib)
  also have "\<dots> = - ztimes (a * b) G"
    by (metis add.right_inverse minus_unique ztimes_distrib ztimes_zero)
  finally have HK: "ztimes (a * b) ?H + ztimes (a * b) ?K = - ztimes (a * b) G" .
  have "ztimes a (ztimes a G + ztimes b ?H) + ztimes b (ztimes a ?K + ztimes b G) = 0"
    unfolding G K by simp
  then have "ztimes (a * a) G + ztimes (b * b) G + (ztimes (a * b) ?H + ztimes (a * b) ?K) = 0"
    by (simp add: ztimes_distrib ztimes_mult [symmetric] mult.commute [of b a] algebra_simps)
  then show ?thesis unfolding HK by (simp add: ztimes_add ztimes_diff)
qed

lemma order_annihilates: "ztimes secp_order secp_gen = 0"
proof -
  have "ztimes (303414439467246543595250775667605759171 * 303414439467246543595250775667605759171 + - 64502973549206556628585045361533709077 * - 64502973549206556628585045361533709077 - 303414439467246543595250775667605759171 * - 64502973549206556628585045361533709077) secp_gen = 0"
    unfolding secp_gen_def
    by (rule norm_annihilates)
      (use lin_vanishes secp_points_sum in \<open>simp_all only: turn_point combine_def fst_conv snd_conv\<close>)
  then show ?thesis by (simp add: secp_order_def)
qed

lemma order_prime: "prime_int secp_order"
  unfolding secp_order_def by (rule prime_order)

lemma gen_nonzero: "secp_gen \<noteq> 0"
proof
  assume "secp_gen = 0"
  then have "Rep_curve secp_gen = Rep_curve 0" by simp
  then show False by (simp add: secp_gen_def Rep_secp_point zero_curve.rep_eq)
qed

lemma ztimes_gen_eq_0: "ztimes n secp_gen = 0 \<longleftrightarrow> secp_order dvd n"
proof
  assume n: "ztimes n secp_gen = 0"
  show "secp_order dvd n"
  proof (rule ccontr)
    assume "\<not> secp_order dvd n"
    then have "coprime secp_order n" by (rule prime_coprime [OF order_prime])
    then obtain u v where "u * secp_order + v * n = 1" using bezout_int [of secp_order n] by auto
    then have "secp_gen = ztimes (u * secp_order + v * n) secp_gen" by simp
    then show False using n order_annihilates gen_nonzero by (simp only: ztimes_add ztimes_mult ztimes_zero add_0)
  qed
qed (auto simp: ztimes_mult order_annihilates mult.commute [of secp_order])

lemma ztimes_gen_eq: "ztimes m secp_gen = ztimes n secp_gen \<longleftrightarrow> m mod secp_order = n mod secp_order"
  using ztimes_gen_eq_0 [of "m - n"] by (simp add: ztimes_diff mod_eq_dvd_iff)

section \<open>The modulus is prime\<close>

lemma curve_points: "card (UNIV :: curve set) \<le> 2 * nat secp_q + 1" "finite (UNIV :: curve set)"
proof -
  define S where "S x = {P. \<exists>y. P = Point x y \<and> on_curve_ab 0 7 P}" for x :: fp
  have S: "card (S x) \<le> 2 \<and> finite (S x)" for x
  proof (cases "S x = {}")
    case False
    then obtain y0 where y0: "on_curve_ab 0 7 (Point x y0)" by (auto simp: S_def)
    have "S x \<subseteq> {Point x y0, Point x (- y0)}"
    proof
      fix P assume "P \<in> S x"
      then obtain y where P: "P = Point x y" "on_curve_ab 0 7 (Point x y)" by (auto simp: S_def)
      then have "y * y = y0 * y0" using y0 by simp
      then show "P \<in> {Point x y0, Point x (- y0)}" using P(1) square_eq_iff by auto
    qed
    moreover have "card {Point x y0, Point x (- y0)} \<le> 2" by (simp add: card_insert_if)
    ultimately show ?thesis
      using card_mono [of "{Point x y0, Point x (- y0)}" "S x"] finite_subset by fastforce
  qed simp
  have sub: "Rep_curve ` UNIV \<subseteq> insert Infinity (\<Union>x\<in>UNIV. S x)"
  proof
    fix P assume "P \<in> Rep_curve ` UNIV"
    then have "on_curve_ab 0 7 P" using Rep_curve by auto
    then show "P \<in> insert Infinity (\<Union>x\<in>UNIV. S x)" by (cases P) (auto simp: S_def)
  qed
  have "card (\<Union>x\<in>UNIV. S x) \<le> 2 * nat secp_q"
  proof -
    have "card (\<Union>x\<in>UNIV. S x) \<le> (\<Sum>x\<in>(UNIV :: fp set). card (S x))" by (rule card_UN_le [OF finite_fp(2)])
    also have "\<dots> \<le> (\<Sum>x\<in>(UNIV :: fp set). 2)" using S by (intro sum_mono) simp
    finally show ?thesis by (simp add: finite_fp)
  qed
  moreover have fin: "finite (\<Union>x\<in>UNIV. S x)" using S finite_fp(2) by simp
  ultimately have "card (insert Infinity (\<Union>x\<in>UNIV. S x)) \<le> 2 * nat secp_q + 1"
    by (simp add: card_insert_if)
  then have "card (Rep_curve ` UNIV) \<le> 2 * nat secp_q + 1"
    using card_mono [OF _ sub] fin by simp
  moreover have inj: "inj Rep_curve" by (meson Rep_curve_inject injI)
  ultimately show "card (UNIV :: curve set) \<le> 2 * nat secp_q + 1" by (simp add: card_image)
  show "finite (UNIV :: curve set)"
    using finite_subset [OF sub] fin finite_imageD [OF _ inj] by simp
qed

lemma secp_q_is_modulus: "secp_q = secp_modulus"
proof -
  have "inj_on (\<lambda>n. ztimes n secp_gen) {0..<secp_order}"
    by (rule inj_onI) (simp add: ztimes_gen_eq)
  then have "card {0..<secp_order} \<le> card (UNIV :: curve set)"
    by (rule card_inj_on_le) (simp_all add: curve_points(2))
  then have "secp_order \<le> 2 * secp_q + 1" using curve_points(1) secp_q_pos by simp
  moreover obtain j where j: "secp_modulus = secp_q * j" using secp_q(2) by blast
  moreover have "0 < j" using j secp_q_pos secp_modulus_pos by (metis less_trans zero_less_mult_pos zero_less_one)
  moreover have "j \<noteq> 2"
  proof
    assume "j = 2"
    have "secp_modulus mod 2 = 0" unfolding j \<open>j = 2\<close> by simp
    then show False by (simp add: secp_modulus_def)
  qed
  moreover have "j < 3"
  proof (rule ccontr)
    assume "\<not> j < 3"
    then have "secp_q * 3 \<le> secp_q * j" using secp_q_pos by (intro mult_left_mono) auto
    then have "3 * secp_order \<le> 2 * secp_modulus + 3" using \<open>secp_order \<le> 2 * secp_q + 1\<close> j by simp
    then show False by (simp add: secp_order_def secp_modulus_def)
  qed
  ultimately have "j = 1" by simp
  then show ?thesis using j by simp
qed

end
