(* ===== verification/Secp_Cubes.thy ===== *)
theory Secp_Cubes
  imports Secp_Order
begin

text \<open>
  No point of secp256k1 has \<open>y = 0\<close>: -7 is not a cube.  Its cube would make 7 to the power of
  \<open>(p - 1) / 3\<close> equal to 1; the power is evaluated in base 4.
\<close>

lemma modulus_secp: "is_modulus secp_modulus
   (quad_of 115792089237316195423570985008687907853269984665640564039457584007913129639935)
   (quad_of 4294968273)
   (quad_of 115792089237316195423570985008687907853269984665640564039457584007904539703390)"
  by (rule modulus_by_value [where k = 1]) (simp_all add: secp_modulus_def)

lemma pow_seven_1:
  "is_pow secp_modulus 7
     (quad_of 37644600479296577484006397266116719377684534973922993629176042289099800952961)
     91625968981"
  by (rule is_pow_next [OF modulus_secp _ is_pow_start, where e = 91625968981])
    (simp, simp only: quad_eval, simp_all)

lemma pow_seven_2:
  "is_pow secp_modulus 7
     (quad_of 88530811622828002333938030671679826049511315595815290914074545976680383177660)
     6296488643826193618261"
  by (rule is_pow_next [OF modulus_secp _ pow_seven_1, where e = 22906492245])
    (simp, simp only: quad_eval, simp_all)

lemma pow_seven_3:
  "is_pow secp_modulus 7
     (quad_of 91170598680029862434671210979070356519819779833391354517409936556629440388478)
     432691404877902302377541360768341"
  by (rule is_pow_next [OF modulus_secp _ pow_seven_2, where e = 22906492245])
    (simp, simp only: quad_eval, simp_all)

lemma pow_seven_4:
  "is_pow secp_modulus 7
     (quad_of 40431739768060014236269626410528196340602584800624563889341645516998460017830)
     118937307725496656754857164120791261365228885"
  by (rule is_pow_next [OF modulus_secp _ pow_seven_3, where e = 91625968981])
    (simp, simp only: quad_eval, simp_all)

lemma pow_seven_5:
  "is_pow secp_modulus 7
     (quad_of 30236522421134323609364248479594307847897075788321332726512023399206991990446)
     8173309551284740577911184144801648979299941984979211605"
  by (rule is_pow_next [OF modulus_secp _ pow_seven_4, where e = 22906492245])
    (simp, simp only: quad_eval, simp_all)

lemma pow_seven_6:
  "is_pow secp_modulus 7
     (quad_of 111515383296278597942274836541566156203125672884968661652885107826426808847594)
     561665555565638329055562814312908972367440508802928593356325213525"
  by (rule is_pow_next [OF modulus_secp _ pow_seven_5, where e = 22906492245])
    (simp, simp only: quad_eval, simp_all)

lemma pow_seven_7:
  "is_pow secp_modulus 7
     (quad_of 55594575648329892869085402983802832744385952214688224221778511981742606582254)
     38597363079105398474523661669562635951089994888546854679819194669302944890554"
  by (rule is_pow_next [OF modulus_secp _ pow_seven_6, where e = 21474836154])
    (simp, simp only: quad_eval, simp_all)

lemma seven_exponent: "nat ((secp_modulus - 1) div 3) =
    38597363079105398474523661669562635951089994888546854679819194669302944890554"
  by (simp add: secp_modulus_def)

lemma seven_power: "7 ^ nat ((secp_modulus - 1) div 3) mod secp_modulus \<noteq> 1"
proof -
  have "val4 (quad_of 55594575648329892869085402983802832744385952214688224221778511981742606582254) mod secp_modulus \<noteq> 1"
    by (simp add: val4_quad_of secp_modulus_def)
  then show ?thesis unfolding seven_exponent pow_seven_7 [unfolded is_pow_def, symmetric] .
qed

lemma minus_seven_not_cube: "x * x * x + 7 \<noteq> (0 :: fp)"
proof
  assume cube: "x * x * x + 7 = 0"
  let ?n = "nat ((secp_modulus - 1) div 3)"
  have n: "even ?n" "3 * ?n = nat (secp_q - 1)" by (simp_all add: secp_q_is_modulus secp_modulus_def)
  obtain a where a: "x = of_int a" using of_int_surj [of x] by blast
  have "x \<noteq> 0" using cube small_nonzero(3) by auto
  then have "\<not> secp_q dvd a" using of_int_eq_iff_mod [of a 0] by (simp add: a dvd_eq_mod_eq_0)
  then have "a ^ nat (secp_q - 1) mod secp_q = 1 mod secp_q"
    using fermat_little [OF secp_q(1)] secp_q_pos by simp
  then have "of_int (a ^ nat (secp_q - 1)) = (of_int 1 :: fp)" by (simp only: of_int_eq_iff_mod)
  then have one: "x ^ (3 * ?n) = 1" by (simp only: n(2) a of_int_power of_int_1)
  have "7 = - (x ^ 3)" using cube by (simp add: power3_eq_cube eq_neg_iff_add_eq_0 add.commute)
  then have "(7 :: fp) ^ ?n = (- (x ^ 3)) ^ ?n" by (rule arg_cong)
  also have "\<dots> = x ^ (3 * ?n)" using n(1) by (simp add: power_mult)
  finally have "of_int (7 ^ ?n) = (of_int 1 :: fp)" by (simp only: one of_int_power of_int_1 of_int_numeral)
  then have "7 ^ ?n mod secp_modulus = 1 mod secp_modulus"
    by (simp only: of_int_eq_iff_mod secp_q_is_modulus)
  moreover have "1 mod secp_modulus = 1" by (simp add: secp_modulus_def)
  ultimately show False using seven_power by simp
qed

end
