(* ===== verification/EC_Group.thy ===== *)
theory EC_Group
  imports EC_Correct Secp_Cubes
begin

text \<open>
  What the point arithmetic of \<open>ECCrypto.cpp\<close> computes: every reduced point of the curve stands for
  an element of the group of \<open>Secp_Field\<close>, \<open>doubledPoint\<close> and the operators \<open>+\<close> and \<open>*\<close>
  are the operations of that group, compressed keys decompress to themselves, and a signature verifies.
\<close>

section \<open>Points and group elements\<close>

lemma secp_modulus_P: "secp_modulus = secp_P" and secp_order_N: "secp_order = secp_N"
  by (simp_all add: secp_modulus_def secp_P_def secp_order_def secp_N_def)

lemmas secp_q_P = secp_q_is_modulus [unfolded secp_modulus_P]

lemma secp_P_prime: "prime_int secp_P"
  using secp_q(1) by (simp add: secp_q_P)

lemma of_int_eq_mod_P: "(of_int a :: fp) = of_int b \<longleftrightarrow> a mod secp_P = b mod secp_P"
  by (simp add: of_int_eq_iff_mod secp_q_P)

lemma of_int_mod_P [simp]: "(of_int (a mod secp_P) :: fp) = of_int a"
  by (simp add: of_int_eq_mod_P)

lemma of_int_inj_P:
  "0 \<le> a \<Longrightarrow> a < secp_P \<Longrightarrow> 0 \<le> b \<Longrightarrow> b < secp_P \<Longrightarrow> (of_int a :: fp) = of_int b \<longleftrightarrow> a = b"
  by (simp add: of_int_eq_mod_P)

lemma of_int_inverse:
  assumes "(of_int a :: fp) \<noteq> 0"
  shows "(of_int (bigint_inverse a secp_P) :: fp) = inverse (of_int a)"
proof -
  have "\<not> secp_P dvd a" using assms of_int_eq_mod_P [of a 0] by (simp add: dvd_eq_mod_eq_0)
  then have "coprime a secp_P" using prime_coprime [OF secp_P_prime] coprime_commute by blast
  then have "(a * bigint_inverse a secp_P) mod secp_P = 1 mod secp_P"
    using secp_P_pos by (intro inverse_correct) simp_all
  then have "(of_int (a * bigint_inverse a secp_P) :: fp) = of_int 1" by (simp only: of_int_eq_mod_P)
  then show ?thesis using inverse_unique by fastforce
qed

definition stands_for :: "ec_point \<Rightarrow> curve \<Rightarrow> bool" where
  "stands_for Q C \<longleftrightarrow> pp Q = secp_P \<and> pa Q = 0 \<and> pb Q = 7 \<and>
     0 \<le> px Q \<and> px Q < secp_P \<and> 0 \<le> py Q \<and> py Q < secp_P \<and>
     (is_infinity Q \<longrightarrow> px Q = 0 \<and> py Q = 0) \<and>
     Rep_curve C = (if is_infinity Q then Infinity else Point (of_int (px Q)) (of_int (py Q)))"

lemma stands_for_infinity:
  "stands_for Q C \<Longrightarrow> stands_for (pointAtInfinity Q) 0"
  using secp_P_pos by (simp add: stands_for_def pointAtInfinity_def ECPoint_def zero_curve.rep_eq)

lemma stands_for_infinite_iff: "stands_for Q C \<Longrightarrow> is_infinity Q \<longleftrightarrow> C = 0"
  by (auto simp: stands_for_def zero_curve.rep_eq simp flip: Rep_curve_inject)

lemma stands_for_unique: "stands_for Q C \<Longrightarrow> stands_for R C \<Longrightarrow> Q = R"
  by (cases "is_infinity Q"; cases "is_infinity R") (auto simp: stands_for_def of_int_inj_P)

lemma stands_for_ECPoint:
  assumes "stands_for Q C" "Rep_curve D = Point (of_int x) (of_int y)"
  shows "stands_for (ECPoint (x mod secp_P) (y mod secp_P) (pp Q) (pa Q) (pb Q)) D"
  using assms secp_P_pos by (simp add: stands_for_def)

lemma stands_for_secp_G: "stands_for secp_G secp_gen"
proof -
  have "secp_x DirG = secp_GX" "secp_y False = secp_GY"
    by (simp_all add: secp_x_eval secp_y_eval secp_GX_def secp_GY_def)
  then show ?thesis
    by (simp add: stands_for_def secp_G_def secp_gen_def Rep_secp_point secp_A_def secp_B_def)
      (simp add: secp_GX_def secp_GY_def secp_P_def)
qed

lemma stands_for_on_curve:
  "stands_for Q C \<Longrightarrow> \<not> is_infinity Q \<Longrightarrow> on_curve_ab 0 7 (Point (of_int (px Q) :: fp) (of_int (py Q)))"
  using Rep_curve [of C] by (simp add: stands_for_def)

text \<open>The points the program computes with: reduced coordinates that satisfy the equation.\<close>

definition reduced_point :: "ec_point \<Rightarrow> bool" where
  "reduced_point Q \<longleftrightarrow> pp Q = secp_P \<and> pa Q = secp_A \<and> pb Q = secp_B \<and>
     0 \<le> px Q \<and> px Q < secp_P \<and> 0 \<le> py Q \<and> py Q < secp_P \<and>
     (if is_infinity Q then px Q = 0 \<and> py Q = 0 else on_curve Q)"

lemma on_curve_field:
  assumes "pp Q = secp_P" "pa Q = 0" "pb Q = 7"
  shows "on_curve Q \<longleftrightarrow> on_curve_ab 0 7 (Point (of_int (px Q) :: fp) (of_int (py Q)))"
proof -
  have "on_curve Q \<longleftrightarrow> (py Q * py Q) mod secp_P = (px Q * px Q * px Q + 7) mod secp_P"
    by (simp add: on_curve_iff assms flip: mod_eq_dvd_iff)
  also have "\<dots> \<longleftrightarrow> (of_int (py Q * py Q) :: fp) = of_int (px Q * px Q * px Q + 7)"
    by (simp only: of_int_eq_mod_P)
  finally show ?thesis by simp
qed

lemma reduced_point_iff: "reduced_point Q \<longleftrightarrow> (\<exists>C. stands_for Q C)"
proof
  assume Q: "reduced_point Q"
  then have p: "pp Q = secp_P" "pa Q = 0" "pb Q = 7" by (simp_all add: reduced_point_def secp_A_def secp_B_def)
  show "\<exists>C. stands_for Q C"
  proof (cases "is_infinity Q")
    case True
    then have "stands_for Q 0" using Q p by (simp add: reduced_point_def stands_for_def zero_curve.rep_eq)
    then show ?thesis ..
  next
    case False
    then have "on_curve_ab 0 7 (Point (of_int (px Q) :: fp) (of_int (py Q)))"
      using Q on_curve_field [OF p] by (simp add: reduced_point_def)
    then have "stands_for Q (Abs_curve (Point (of_int (px Q)) (of_int (py Q))))"
      using Q p False by (simp add: reduced_point_def stands_for_def Abs_curve_inverse del: on_curve_ab.simps)
    then show ?thesis ..
  qed
next
  assume "\<exists>C. stands_for Q C"
  then obtain C where C: "stands_for Q C" ..
  then have p: "pp Q = secp_P" "pa Q = 0" "pb Q = 7" by (simp_all add: stands_for_def)
  show "reduced_point Q"
    using C stands_for_on_curve [OF C] on_curve_field [OF p]
    by (simp add: reduced_point_def stands_for_def secp_A_def secp_B_def del: on_curve_ab.simps)
qed

lemma every_curve_point: "\<exists>Q. stands_for Q C"
proof (cases "Rep_curve C")
  case Infinity
  then have "stands_for (pointAtInfinity secp_G) C"
    using secp_P_pos by (simp add: stands_for_def pointAtInfinity_def ECPoint_def secp_G_def secp_A_def secp_B_def)
  then show ?thesis ..
next
  case (Point x y)
  obtain a b where "0 \<le> a" "a < secp_P" "x = of_int a" "0 \<le> b" "b < secp_P" "y = of_int b"
    using of_int_surj [of x] of_int_surj [of y] secp_q_P by metis
  then have "stands_for (ECPoint a b secp_P 0 7) C" using Point by (simp add: stands_for_def)
  then show ?thesis ..
qed

section \<open>The operations\<close>

lemma stands_for_double:
  assumes Q: "stands_for Q C"
  shows "stands_for (doubledPoint Q) (C + C)"
proof (cases "py Q = 0")
  case True
  then have "Rep_curve C = Infinity \<or> (\<exists>x. Rep_curve C = Point x 0)" using Q by (auto simp: stands_for_def)
  then have "C + C = 0" by (auto simp: plus_curve.rep_eq zero_curve.rep_eq simp flip: Rep_curve_inject)
  then show ?thesis using stands_for_infinity [OF Q] True by (simp add: doubledPoint_def)
next
  case False
  then have fin: "\<not> is_infinity Q" using Q by (auto simp: stands_for_def)
  define x y where "x = (of_int (px Q) :: fp)" and "y = (of_int (py Q) :: fp)"
  have C: "Rep_curve C = Point x y" and p: "pp Q = secp_P" "pa Q = 0"
    using Q fin by (simp_all add: stands_for_def x_def y_def)
  have "y \<noteq> 0" using of_int_inj_P [of "py Q" 0] False Q secp_P_pos by (simp add: y_def stands_for_def)
  then have "y + y \<noteq> 0" using small_nonzero(1) by (metis mult_2 mult_eq_0_iff)
  then have ne: "y \<noteq> - y" by (simp add: eq_neg_iff_add_eq_0)
  define s where "s = ((squared (px Q) * 3) * bigint_inverse (py Q * 2) secp_P) mod secp_P"
  have "(of_int (py Q * 2) :: fp) \<noteq> 0" using \<open>y \<noteq> 0\<close> small_nonzero(1) by (simp add: y_def)
  from of_int_inverse [OF this] have "of_int s = x * x * 3 * inverse (y * 2)"
    by (simp only: s_def squared_def x_def y_def of_int_mod_P of_int_mult of_int_numeral)
  then have s: "of_int s = 3 * x * x / (2 * y)" by (simp only: divide_inverse ac_simps)
  define x' where "x' = squared s - px Q * 2"
  define y' where "y' = s * (px Q - x' mod secp_P) - py Q"
  have x': "of_int x' = of_int s * of_int s - x - x" by (simp add: x'_def squared_def x_def)
  have y': "of_int y' = of_int s * (x - of_int x') - y" by (simp add: y'_def x_def y_def)
  have "Rep_curve (C + C) = Point (of_int x') (of_int y')"
    unfolding x' y' using ne by (simp add: plus_curve.rep_eq C Let_def s)
  moreover have "doubledPoint Q = ECPoint (x' mod secp_P) (y' mod secp_P) (pp Q) (pa Q) (pb Q)"
    using False by (simp add: doubledPoint_def Let_def s_def [symmetric] x'_def y'_def p)
  ultimately show ?thesis using stands_for_ECPoint [OF Q] by simp
qed

lemma stands_for_add:
  assumes Q: "stands_for Q C" and R: "stands_for R D"
  shows "stands_for (ec_add Q R) (C + D)"
proof -
  consider "is_infinity Q \<or> is_infinity R" | "\<not> is_infinity Q" "\<not> is_infinity R" "Q = R"
    | "\<not> is_infinity Q" "\<not> is_infinity R" "px Q = px R" "py Q \<noteq> py R"
    | "\<not> is_infinity Q" "\<not> is_infinity R" "px Q \<noteq> px R"
    using Q R by (cases Q; cases R) (auto simp: stands_for_def)
  then show ?thesis
  proof cases
    case 1
    then show ?thesis
      using Q R stands_for_infinite_iff [OF Q] stands_for_infinite_iff [OF R] stands_for_infinity [OF Q]
      by (auto simp: ec_add_def)
  next
    case 2
    then have "C = D" using Q R by (simp add: stands_for_def flip: Rep_curve_inject)
    then show ?thesis using stands_for_double [OF Q] 2 by (simp add: ec_add_def)
  next
    case 3
    let ?x = "of_int (px Q) :: fp"
    have "(of_int (py Q) :: fp) \<noteq> of_int (py R)" using 3 Q R by (simp add: of_int_inj_P stands_for_def)
    moreover have "(of_int (py Q) :: fp) * of_int (py Q) = of_int (py R) * of_int (py R)"
      using stands_for_on_curve [OF Q 3(1)] stands_for_on_curve [OF R 3(2)] 3(3) by simp
    ultimately have "(of_int (py Q) :: fp) = - of_int (py R)" using square_eq_iff by blast
    then have "C + D = 0"
      using Q R 3 by (simp add: stands_for_def plus_curve.rep_eq zero_curve.rep_eq flip: Rep_curve_inject)
    then show ?thesis using stands_for_infinity [OF Q] 3 by (simp add: ec_add_def)
  next
    case 4
    define x y x2 y2 where "x = (of_int (px Q) :: fp)" and "y = (of_int (py Q) :: fp)"
      and "x2 = (of_int (px R) :: fp)" and "y2 = (of_int (py R) :: fp)"
    have C: "Rep_curve C = Point x y" "Rep_curve D = Point x2 y2" and p: "pp Q = secp_P"
      using Q R 4 by (simp_all add: stands_for_def x_def y_def x2_def y2_def)
    have ne: "x \<noteq> x2" using Q R 4 by (simp add: of_int_inj_P stands_for_def x_def x2_def)
    define s where "s = ((py R - py Q) * bigint_inverse (px R - px Q) secp_P) mod secp_P"
    have "(of_int (px R - px Q) :: fp) \<noteq> 0" using ne by (simp add: x_def x2_def)
    then have s: "of_int s = (y2 - y) / (x2 - x)"
      by (simp add: s_def of_int_inverse x_def y_def x2_def y2_def divide_inverse)
    define x' where "x' = squared s - px Q - px R"
    define y' where "y' = s * (px Q - x' mod secp_P) - py Q"
    have x': "of_int x' = of_int s * of_int s - x - x2" by (simp add: x'_def squared_def x_def x2_def)
    have y': "of_int y' = of_int s * (x - of_int x') - y" by (simp add: y'_def x_def y_def)
    have "Rep_curve (C + D) = Point (of_int x') (of_int y')"
      unfolding x' y' using ne by (simp add: plus_curve.rep_eq C Let_def s)
    moreover have "ec_add Q R = ECPoint (x' mod secp_P) (y' mod secp_P) (pp Q) (pa Q) (pb Q)"
      using 4 by (simp add: ec_add_def Let_def s_def [symmetric] x'_def y'_def p)
    ultimately show ?thesis using stands_for_ECPoint [OF Q] by simp
  qed
qed

text \<open>The loop of \<open>operator*\<close> has read the digits of \<open>n\<close>.\<close>

lemma stands_for_mult_loop:
  "stands_for current (ztimes n C) \<Longrightarrow> stands_for base C \<Longrightarrow>
     stands_for (ec_mult_loop cs base current)
       (ztimes (foldl (\<lambda>acc c. 2 * acc + int (bit_of c)) n cs) C)"
proof (induction cs base current arbitrary: n rule: ec_mult_loop.induct)
  case (2 c cs base current)
  have d: "stands_for (doubledPoint current) (ztimes (2 * n) C)"
    using stands_for_double [OF "2.prems"(1)] ztimes_add [of n n C] by (simp only: mult_2)
  have "stands_for (if c = CHR ''1'' then ec_add (doubledPoint current) base else doubledPoint current)
      (ztimes (2 * n + int (bit_of c)) C)"
    using d stands_for_add [OF d "2.prems"(2)] by (simp add: bit_of_def ztimes_succ)
  from "2.IH" [OF refl this "2.prems"(2)] show ?case by (simp add: Let_def)
qed simp

lemma foldl_bits_int: "int (foldl (\<lambda>acc c. 2 * acc + bit_of c) n cs) = foldl (\<lambda>acc c. 2 * acc + int (bit_of c)) (int n) cs"
  by (induction cs arbitrary: n) simp_all

lemma leading_zeros: "binary_value (dropWhile (\<lambda>c. c \<noteq> CHR ''1'') s) = binary_value s"
  by (induction s) (simp_all add: binary_value_def bit_of_def)

lemma stands_for_mult:
  assumes Q: "stands_for Q C" and "0 \<le> n"
  shows "stands_for (ec_mult Q n) (ztimes n C)"
proof (cases "n = 0")
  case True
  then show ?thesis using stands_for_infinity [OF Q] by (simp add: ec_mult_def)
next
  case False
  let ?s = "dropWhile (\<lambda>c. c \<noteq> CHR ''1'') (to_binary_string n)"
  have n: "int (binary_value ?s) = n"
    using False assms(2) by (simp add: leading_zeros to_binary_string_def binary_value_digits)
  then have "?s \<noteq> []" using False by (auto simp: binary_value_def simp del: dropWhile_eq_Nil_conv)
  moreover from this have "hd ?s = CHR ''1''" using hd_dropWhile by blast
  ultimately obtain cs where cs: "?s = CHR ''1'' # cs" by (metis list.collapse)
  have "foldl (\<lambda>acc c. 2 * acc + int (bit_of c)) 1 cs = n"
    using n foldl_bits_int [of 1 cs] by (simp add: cs binary_value_def bit_of_def)
  then show ?thesis
    using stands_for_mult_loop [of Q 1 C Q cs] Q False by (simp add: ec_mult_def cs)
qed

lemma reduced_point_group:
  assumes "reduced_point Q" "reduced_point R" "reduced_point S"
  shows "reduced_point (ec_add Q R)" "ec_add Q R = ec_add R Q"
    and "ec_add (ec_add Q R) S = ec_add Q (ec_add R S)" "ec_add Q (pointAtInfinity Q) = Q"
    and "\<exists>N. reduced_point N \<and> is_infinity (ec_add Q N)"
proof -
  obtain C D E where C: "stands_for Q C" and D: "stands_for R D" and E: "stands_for S E"
    using assms by (auto simp: reduced_point_iff)
  note add = stands_for_add
  show "reduced_point (ec_add Q R)" using add [OF C D] by (auto simp: reduced_point_iff)
  show "ec_add Q R = ec_add R Q"
    using add [OF C D] add [OF D C] by (auto simp: add.commute intro: stands_for_unique)
  show "ec_add (ec_add Q R) S = ec_add Q (ec_add R S)"
    using add [OF add [OF C D] E] add [OF C add [OF D E]] by (auto simp: add.assoc intro: stands_for_unique)
  show "ec_add Q (pointAtInfinity Q) = Q"
    using add [OF C stands_for_infinity [OF C]] C by (auto intro: stands_for_unique)
  obtain N where N: "stands_for N (- C)" using every_curve_point by blast
  then show "\<exists>N. reduced_point N \<and> is_infinity (ec_add Q N)"
    using stands_for_infinite_iff [OF add [OF C N]] by (auto simp: reduced_point_iff)
qed

text \<open>Double-and-add against repeated addition.\<close>

lemma ec_mult_repeated:
  assumes "reduced_point Q"
  shows "ec_mult Q (int n) = (ec_add Q ^^ n) (pointAtInfinity Q)"
proof -
  obtain C where C: "stands_for Q C" using assms by (auto simp: reduced_point_iff)
  have "stands_for ((ec_add Q ^^ n) (pointAtInfinity Q)) (ztimes (int n) C)"
  proof (induction n)
    case (Suc n)
    then show ?case using stands_for_add [OF C Suc] ztimes_succ [of "int n" C] by (simp add: add.commute)
  qed (simp add: stands_for_infinity [OF C])
  then show ?thesis using stands_for_mult [OF C, of "int n"] stands_for_unique by simp
qed

section \<open>Multiples of the generator\<close>

lemma reduced_generator: "reduced_point secp_G"
  using stands_for_secp_G by (auto simp: reduced_point_iff)

lemma generator_multiples_eq:
  assumes "0 \<le> m" "0 \<le> n"
  shows "ec_mult secp_G m = ec_mult secp_G n \<longleftrightarrow> m mod secp_N = n mod secp_N"
proof -
  have m: "stands_for (ec_mult secp_G m) (ztimes m secp_gen)" and n: "stands_for (ec_mult secp_G n) (ztimes n secp_gen)"
    using stands_for_mult [OF stands_for_secp_G] assms by simp_all
  have "ec_mult secp_G m = ec_mult secp_G n \<longleftrightarrow> ztimes m secp_gen = ztimes n secp_gen"
    using m n stands_for_unique by (metis Rep_curve_inject stands_for_def)
  then show ?thesis using ztimes_gen_eq [of m n] by (simp add: secp_order_N)
qed

lemma stands_for_gen_mult: "0 \<le> n \<Longrightarrow> stands_for (ec_mult secp_G n) (ztimes n secp_gen)"
  using stands_for_mult [OF stands_for_secp_G] .

text \<open>Neither coordinate of a multiple is 0: such points would have order 2 or 3.\<close>

lemma secp_N_not_small: "coprime secp_N 2" "coprime secp_N 3"
proof -
  have "\<not> secp_N dvd 2" "\<not> secp_N dvd 3" by (auto dest: zdvd_imp_le simp: secp_N_def)
  then show "coprime secp_N 2" "coprime secp_N 3"
    using prime_coprime [OF order_prime [unfolded secp_order_N]] by blast+
qed

lemma gen_mult_coordinates:
  assumes Q: "stands_for Q (ztimes n secp_gen)" and n: "\<not> secp_N dvd n"
  shows "\<not> is_infinity Q" "py Q \<noteq> 0" "px Q \<noteq> 0"
proof -
  let ?C = "ztimes n secp_gen"
  have torsion: "?C = 0" if "ztimes k ?C = 0" "coprime secp_N k" for k
  proof -
    have "secp_N dvd k * n" using that(1) ztimes_gen_eq_0 [of "k * n"] by (simp add: ztimes_mult secp_order_N)
    then show ?thesis using that(2) n coprime_dvd_mult_right_iff by blast
  qed
  have nonzero: "?C \<noteq> 0" using n ztimes_gen_eq_0 [of n] by (simp add: secp_order_N)
  then show fin: "\<not> is_infinity Q" using stands_for_infinite_iff [OF Q] by simp
  show y: "py Q \<noteq> 0"
  proof
    assume "py Q = 0"
    then have "is_infinity (doubledPoint Q)" by (simp add: doubledPoint_def)
    then have "?C + ?C = 0" using stands_for_infinite_iff [OF stands_for_double [OF Q]] by simp
    then have "ztimes 2 ?C = 0" using ztimes_add [of 1 1 ?C] by simp
    then show False using torsion secp_N_not_small(1) nonzero by blast
  qed
  show "px Q \<noteq> 0"
  proof
    assume "px Q = 0"
    then have C: "Rep_curve ?C = Point 0 (of_int (py Q))" using Q fin by (simp add: stands_for_def)
    have "of_int (py Q) \<noteq> (0 :: fp)" using of_int_inj_P [of "py Q" 0] y Q secp_P_pos by (simp add: stands_for_def)
    then have "of_int (py Q) \<noteq> (- of_int (py Q) :: fp)"
      using small_nonzero(1) by (metis eq_neg_iff_add_eq_0 mult_2 mult_eq_0_iff)
    then have "?C + ?C = - ?C"
      by (simp add: plus_curve.rep_eq uminus_curve.rep_eq C Let_def flip: Rep_curve_inject)
    then have "ztimes 3 ?C = 0" using ztimes_add [of 1 1 ?C] ztimes_add [of 2 1 ?C] by simp
    then show False using torsion secp_N_not_small(2) nonzero by blast
  qed
qed

section \<open>Compressed keys\<close>

lemma prime_dvd_power: "prime_int p \<Longrightarrow> p dvd a ^ n \<Longrightarrow> p dvd a"
  by (induction n) (auto simp: prime_dvd_mult dest: prime_int_gt_1)

text \<open>The Euler test passes on squares.\<close>

lemma modSqrt_of_square:
  assumes "0 \<le> y" "y < secp_P"
  shows "modSqrt ((y * y) mod secp_P) secp_P = y \<or> modSqrt ((y * y) mod secp_P) secp_P = secp_P - y"
proof (cases "y = 0")
  case True
  then show ?thesis by (simp add: modSqrt_def)
next
  case False
  let ?n = "(y * y) mod secp_P" and ?h = "(secp_P - 1) div 2"
  have y: "\<not> secp_P dvd y" using assms False zdvd_not_zless [of y secp_P] by simp
  then have n: "\<not> secp_P dvd ?n" using prime_dvd_mult [OF secp_P_prime] by (simp add: dvd_mod_iff)
  have "2 * ?h = secp_P - 1" using secp_P_odd by presburger
  then have "nat (secp_P - 1) = 2 * nat ?h" by linarith
  then have "?n ^ nat ?h mod secp_P = y ^ nat (secp_P - 1) mod secp_P"
    by (simp add: power_mod power_mult power2_eq_square)
  then have euler: "?n ^ nat ?h mod secp_P = 1" using fermat_little [OF secp_P_prime y] by simp
  let ?r = "modSqrt ?n secp_P"
  have r: "?r = ?n ^ nat ((secp_P + 1) div 4) mod secp_P"
    using euler n secp_P_pos by (auto simp: modSqrt_def modPow_correct)
  have "?r \<noteq> 0"
    using n prime_dvd_power [OF secp_P_prime, of ?n] unfolding r by (meson dvd_eq_mod_eq_0)
  then have "(?r * ?r) mod secp_P = (y * y) mod secp_P"
    using modSqrt_square [OF secp_P_mod_4 secp_P_pos, of ?n] by simp
  then have "(of_int ?r :: fp) * of_int ?r = of_int y * of_int y"
    using of_int_eq_mod_P [of "?r * ?r" "y * y"] by simp
  then have "(of_int ?r :: fp) = of_int y \<or> (of_int ?r :: fp) = of_int (secp_P - y)"
    using square_eq_iff of_int_eq_mod_P [of secp_P 0] by force
  then show ?thesis
    using of_int_inj_P [of ?r y] of_int_inj_P [of ?r "secp_P - y"] assms False modSqrt_range [OF secp_P_pos, of ?n] by auto
qed

lemma decompress_compress:
  assumes Q: "stands_for Q C" and fin: "\<not> is_infinity Q"
  shows "decompressPublicKey (compressPublicKey Q) = Q"
proof -
  let ?x = "px Q" and ?y = "py Q"
  have range: "0 \<le> ?x" "?x < secp_P" "0 \<le> ?y" "?y < secp_P" using Q by (simp_all add: stands_for_def)
  have "secp_P < 256 ^ 32" by (simp add: secp_P_def)
  then have bytes: "bytes32ToBigInt (bigIntToBytes32 ?x) = ?x"
    using range by (intro bytes32ToBigInt_bigIntToBytes32) simp_all
  have "(of_int (?y * ?y) :: fp) = of_int (?x * ?x * ?x + 7)"
    using stands_for_on_curve [OF Q fin] by simp
  then have "(?x * ?x * ?x mod secp_P + secp_B) mod secp_P = (?y * ?y) mod secp_P"
    unfolding of_int_eq_mod_P by (simp add: secp_B_def mod_add_left_eq)
  then obtain sq y0 where sq: "(?x * ?x * ?x mod secp_P + secp_B) mod secp_P = sq" "sq = (?y * ?y) mod secp_P"
    and y0: "modSqrt sq secp_P = y0" "y0 = ?y \<or> y0 = secp_P - ?y" "?y = 0 \<Longrightarrow> y0 = 0"
    using modSqrt_of_square [OF range(3,4)] by (auto simp: modSqrt_def)
  have parity: "(secp_P - ?y) mod 2 = 0 \<longleftrightarrow> ?y mod 2 \<noteq> 0" using secp_P_odd by presburger
  have "y0 = 0 \<Longrightarrow> sq = 0" using y0(2) range sq(2) by auto
  moreover have "\<not> y0 mod 2 < 0" by simp
  moreover have k: "compressPublicKey Q =
      (if ?y mod 2 = 0 then COMPRESSED_EVEN_PREFIX else COMPRESSED_ODD_PREFIX) # bigIntToBytes32 ?x"
    using fin by (simp add: compressPublicKey_def)
  ultimately have "decompressPublicKey (compressPublicKey Q) =
      ECPoint ?x (if (y0 mod 2 = 0) \<noteq> (?y mod 2 = 0) then secp_P - y0 else y0) secp_P secp_A secp_B"
    using range bytes by (auto simp: decompressPublicKey_def Let_def sq(1) y0(1) ec_prefixes)
  also have "(if (y0 mod 2 = 0) \<noteq> (?y mod 2 = 0) then secp_P - y0 else y0) = ?y"
    using y0(2,3) parity by auto
  also have "ECPoint ?x ?y secp_P secp_A secp_B = Q"
    using Q fin by (simp add: stands_for_def ECPoint_def secp_A_def secp_B_def)
  finally show ?thesis .
qed

text \<open>Every key that is accepted is a reduced point: no point of the curve has \<open>y = 0\<close>.\<close>

lemma decompress_reduced:
  assumes "\<not> is_infinity (decompressPublicKey k)"
  shows "reduced_point (decompressPublicKey k)"
proof -
  obtain x y0 y where d: "decompressPublicKey k = ECPoint x y secp_P secp_A secp_B"
    and x: "0 \<le> x" "x < secp_P"
    and y0: "y0 = modSqrt ((x * x * x mod secp_P + secp_B) mod secp_P) secp_P"
      "y0 = 0 \<longrightarrow> (x * x * x mod secp_P + secp_B) mod secp_P = 0"
    and y: "y = (if (y0 mod 2 = 0) \<noteq> (k ! 0 = COMPRESSED_EVEN_PREFIX) then secp_P - y0 else y0)"
    by (rule decompress_finite [OF assms], rule that)
  have "y0 \<noteq> 0"
  proof
    assume "y0 = 0"
    then have "(x * x * x + 7) mod secp_P = 0 mod secp_P"
      using y0(2) by (simp add: secp_B_def mod_add_left_eq)
    then have "(of_int (x * x * x + 7) :: fp) = of_int 0" by (simp only: of_int_eq_mod_P)
    then show False using minus_seven_not_cube [of "of_int x"] by simp
  qed
  moreover have "0 \<le> y0" "y0 < secp_P" using modSqrt_range [OF secp_P_pos] by (simp_all add: y0(1))
  ultimately have "0 \<le> y" "y < secp_P" by (auto simp: y)
  then show ?thesis
    using x decompress_on_curve [OF assms] by (simp add: reduced_point_def d)
qed

lemma isValidPublicKey_iff: "isValidPublicKey k \<longleftrightarrow> \<not> is_infinity (decompressPublicKey k)"
  by (auto simp: isValidPublicKey_def decompressPublicKey_def)

lemma public_keys_bij:
  "bij_betw compressPublicKey {Q. reduced_point Q \<and> \<not> is_infinity Q} {k. length k = 33 \<and> isValidPublicKey k}"
proof (rule bij_betw_byWitness [where f' = decompressPublicKey])
  have inverse: "decompressPublicKey (compressPublicKey Q) = Q" if "reduced_point Q" "\<not> is_infinity Q" for Q
    using that decompress_compress by (auto simp: reduced_point_iff)
  show "\<forall>Q\<in>{Q. reduced_point Q \<and> \<not> is_infinity Q}. decompressPublicKey (compressPublicKey Q) = Q"
    using inverse by simp
  show "\<forall>k\<in>{k. length k = 33 \<and> isValidPublicKey k}. compressPublicKey (decompressPublicKey k) = k"
    using compress_decompress by (simp add: isValidPublicKey_iff)
  show "compressPublicKey ` {Q. reduced_point Q \<and> \<not> is_infinity Q} \<subseteq> {k. length k = 33 \<and> isValidPublicKey k}"
    using inverse by (auto simp: isValidPublicKey_iff compressPublicKey_def)
  show "decompressPublicKey ` {k. length k = 33 \<and> isValidPublicKey k} \<subseteq> {Q. reduced_point Q \<and> \<not> is_infinity Q}"
    using decompress_reduced by (auto simp: isValidPublicKey_iff)
qed

lemma valid_key_iff:
  "reduced_point Q \<and> \<not> is_infinity Q \<longleftrightarrow>
     \<not> is_infinity Q \<and> isValidPublicKey (compressPublicKey Q) \<and> decompressPublicKey (compressPublicKey Q) = Q"
  using decompress_compress decompress_reduced by (metis isValidPublicKey_iff reduced_point_iff)

section \<open>Signatures\<close>

text \<open>The point an honest verifier computes, for a nonce \<open>k\<close>, a key \<open>d\<close> and a challenge \<open>e\<close>.\<close>

lemma computed_nonce_point:
  assumes k: "\<not> secp_N dvd k" "0 \<le> k" and d: "0 \<le> d" "\<not> secp_N dvd d" and e: "0 \<le> e" "e < secp_N"
    and P: "stands_for Pk (ztimes d secp_gen)"
    and s: "s = (k + e * d) mod secp_N" and eP: "eP = ec_mult Pk e"
    and negEP: "negEP = (if \<not> is_infinity eP then ECPoint (px eP) (secp_P - py eP) secp_P secp_A secp_B else eP)"
  shows "ec_add (ec_mult secp_G s) negEP = ec_mult secp_G k"
proof -
  have "0 \<le> s" using s by (simp add: secp_N_def)
  have eP': "stands_for eP (ztimes (e * d) secp_gen)"
    using stands_for_mult [OF P e(1)] by (simp add: eP ztimes_mult)
  have neg: "stands_for negEP (ztimes (- (e * d)) secp_gen)"
  proof (cases "is_infinity eP")
    case True
    then have "ztimes (e * d) secp_gen = 0" using stands_for_infinite_iff [OF eP'] by simp
    then show ?thesis using eP' True by (simp add: negEP ztimes_neg)
  next
    case False
    then have "\<not> secp_N dvd e * d"
      using stands_for_infinite_iff [OF eP'] ztimes_gen_eq_0 [of "e * d"] by (simp add: secp_order_N)
    then have "py eP \<noteq> 0" using gen_mult_coordinates(2) [OF eP'] by simp
    moreover have "(of_int (secp_P - py eP) :: fp) = - of_int (py eP)"
      using of_int_eq_mod_P [of "secp_P - py eP" "- py eP"] by simp
    ultimately show ?thesis
      using eP' False by (simp add: stands_for_def negEP ztimes_neg uminus_curve.rep_eq secp_A_def secp_B_def)
  qed
  have "s mod secp_N = (k + e * d) mod secp_N" by (simp add: s)
  then have "ztimes s secp_gen = ztimes (k + e * d) secp_gen"
    using ztimes_gen_eq [of s "k + e * d"] by (simp add: secp_order_N)
  then have "ztimes s secp_gen + ztimes (- (e * d)) secp_gen = ztimes k secp_gen"
    by (simp add: ztimes_add ztimes_neg)
  then show ?thesis
    using stands_for_add [OF stands_for_gen_mult [OF \<open>0 \<le> s\<close>] neg] stands_for_gen_mult [OF k(2)] stands_for_unique
    by metis
qed

lemma not_dvd_N: "0 < k \<Longrightarrow> k < secp_N \<Longrightarrow> \<not> secp_N dvd k"
  using zdvd_not_zless by blast

lemma mod_N_nonneg: "\<not> a mod secp_N < 0"
  by (simp add: secp_N_def)

lemma verify_signed:
  assumes sign: "signHash es hash d (ec_mult secp_G d) = Inr (sig, es')" and d: "0 < d" "d < secp_N"
  shows "verifySignature hash sig (compressPublicKey (ec_mult secp_G d)) \<longleftrightarrow> bytes32ToBigInt (drop 32 sig) \<noteq> 0"
proof -
  let ?Pk = "ec_mult secp_G d"
  have P: "stands_for ?Pk (ztimes d secp_gen)" using stands_for_gen_mult d by simp
  note finP = gen_mult_coordinates(1) [OF P not_dvd_N [OF d]]
  have Pk: "decompressPublicKey (compressPublicKey ?Pk) = ?Pk" using decompress_compress [OF P finP] .
  obtain k where k: "randomScalar es = Inr (k, es')" and sig: "sig =
      bigIntToBytes32 (px (ec_mult secp_G k)) @
      bigIntToBytes32 ((k + challenge (px (ec_mult secp_G k)) (px ?Pk) hash * d) mod secp_N)"
    using sign d finP by (auto simp: signHash_def Let_def mod_N_nonneg split: sum.splits prod.splits)
  let ?R = "ec_mult secp_G k"
  let ?e = "challenge (px ?R) (px ?Pk) hash"
  define s where "s = (k + ?e * d) mod secp_N"
  have k': "0 < k" "k < secp_N" using randomScalar_range [OF k] by simp_all
  have R: "stands_for ?R (ztimes k secp_gen)" using stands_for_gen_mult k' by simp
  note coord = gen_mult_coordinates [OF R not_dvd_N [OF k']]
  have Rx: "0 < px ?R" "px ?R < secp_P" using coord(3) R by (auto simp: stands_for_def)
  have e: "0 \<le> ?e" "?e < secp_N" by (simp_all add: challenge_def secp_N_def)
  have "secp_P < 256 ^ 32" "secp_N < 256 ^ 32" by (simp_all add: secp_P_def secp_N_def)
  moreover have s: "0 \<le> s" "s < secp_N" by (simp_all add: s_def secp_N_def)
  ultimately have "bytes32ToBigInt (bigIntToBytes32 (px ?R)) = px ?R" "bytes32ToBigInt (bigIntToBytes32 s) = s"
    using Rx by (simp_all add: bytes32ToBigInt_bigIntToBytes32)
  moreover have "bytes32ToBigInt sig = bytes32ToBigInt (take 32 sig)" by (simp add: bytes32ToBigInt_take)
  ultimately have parts: "bytes32ToBigInt sig = px ?R" "bytes32ToBigInt (drop 32 sig) = s"
    by (simp_all add: sig s_def)
  have "ec_add (ec_mult secp_G s)
      (if \<not> is_infinity (ec_mult ?Pk ?e)
       then ECPoint (px (ec_mult ?Pk ?e)) (secp_P - py (ec_mult ?Pk ?e)) secp_P secp_A secp_B
       else ec_mult ?Pk ?e) = ?R"
    using computed_nonce_point [OF not_dvd_N [OF k'] _ _ not_dvd_N [OF d] e P s_def refl refl] k' d by simp
  then show ?thesis
    using Rx s finP coord(1) by (auto simp: verifySignature_def Let_def parts Pk)
qed

end
