(* ===== verification/Signed_Payments.thy ===== *)
theory Signed_Payments
  imports Session EC_Group
begin

text \<open>
  From keys to payments: a transaction signed with a key of the wallet is valid, and the payment the
  user orders at the menu reaches the pool.  The one exception is a signature whose second half is
  zero, which \<open>signHash\<close> does not avoid and \<open>verifySignature\<close> rejects.
\<close>

section \<open>Signed messages and transactions\<close>

definition unlucky :: "byte list \<Rightarrow> bool" where
  "unlucky sig \<longleftrightarrow> bytes32ToBigInt (drop 32 sig) = 0"

lemma derived_key_finite: "0 < d \<Longrightarrow> d < secp_N \<Longrightarrow> \<not> is_infinity (ec_mult secp_G d)"
  using gen_mult_coordinates(1) [OF stands_for_gen_mult not_dvd_N] by simp

lemma decompress_derived_key:
  "0 < d \<Longrightarrow> d < secp_N \<Longrightarrow> decompressPublicKey (compressPublicKey (ec_mult secp_G d)) = ec_mult secp_G d"
  using decompress_compress [OF stands_for_gen_mult] derived_key_finite by simp

lemma derived_key_valid: "0 < d \<Longrightarrow> d < secp_N \<Longrightarrow> isValidPublicKey (compressPublicKey (ec_mult secp_G d))"
  using derived_key_finite [of d] decompress_derived_key [of d]
  by (auto simp: isValidPublicKey_def compressPublicKey_def)

lemma verify_signed_message:
  "signMessage es m d (ec_mult secp_G d) = Inr (sig, es') \<Longrightarrow> 0 < d \<Longrightarrow> d < secp_N \<Longrightarrow>
     verifyMessageSignature m sig (compressPublicKey (ec_mult secp_G d)) \<longleftrightarrow> \<not> unlucky sig"
  using verify_signed by (simp add: signMessage_def verifyMessageSignature_def unlucky_def)

lemma verify_signed_bytes:
  assumes "signMessage_bytes es m key = Inr (sig, es')" "isValidPrivateKey key"
  shows "verifyMessageSignature m sig (compressPublicKey (ec_mult secp_G (bytes32ToBigInt key))) \<longleftrightarrow> \<not> unlucky sig"
proof -
  have d: "0 < bytes32ToBigInt key" "bytes32ToBigInt key < secp_N"
    using assms(2) by (simp_all add: isValidPrivateKey_def Let_def)
  then have "signMessage es m (bytes32ToBigInt key) (ec_mult secp_G (bytes32ToBigInt key)) = Inr (sig, es')"
    using assms(1) by (simp add: signMessage_bytes_def signMessage_key_def signHash_key_def signMessage_def)
  then show ?thesis using d by (rule verify_signed_message)
qed

lemma signed_transaction_verifies:
  assumes "signTransaction es key t = (True, t', es')"
  shows "tx_verifySignature_hex t' (sender_pubkey t') \<longleftrightarrow> \<not> unlucky (signatureFromHex (signature t'))"
proof -
  let ?d = "bytes32ToBigInt key"
  let ?Q = "ec_mult secp_G ?d"
  have d: "0 < ?d" "?d < secp_N"
    using assms by (auto simp: signTransaction_def isValidPrivateKey_def Let_def split: if_splits)
  have kp: "keyPairFromPrivateKey ?d = KeyPair ?d ?Q" using d by (simp add: keyPairFromPrivateKey_def)
  obtain sig where sig: "signMessage es (getTransactionData t) ?d ?Q = Inr (sig, es')"
    and t': "t' = t\<lparr>signature := signatureToHex sig, sender_pubkey := ec_bytesToHex (compressPublicKey ?Q)\<rparr>"
    using assms by (auto simp: signTransaction_def kp KeyPair_def Let_def split: if_splits sum.splits)
  have len: "length sig = 64" using sig by (simp add: signMessage_def signHash_length)
  have "length (compressPublicKey ?Q) = 33" using derived_key_finite [OF d] by (simp add: compressPublicKey_def)
  then have "hexToBytes (sender_pubkey t') (zeros 33) 33 = (33, compressPublicKey ?Q)" "length (sender_pubkey t') = 66"
    by (simp_all add: t' hexToBytes_bytesToHex zeros_def)
  moreover have "signature t' \<noteq> []" using len by (auto simp: t' signatureToHex_def simp flip: length_0_conv)
  moreover have "signatureFromHex (signature t') = sig"
    using signatureFromHex_signatureToHex [OF len] by (simp add: t')
  moreover have "getTransactionData t' = getTransactionData t" by (simp add: t' getTransactionData_def)
  ultimately show ?thesis
    using verify_signed_message [OF sig d] derived_key_valid [OF d]
    by (simp add: tx_verifySignature_hex_def tx_verifySignature_def ec_sizes)
qed

section \<open>Generated keys\<close>

text \<open>A key pair drawn by \<open>generateKeyPair\<close> fills the wallet's buffers, and the loader of the
  wallet file accepts it.\<close>

definition scalar_key :: "int \<Rightarrow> wallet_key" where
  "scalar_key d = (let pub = compressPublicKey (ec_mult secp_G d)
     in \<lparr>wk_private = bigIntToBytes32 d, wk_public = pub, wk_address = deriveAddress pub\<rparr>)"

lemma key_bytes_scalar:
  assumes "0 < d" "d < secp_N"
  shows "key_bytes (keyPairFromPrivateKey d) = Some (scalar_key d)"
proof -
  have bound: "d < 16 ^ 64" "d < 256 ^ 32" using assms(2) by (simp_all add: secp_N_def)
  then obtain bs where bs: "length bs = 32" "be_value bs = d" using be_value_surj assms(1) by (metis less_imp_le)
  then have hex: "padded_hex d = ec_bytesToHex bs"
    using padded_hex_fixed [of d] hex_bytes_fixed [of bs] bound(1) assms(1) by (simp add: ec_bytesToHex_hex_bytes)
  have "length (compressPublicKey (ec_mult secp_G d)) = 33"
    using derived_key_finite [OF assms] by (simp add: compressPublicKey_def)
  moreover have "bigIntToBytes32 d = bs" using bigIntToBytes32_be_value [OF bs(1)] bs(2) by simp
  ultimately show ?thesis
    using assms bs(1)
    by (simp add: key_bytes_def keyPairFromPrivateKey_def KeyPair_def scalar_key_def Let_def hex ec_sizes
        hexToBytes_bytesToHex zeros_def)
qed

lemma scalar_key_usable: "0 < d \<Longrightarrow> d < secp_N \<Longrightarrow> usable (wk_address (scalar_key d), scalar_key d)"
  using derived_key_valid [of d] bytes32ToBigInt_bigIntToBytes32 [of d]
  by (simp add: usable_def scalar_key_def Let_def isValidPrivateKey_def secp_N_def)

lemma generate_address:
  assumes "randomScalar es = Inr (d, es')"
  shows "generateNewAddress es w = (wk_address (scalar_key d), store_key_pair (scalar_key d) w, es')"
  using assms key_bytes_scalar randomScalar_range [OF assms]
  by (simp add: generateNewAddress_def generateKeyPair_def)

section \<open>A payment ordered at the menu\<close>

lemma wallet_signs_valid:
  assumes "list_all self_signed (key_pairs w)" "wallet_signTransaction es w t a = (True, t', es')"
    and "receiver t \<noteq> []" "receiver t \<noteq> a" "isValidAmount (amount t)"
  shows "tx_valid t' \<longleftrightarrow> \<not> unlucky (signatureFromHex (signature t'))"
proof -
  have "signTransaction es (getPrivateKey w a) t = (True, t', es')"
    using assms(2) by (auto simp: wallet_signTransaction_def split: if_splits)
  then show ?thesis using wallet_signs(5) [OF assms(1,2)] signed_transaction_verifies assms(3-5) by simp
qed

lemma signed_fields_pool:
  assumes "signed_fields s = signed_fields t"
  shows "transactionExists c s = transactionExists c t"
proof -
  have "tx_hash s = tx_hash t" using assms by (simp add: signed_fields_def tx_hash_def getTransactionData_def)
  then show ?thesis by (simp add: transactionExists_def)
qed

lemma signing_succeeds:
  assumes "isValidPrivateKey (getPrivateKey w (sender t))" "randomScalar es = Inr (k, es')"
  shows "\<exists>t'. wallet_signTransaction es w t (sender t) = (True, t', es')"
proof -
  let ?key = "getPrivateKey w (sender t)"
  have d: "0 < bytes32ToBigInt ?key" "bytes32ToBigInt ?key < secp_N"
    using assms(1) by (simp_all add: isValidPrivateKey_def Let_def)
  have "hasAddress w (sender t)"
  proof (rule ccontr)
    assume "\<not> hasAddress w (sender t)"
    then have "?key = zeros PRIVATE_KEY_SIZE" by (simp add: hasAddress_def getPrivateKey_def)
    then show False using assms(1) zero_key_invalid by (simp add: ec_sizes)
  qed
  then show ?thesis
    using assms d derived_key_finite [OF d]
    by (simp add: wallet_signTransaction_def signTransaction_def keyPairFromPrivateKey_def KeyPair_def
        signMessage_def signHash_def Let_def)
qed

lemma ask_amount:
  "newline \<notin> set l \<Longrightarrow> parse_amount l = Some v \<Longrightarrow> promptAmount (Good (l @ newline # rest)) = (Some v, Good rest)"
  unfolding promptAmount_def
  by (subst prompt_until.simps) (simp add: promptLine_def getline_delim stream_ok_def)

text \<open>The fields the user and the clock determine, before signing.\<close>

definition ordered :: "reading \<Rightarrow> program \<Rightarrow> string \<Rightarrow> int \<Rightarrow> transaction" where
  "ordered r p to val = new_transaction (r_now_tx r) (fst (freshNonce (r_now r) (rng p)))
     (default_address (user_wallet p)) to val"

lemma payment_pooled:
  assumes w: "own_step\<^sup>*\<^sup>* empty_wallet (user_wallet p)"
      "isValidPrivateKey (getPrivateKey (user_wallet p) (default_address (user_wallet p)))"
    and typed: "stdin p = Good (to @ newline # figure @ newline # rest)" "\<not> isBlank to" "newline \<notin> set to"
      "newline \<notin> set figure" "parse_amount figure = Some val" "0 < val" "to \<noteq> default_address (user_wallet p)"
    and entropy: "randomScalar (fst (snd (freshNonce (r_now r) (rng p)))) = Inr (k, es')"
    and ledger: "\<not> transactionExists (shared_chain p) (ordered r p to val)"
      "val \<le> to_int64 (getBalance (shared_chain p) (default_address (user_wallet p))
        - pendingOutflow (shared_chain p) (default_address (user_wallet p)))"
  shows "\<exists>t. wallet_signTransaction (fst (snd (freshNonce (r_now r) (rng p)))) (user_wallet p) (ordered r p to val)
      (default_address (user_wallet p)) = (True, t, es') \<and>
    signed_fields t = signed_fields (ordered r p to val) \<and>
    shared_chain (cli_addTransaction r p) =
      (if unlucky (signatureFromHex (signature t)) then shared_chain p
       else (shared_chain p)\<lparr>pending_transactions := pending_transactions (shared_chain p) @ [t]\<rparr>)"
proof -
  let ?w = "user_wallet p" and ?t = "ordered r p to val"
  define a where "a = default_address ?w"
  have t: "sender ?t = a" "receiver ?t = to" "amount ?t = val"
    by (simp_all add: ordered_def new_transaction_def a_def)
  obtain fresh es counter where f: "freshNonce (r_now r) (rng p) = (fresh, es, counter)" by (metis prod.exhaust)
  obtain t' where sign: "wallet_signTransaction es ?w ?t a = (True, t', es')"
    using signing_succeeds [of ?w ?t es k es'] w(2) entropy by (auto simp: t f a_def)
  have self: "list_all self_signed (key_pairs ?w)"
    using signers.own_reach [OF w(1)] by (simp add: empty_wallet_def)
  note s = wallet_signs [OF self sign]
  have "isValidAmount val" using parse_amount_range [OF typed(5)] typed(6) by (simp add: isValidAmount_def)
  moreover have "to \<noteq> []" using typed(2) by (auto simp: isBlank_def)
  ultimately have valid: "tx_valid t' \<longleftrightarrow> \<not> unlucky (signatureFromHex (signature t'))"
    using wallet_signs_valid [OF self sign] typed(7) by (simp add: t a_def)
  have "transactionExists (shared_chain p) t' = transactionExists (shared_chain p) ?t"
    using s(1) by (rule signed_fields_pool)
  moreover have "sender t' = a" "amount t' = val" using s(1) t by (simp_all add: signed_fields_def)
  ultimately have added: "bc_addTransaction t' (shared_chain p) = (if unlucky (signatureFromHex (signature t'))
      then shared_chain p
      else (shared_chain p)\<lparr>pending_transactions := pending_transactions (shared_chain p) @ [t']\<rparr>)"
    using valid ledger by (simp add: bc_addTransaction_def a_def)
  have "hasAddress ?w a" using sign by (auto simp: wallet_signTransaction_def split: if_splits)
  then have "a \<in> fst ` set (key_pairs ?w)" by (auto simp: hasAddress_def map_of_eq_None_iff)
  moreover have "list_all filed (key_pairs ?w)" using own_reach_well_addressed [OF w(1)] by simp
  ultimately have "a \<noteq> []" using filed_addresses by fastforce
  then have "shared_chain (cli_addTransaction r p) = bc_addTransaction t' (shared_chain p)"
    using typed sign f
    by (simp add: cli_addTransaction_def Let_def ask_text ask_amount ordered_def flip: a_def)
  then show ?thesis using added s(1) sign f by (auto simp flip: a_def)
qed


end
