(* ===== verification/Examples.thy ===== *)
theory Examples
  imports Chain_System
begin

text \<open>
  Concrete values on which the properties of the root theory are instantiated: a fresh ledger at
  difficulty 0 (where the first nonce works), the ledger after one mined reward, and a point of the
  curve with coordinate y = 1, whose key decompresses by evaluation of powers of 1.
\<close>

section \<open>Two ledgers\<close>

definition genesis0 :: block where
  "genesis0 = mined_at (new_block 0 ''0'' 0 0) 1"

definition ledger0 :: blockchain where
  "ledger0 = updateBalances \<lparr>chain = [genesis0], pending_transactions = [], difficulty = 0,
     mining_reward = coins 50, balances = Map.empty\<rparr>"

definition reward1 :: transaction where
  "reward1 = reward_tx 5 7 ''alice'' ledger0"

definition block1 :: block where
  "block1 = mined_at (unmined 5 ledger0 0 reward1) 1"

definition ledger1 :: blockchain where
  "ledger1 = after_mining block1 ledger0"

lemma new_ledger0: "new_blockchain 0 0 (coins 50) = Some ledger0"
  by (simp add: new_blockchain_def createGenesisBlock_def mineBlock_difficulty_zero genesis0_def ledger0_def)

lemma ledger0_sel [simp]:
  "chain ledger0 = [genesis0]" "pending_transactions ledger0 = []" "difficulty ledger0 = 0"
  "mining_reward ledger0 = 5000000000"
  by (simp_all add: ledger0_def coins_def COIN_def to_int64_id in_int64_def int_bounds)

lemma genesis0_sel [simp]:
  "b_timestamp genesis0 = 0" "b_transactions genesis0 = []" "b_index genesis0 = 0"
  "b_previous_hash genesis0 = ''0''" "b_difficulty genesis0 = 0" "b_nonce genesis0 = 1"
  by (simp_all add: genesis0_def)

lemma chain_txs_ledger0 [simp]: "chain_txs ledger0 = []"
  by (simp add: chain_txs_def)

lemma ledger0_wf: "ledger_wf ledger0"
  using new_blockchain_wf [OF new_ledger0] by simp

lemma required_ledger0: "calculateRequiredDifficulty ledger0 = Some 0"
  by (simp add: calculateRequiredDifficulty_def calculateRequiredDifficultyAtHeight_def schedule_consts
      chain_height_def to_int32_id in_int32_def int_bounds)

lemma reward1_valid: "tx_valid reward1"
  by (simp add: reward1_def reward_valid_iff isValidAmount_def money_consts)

lemma mine_ledger0: "minePendingTransactions 5 5 7 ''alice'' ledger0 = Some ledger1"
  using reward1_valid
  by (simp add: mine_eq [OF _ required_ledger0] mineBlock_difficulty_zero unmined_def Let_def
      ledger1_def block1_def reward1_def)

lemma ledger1_sel [simp]:
  "chain ledger1 = [genesis0, block1]" "pending_transactions ledger1 = []" "difficulty ledger1 = 0"
  "mining_reward ledger1 = 5000000000"
  by (simp_all add: ledger1_def)

lemma block1_sel [simp]:
  "b_timestamp block1 = 5" "b_transactions block1 = [reward1]" "b_difficulty block1 = 0"
  "b_index block1 = 1" "b_nonce block1 = 1" "b_previous_hash block1 = b_hash genesis0"
  by (simp_all add: block1_def unmined_def Let_def chain_height_def to_int32_id in_int32_def int_bounds)

lemma reward1_sel [simp]:
  "sender reward1 = ''system''" "receiver reward1 = ''alice''" "amount reward1 = 5000000000"
  "timestamp reward1 = 5" "signature reward1 = []" "sender_pubkey reward1 = []"
  by (simp_all add: reward1_def reward_tx_def new_transaction_def)

lemma chain_txs_ledger1 [simp]: "chain_txs ledger1 = [reward1]"
  by (simp add: chain_txs_def)

lemma ledger1_differs: "ledger1 \<noteq> ledger0"
proof
  assume "ledger1 = ledger0"
  then have "chain ledger1 = chain ledger0" by simp
  then show False by simp
qed

lemma ledger_steps: "local_step ledger0 ledger1" "bc_step ledger0 ledger1"
proof -
  show l: "local_step ledger0 ledger1"
    by (rule local_step.mine [OF _ mine_ledger0]) simp
  then show "bc_step ledger0 ledger1" by (rule by_itself)
qed

lemma ledger1_wf: "ledger_wf ledger1"
  using wf.local_keep [OF ledger_steps(1) ledger0_wf] .

lemma block1_mined_on: "mined_on 5 ledger0 (reward_tx 5 7 ''alice'' ledger0) block1"
  using mine_ledger0
proof (rule mine_cases [rotated])
  assume "ledger1 = ledger0"
  then show ?thesis using ledger1_differs by simp
next
  fix b
  assume b: "mined_on 5 ledger0 (reward_tx 5 7 ''alice'' ledger0) b" "ledger1 = after_mining b ledger0"
  then have "chain ledger1 = chain (after_mining b ledger0)" by (simp only:)
  then show ?thesis using b(1) by simp
qed simp

lemma receive_block1: "addBlock (Some block1) ledger0 = Some (True, appended block1 ledger0)"
proof -
  have "acceptable ledger0 block1"
    by (rule mined_acceptable [rotated 5, OF block1_mined_on])
       (use ledger0_wf in \<open>auto simp: same_ledger_def no_system_def ledger_wf_def\<close>)
  then show ?thesis by (simp add: addBlock_iff)
qed

lemma ledger1_storable: "storable ledger1"
proof -
  have "b_hash genesis0 = block_hash genesis0" "b_hash block1 = block_hash block1"
    by (simp_all add: genesis0_def block1_def mined_at_def)
  moreover have "root_current genesis0" "root_current block1"
    by (simp_all add: genesis0_def block1_def unmined_def Let_def root_current_def new_block_def
        b_calculateMerkleRoot_eq)
  moreover have "word_like ''0''" "word_like ''system''" "word_like ''alice''"
    by (simp_all add: word_like_def is_space_def)
  ultimately show ?thesis
    by (simp add: storable_def storable_block_def storable_tx_def hash_word_like block_hash_def
        optional_word_def in_int32_def in_int64_def int_bounds isValidAmount_def money_consts)
qed

section \<open>A point with y = 1\<close>

definition small_x :: int where
  "small_x = 14420825845716772930243294451304383010336953996540286189290595400563546912007"

definition small_key :: "byte list" where
  "small_key = COMPRESSED_ODD_PREFIX # bigIntToBytes32 small_x"

lemma small_x_root: "((small_x * small_x * small_x) mod secp_P + 7) mod secp_P = 1"
proof -
  have "small_x * small_x * small_x + 7
      = 25899507534701520581795134778160311015495504093523267263232233975490419224647606583316828070306725531077228335006842549734466553100443339289797036604723
        * secp_P + 1"
    by (simp add: small_x_def secp_P_def)
  then have "(small_x * small_x * small_x + 7) mod secp_P = 1 mod secp_P" by (simp only: mod_mult_self3)
  then show ?thesis by (simp add: mod_add_left_eq) (simp add: secp_P_def)
qed

lemma small_x_range: "0 \<le> small_x" "small_x < 2 ^ 256" "small_x < secp_P"
  by (simp_all add: small_x_def secp_P_def)

lemma modSqrt_one: "modSqrt 1 secp_P = 1"
  by (simp add: modSqrt_def modPow_correct secp_P_def)

lemma small_key_decompress: "decompressPublicKey small_key = ECPoint small_x 1 secp_P secp_A secp_B"
proof -
  have "bytes32ToBigInt (drop 1 small_key) = small_x"
    using small_x_range by (simp add: small_key_def bytes32ToBigInt_bigIntToBytes32)
  moreover have "small_key ! 0 = 3" by (simp add: small_key_def ec_prefixes)
  ultimately show ?thesis
    using small_x_range small_x_root modSqrt_one
    by (simp add: decompressPublicKey_def ec_prefixes Let_def secp_B_def)
qed

lemma small_key_valid: "length small_key = 33" "\<not> is_infinity (decompressPublicKey small_key)"
proof -
  show "length small_key = 33" by (simp add: small_key_def)
  show "\<not> is_infinity (decompressPublicKey small_key)" by (simp add: small_key_decompress)
qed

end
