(* ===== verification/P2P_Exchange.thy ===== *)
theory P2P_Exchange
  imports P2P_Safety Chain_System
begin

text \<open>
  What two nodes achieve by exchanging messages: which messages of a peer's byte stream a round
  handles, what the gossip caches let through, and that the answer to a block request, received in
  pieces and read line by line, hands the requested blocks to the ledger in their order.
\<close>

section \<open>Which messages a round handles\<close>

definition reader_is :: "nat \<Rightarrow> byte list \<Rightarrow> node \<Rightarrow> bool" where
  "reader_is i buf st \<longleftrightarrow> i < next_obj st \<and> p_socket (objs st i) \<noteq> INVALID_SOCK \<and> p_recv_buffer (objs st i) = buf"

text \<open>Handlers do not touch the reader of the peer they serve.\<close>

interpretation reader: handler_invariant "reader_is i buf" "\<lambda>_. True" for i buf
  by unfold_locales
    (auto simp: reader_is_def cancelSync_def with_peer_def allocate_def updateLastSeen_def enter_table_def)

text \<open>If the buffered stream begins with a message, its frame is taken off and the peer was just seen;
  otherwise, in particular while the frame is incomplete, nothing changes.\<close>

definition advance :: "int \<Rightarrow> nat \<Rightarrow> node \<Rightarrow> node" where
  "advance now i st =
     (let buf = p_recv_buffer (objs st i)
      in if fst (parse_stream buf) = [] then st
         else with_peer i (\<lambda>p. p\<lparr>p_recv_buffer := drop (frame_length buf) buf, p_last_seen := now\<rparr>) st)"

definition serve :: "environment \<Rightarrow> int \<Rightarrow> nat \<Rightarrow> message \<Rightarrow> node \<Rightarrow> node" where
  "serve env now i m st = advance now i (handleMessage env now i m st)"

lemma next_advance:
  assumes "reader_is i buf st" "nextBufferedMessage now m (objs st i) = (s, m', p)"
  shows "with_peer i (\<lambda>_. p) st = advance now i st"
proof -
  have e: "extractMessage now m (objs st i) = (s, m', p)"
    using assms by (simp add: nextBufferedMessage_def reader_is_def)
  show ?thesis
  proof (cases "s = Message")
    case True
    have "fst (parse_stream (p_recv_buffer (objs st i))) \<noteq> []"
      using extractMessage_parse [of now m "objs st i" m' p] e True by (auto split: prod.splits)
    then show ?thesis
      using e True by (simp add: extractMessage_iff advance_def with_peer_def updateLastSeen_def Let_def)
  next
    case False
    then show ?thesis using extractMessage_stop [OF e] by (simp add: advance_def with_peer_def)
  qed
qed

text \<open>One more message, or none, out of a reader with a given stream.\<close>

lemma next_stream:
  assumes "reader_is i buf st" "parse_stream buf = (ms, r)"
    and "nextBufferedMessage now m (objs st i) = (s, m', p)"
  shows "reader_is i (p_recv_buffer p) (advance now i st)"
    and "ms = [] \<Longrightarrow> s \<noteq> Message \<and> p_recv_buffer p = r"
    and "ms = n # ns \<Longrightarrow> s = Message \<and> m' = n \<and> parse_stream (p_recv_buffer p) = (ns, r)"
proof -
  have e: "extractMessage now m (objs st i) = (s, m', p)"
    and buf: "p_recv_buffer (objs st i) = buf"
    using assms(1,3) by (simp_all add: nextBufferedMessage_def reader_is_def)
  have "p_socket p = p_socket (objs st i)"
    using e by (auto simp: extractMessage_def Let_def updateLastSeen_def split: if_splits sum.splits)
  then show "reader_is i (p_recv_buffer p) (advance now i st)"
    using assms(1) unfolding next_advance [OF assms(1,3), symmetric]
    by (simp add: reader_is_def with_peer_def)
  show "ms = [] \<Longrightarrow> s \<noteq> Message \<and> p_recv_buffer p = r"
    using extractMessage_parse [of now m "objs st i" m' p] extractMessage_stop [OF e] e assms(2) buf
    by (cases "s = Message") (auto split: prod.splits)
  show "ms = n # ns \<Longrightarrow> s = Message \<and> m' = n \<and> parse_stream (p_recv_buffer p) = (ns, r)"
    using extractMessage_parse [of now m "objs st i" m' p] extractMessage_stop [OF e] e assms(2) buf
    by (cases "s = Message") (auto split: prod.splits)
qed

lemma drain_loop_serves:
  assumes "reader_is i buf st" "parse_stream buf = (ms, r)"
  shows "snd (drain_loop env now i k (Message, m) st) = fold (serve env now i) (take k (m # ms)) st \<and>
    (\<exists>buf'. reader_is i buf' (snd (drain_loop env now i k (Message, m) st)) \<and>
       parse_stream buf' = (drop k ms, r) \<and> (k > length ms \<longrightarrow> buf' = r)) \<and>
    (fst (drain_loop env now i k (Message, m) st) = Message \<longleftrightarrow> k \<le> length ms)"
  using assms
proof (induction k arbitrary: m ms buf st)
  case 0
  then show ?case by auto
next
  case (Suc k)
  let ?st = "handleMessage env now i m st"
  have kept: "reader_is i buf ?st" by (rule reader.handleMessage [OF Suc.prems(1) TrueI])
  obtain s m' p where n: "nextBufferedMessage now m (objs ?st i) = (s, m', p)" by (rule prod_cases3)
  note nx = next_stream [OF kept Suc.prems(2) n]
  have serve: "advance now i ?st = serve env now i m st" by (simp add: serve_def)
  have step: "drain_loop env now i (Suc k) (Message, m) st = drain_loop env now i k (s, m') (serve env now i m st)"
    using n next_advance [OF kept n] by (simp add: serve_def)
  show ?case
  proof (cases ms)
    case Nil
    then have "drain_loop env now i k (s, m') (serve env now i m st) = (s, serve env now i m st)" "s \<noteq> Message"
      using nx(2) by (cases k; simp)+
    moreover have "parse_stream r = ([], r)"
      using nx(2) Nil n kept extractMessage_stop [of now m "objs ?st i" s m' p]
      by (auto simp: nextBufferedMessage_def reader_is_def)
    ultimately show ?thesis
      using Nil nx(1,2) unfolding step by (auto simp: serve)
  next
    case (Cons n ns)
    note nx' = nx(3) [OF Cons]
    have "parse_stream (p_recv_buffer p) = (ns, r)" using nx' by simp
    note IH = Suc.IH [OF nx(1) this, of n, unfolded serve]
    have "drain_loop env now i (Suc k) (Message, m) st = drain_loop env now i k (Message, n) (serve env now i m st)"
      using step nx' by simp
    then show ?thesis
      using conjunct1 [OF IH] conjunct2 [OF IH, unfolded conjunct1 [OF IH]] Cons
      by (simp only: take_Suc_Cons fold_simps drop_Suc_Cons list.size Suc_le_mono add_0_right add_Suc_right
          Suc_less_eq)
  qed
qed

text \<open>The received bytes are appended and the first frame is taken out.\<close>

definition refill :: "int \<Rightarrow> nat \<Rightarrow> byte list \<Rightarrow> node \<Rightarrow> node" where
  "refill now i received st =
     advance now i (with_peer i (\<lambda>p. p\<lparr>p_recv_buffer := p_recv_buffer p @ received\<rparr>) st)"

text \<open>A buffer no continuation of which is a stream of frames: its first header is complete but has the
  wrong magic or too large a payload, or its first frame is complete but does not deserialise.\<close>

definition framing_error :: "byte list \<Rightarrow> bool" where
  "framing_error buf \<longleftrightarrow> HEADER_SIZE \<le> length buf \<and>
     (readU32BE buf \<noteq> MAGIC_NUMBER \<or> MAX_PAYLOAD_SIZE < unat (readU32BE (drop 5 buf)) \<or>
      (frame_length buf \<le> length buf \<and> (\<nexists>m. msg_deserialize buf = Inr m)))"

lemma extract_status: "fst (extractMessage now m p) = Closed \<longleftrightarrow> framing_error (p_recv_buffer p)"
proof -
  let ?buf = "p_recv_buffer p"
  note cut = deserialize_frame [of ?buf]
  have "(\<nexists>m. msg_deserialize ?buf = Inr m) \<longleftrightarrow> (\<exists>err. msg_deserialize ?buf = Inl err)"
    by (cases "msg_deserialize ?buf") auto
  then show ?thesis
    using cut by (auto simp: framing_error_def extractMessage_def Let_def frame_length_def not_le not_less
        split: sum.splits if_splits)
qed

lemma drain_status:
  assumes "reader_is i buf st" "parse_stream buf = (ms, r)" "length ms < k"
  shows "fst (drain_loop env now i k (Message, m) st) = Closed \<longleftrightarrow> framing_error r"
  using assms
proof (induction k arbitrary: m ms buf st)
  case (Suc k)
  let ?st = "handleMessage env now i m st"
  have kept: "reader_is i buf ?st" by (rule reader.handleMessage [OF Suc.prems(1) TrueI])
  obtain s m' p where n: "nextBufferedMessage now m (objs ?st i) = (s, m', p)" by (rule prod_cases3)
  note nx = next_stream [OF kept Suc.prems(2) n]
  have step: "drain_loop env now i (Suc k) (Message, m) st = drain_loop env now i k (s, m') (serve env now i m st)"
    using n next_advance [OF kept n] by (simp add: serve_def)
  show ?case
  proof (cases ms)
    case Nil
    then have d: "fst (drain_loop env now i k (s, m') (serve env now i m st)) = s" "s \<noteq> Message"
      using nx(2) by (cases k; simp)+
    have e: "extractMessage now m (objs ?st i) = (s, m', p)"
      using n kept by (simp add: nextBufferedMessage_def reader_is_def)
    have "p = objs ?st i" using extractMessage_stop [OF e d(2)] by simp
    then have "p_recv_buffer (objs ?st i) = r" using nx(2) Nil by simp
    then show ?thesis
      unfolding step d(1) using extract_status [of now m "objs ?st i"] e by simp
  next
    case (Cons n ns)
    then show ?thesis
      using Suc.IH [OF nx(1), of ns m'] nx(3) Suc.prems(3) unfolding step by (simp add: serve_def)
  qed
qed simp

theorem round_serves:
  assumes "running st" "reader_is i buf st" "length (buf @ received) \<le> MAX_FRAME_SIZE"
    and "parse_stream (buf @ received) = (ms, r)"
  shows "length ms \<le> 32 \<Longrightarrow> receive_round env now addr i (Some received) st =
      (let st' = fold (serve env now i) ms (refill now i received st)
       in if framing_error r then removePeer addr st' else st')"
    and "32 < length ms \<Longrightarrow> receive_round env now addr i (Some received) st =
      fold (serve env now i) (take 32 ms) (refill now i received st)"
    and "\<exists>buf'. reader_is i buf' (fold (serve env now i) (take 32 ms) (refill now i received st)) \<and>
      parse_stream buf' = (drop 33 ms, r)"
    and "length ms \<le> 32 \<Longrightarrow> reader_is i r (fold (serve env now i) ms (refill now i received st))"
proof -
  let ?p = "(objs st i)\<lparr>p_recv_buffer := p_recv_buffer (objs st i) @ received\<rparr>"
  let ?st = "with_peer i (\<lambda>p. p\<lparr>p_recv_buffer := p_recv_buffer p @ received\<rparr>) st"
  have sock: "p_socket (objs st i) \<noteq> INVALID_SOCK" and buf: "p_recv_buffer (objs st i) = buf"
    using assms(2) by (simp_all add: reader_is_def)
  have obj: "objs ?st i = ?p" by (simp add: with_peer_def)
  have rd: "reader_is i (buf @ received) ?st" using assms(2) by (simp add: reader_is_def with_peer_def)
  obtain s m p where n: "nextBufferedMessage now default_message (objs ?st i) = (s, m, p)" by (rule prod_cases3)
  note nx = next_stream [OF rd assms(4) n]
  have poll: "pollReceive now (Some received) default_message (objs st i) = (s, m, p)"
    using n sock assms(3) buf by (simp add: pollReceive_def nextBufferedMessage_def obj)
  have fill: "with_peer i (\<lambda>_. p) st = refill now i received st"
    using next_advance [OF rd n] by (simp add: refill_def with_peer_def)
  have rd': "reader_is i (p_recv_buffer p) (refill now i received st)"
    using nx(1) by (simp add: refill_def)
  have round: "receive_round env now addr i (Some received) st =
      (let (status, st1) = drain_loop env now i 32 (s, m) (refill now i received st)
       in if status = Closed then removePeer addr st1 else st1)"
    using assms(1) sock by (simp add: receive_round_def poll fill MAX_MESSAGES_PER_ROUND_def)
  have stop: "s \<noteq> Message \<Longrightarrow> drain_loop env now i 32 (s, m) (refill now i received st) = (s, refill now i received st)"
    by (simp add: numeral_eq_Suc)
  have status: "s = Closed \<longleftrightarrow> framing_error r" if "ms = []"
  proof -
    have e: "extractMessage now default_message ?p = (s, m, p)"
      using n sock by (simp add: nextBufferedMessage_def obj)
    then show ?thesis
      using extractMessage_stop [OF e] nx(2) [OF that] extract_status [of now default_message ?p] e
      by (cases "s = Message") simp_all
  qed
  show "receive_round env now addr i (Some received) st =
      (let st' = fold (serve env now i) ms (refill now i received st)
       in if framing_error r then removePeer addr st' else st')" if len: "length ms \<le> 32"
  proof (cases ms)
    case Nil
    then show ?thesis using stop nx(2) status unfolding round by (simp add: Let_def)
  next
    case (Cons n ns)
    note nx' = nx(3) [OF Cons]
    have "length ns < 32" using len Cons by simp
    then show ?thesis
      using drain_loop_serves [OF rd', of ns r env now 32 n] drain_status [OF rd', of ns r 32 env now n] nx' Cons
      unfolding round by (simp add: case_prod_beta Let_def)
  qed
  show "receive_round env now addr i (Some received) st =
      fold (serve env now i) (take 32 ms) (refill now i received st)" if len: "32 < length ms"
  proof -
    obtain n ns where Cons: "ms = n # ns" using len by (cases ms) auto
    note nx' = nx(3) [OF Cons]
    show ?thesis
      using drain_loop_serves [OF rd', of ns r env now 32 n] nx' Cons len
      unfolding round by (simp add: case_prod_beta Let_def)
  qed
  show "\<exists>buf'. reader_is i buf' (fold (serve env now i) (take 32 ms) (refill now i received st)) \<and>
      parse_stream buf' = (drop 33 ms, r)"
  proof (cases ms)
    case Nil
    have "parse_stream r = ([], r)"
      using nx(2) [OF Nil] n sock extractMessage_stop [of now default_message ?p s m p]
      by (auto simp: nextBufferedMessage_def obj)
    then show ?thesis using Nil rd' nx(2) by auto
  next
    case (Cons n ns)
    note nx' = nx(3) [OF Cons]
    have "drain_loop env now i 32 (Message, n) (refill now i received st) = drain_loop env now i 32 (s, m) (refill now i received st)"
      using nx' by simp
    then show ?thesis
      using drain_loop_serves [OF rd', of ns r env now 32 n] nx' Cons by auto
  qed
  show "reader_is i r (fold (serve env now i) ms (refill now i received st))" if len: "length ms \<le> 32"
  proof (cases ms)
    case Nil
    then show ?thesis using rd' nx(2) by simp
  next
    case (Cons n ns)
    then show ?thesis
      using drain_loop_serves [OF rd', of ns r env now 32 n] nx(3) len by auto
  qed
qed

lemma removePeer_objs [simp]: "objs (removePeer a st) = objs st"
  by (simp add: removePeer_def emit_def cancelSyncIfPeer_def cancelSync_def split: option.split)

text \<open>A frame that arrives in pieces: as long as it is incomplete, the round only buffers.\<close>

lemma incomplete_frame:
  assumes "sendable m" "msg_serialize m = Inr (a @ b)" "b \<noteq> []"
  shows "parse_stream a = ([], a)" "\<not> framing_error a"
proof -
  note f = frame_accepted [OF assms(1,2), of "[]", simplified]
  have short: "length a < frame_length a" and
    head: "readU32BE a = MAGIC_NUMBER" "unat (readU32BE (drop 5 a)) \<le> MAX_PAYLOAD_SIZE" if h: "HEADER_SIZE \<le> length a"
  proof -
    show "length a < frame_length a"
      using f frame_length_append [OF h, of b] assms(3) by simp
    have "readU32BE (a @ b) = MAGIC_NUMBER" "unat (readU32BE (drop 5 (a @ b))) \<le> MAX_PAYLOAD_SIZE"
      using f by (auto simp: msg_deserialize_def Let_def split: if_splits)
    then show "readU32BE a = MAGIC_NUMBER" "unat (readU32BE (drop 5 a)) \<le> MAX_PAYLOAD_SIZE"
      using h by (simp_all add: read_append HEADER_SIZE_def)
  qed
  show "parse_stream a = ([], a)" using short by (subst parse_stream.simps) auto
  show "\<not> framing_error a" using short head by (fastforce simp: framing_error_def)
qed

lemma refill_incomplete:
  assumes "reader_is i buf st" "fst (parse_stream (buf @ c)) = []"
  shows "refill now i c st = with_peer i (\<lambda>p. p\<lparr>p_recv_buffer := p_recv_buffer p @ c\<rparr>) st"
  using assms by (simp add: refill_def advance_def with_peer_def reader_is_def Let_def)

lemma round_buffers:
  assumes "running st" "reader_is i buf st" "sendable m" "msg_serialize m = Inr ((buf @ c) @ b)" "b \<noteq> []"
    and "length (buf @ c) \<le> MAX_FRAME_SIZE"
  shows "receive_round env now addr i (Some c) st =
    with_peer i (\<lambda>p. p\<lparr>p_recv_buffer := p_recv_buffer p @ c\<rparr>) st"
  using incomplete_frame [OF assms(3-5)] round_serves(1) [OF assms(1,2,6), of "[]"]
    refill_incomplete [OF assms(2), of c now]
  by simp

lemma ledger_reader [simp]:
  "ledger (advance now i st) = ledger st" "ledger (refill now i c st) = ledger st"
  "ledger (serve env now i m st) = ledger (handleMessage env now i m st)"
  by (simp_all add: advance_def refill_def serve_def with_peer_def Let_def)

text \<open>What arrives from one peer: the bytes of each \<open>recv\<close>, with the time of its round.\<close>

definition arrive :: "environment \<Rightarrow> string \<Rightarrow> nat \<Rightarrow> (int \<times> byte list) list \<Rightarrow> node \<Rightarrow> node" where
  "arrive env addr i arrivals st = fold (\<lambda>(t, c). receive_round env t addr i (Some c)) arrivals st"

text \<open>The message of a frame that arrives in any pieces is handled once, when the last one is there.\<close>

lemma frame_in_pieces:
  assumes "running st" "reader_is i buf st" "sendable m" "msg_serialize m = Inr (buf @ concat (map snd arrivals))"
    and "arrivals \<noteq> []" "[] \<notin> set (map snd arrivals)"
  shows "\<exists>t st'. ledger st' = ledger st \<and> ledger (arrive env addr i arrivals st) = ledger (handleMessage env t i m st')"
  using assms
proof (induction arrivals arbitrary: buf st)
  case (Cons a rest)
  obtain t c where a: "a = (t, c)" by force
  have "length (msg_sender m) \<le> 0xFFFF" "length (msg_payload m) \<le> MAX_PAYLOAD_SIZE"
    using Cons.prems(3) by (simp_all add: sendable_def MAX_SENDER_ID_SIZE_def)
  then have "length (buf @ concat (map snd (a # rest))) \<le> MAX_FRAME_SIZE"
    using Cons.prems(4)
    by (auto simp: msg_serialize_eq MAX_FRAME_SIZE_def HEADER_SIZE_def bytes_of_string_def split: if_splits
        dest!: arg_cong [where f = length])
  then have fits: "length (buf @ c) \<le> MAX_FRAME_SIZE" by (simp add: a)
  show ?case
  proof (cases "rest = []")
    case True
    then have "parse_stream (buf @ c) = ([m], [])"
      using parse_stream_frames [of "[m]" "[buf @ c]"] Cons.prems(3,4) a by simp
    from round_serves(1) [OF Cons.prems(1,2) fits this]
    have "receive_round env t addr i (Some c) st = serve env t i m (refill t i c st)"
      by (simp add: framing_error_def HEADER_SIZE_def)
    then show ?thesis
      using True a by (intro exI [of _ t] exI [of _ "refill t i c st"]) (simp add: arrive_def)
  next
    case False
    then have "concat (map snd rest) \<noteq> []" using Cons.prems(6) by (cases rest) auto
    then have round: "receive_round env t addr i (Some c) st =
        with_peer i (\<lambda>p. p\<lparr>p_recv_buffer := p_recv_buffer p @ c\<rparr>) st" (is "_ = ?st")
      using round_buffers [OF Cons.prems(1,2,3) _ _ fits, of "concat (map snd rest)"] Cons.prems(4) a by simp
    have "running ?st" "reader_is i (buf @ c) ?st" "ledger ?st = ledger st"
      using Cons.prems(1,2) by (simp_all add: reader_is_def with_peer_def)
    then show ?thesis
      using Cons.IH [of ?st "buf @ c"] Cons.prems(3,4,6) False a round by (auto simp: arrive_def)
  qed
qed simp

section \<open>Lines\<close>

definition lines_stream :: "string list \<Rightarrow> istream" where
  "lines_stream ls = (if ls = [] then AtEof else Good (join_with [CHR 0x0A] ls))"

lemma for_lines_stream:
  assumes "list_all (\<lambda>l. l \<noteq> [] \<and> CHR 0x0A \<notin> set l) ls"
  shows "for_lines body line (lines_stream ls) st = fold body ls st"
  using assms
proof (induction ls arbitrary: line st)
  case Nil
  then show ?case by (subst for_lines.simps) (simp add: lines_stream_def getline_end stream_ok_def)
next
  case (Cons l ls)
  have "getline (CHR 0x0A) line (lines_stream (l # ls)) = (l, lines_stream ls)"
    using Cons.prems by (cases ls) (simp_all add: lines_stream_def join_with_def getline_delim getline_last)
  moreover have "stream_ok (lines_stream ls)" by (simp add: lines_stream_def stream_ok_def)
  ultimately show ?case
    using Cons by (subst for_lines.simps) simp
qed

section \<open>A block request and its answer\<close>

definition served_clean :: "block \<Rightarrow> bool" where
  "served_clean b \<longleftrightarrow> block_wire_clean b \<and> CHR 0x0A \<notin> set (b_previous_hash b) \<and> CHR 0x0A \<notin> set (b_hash b) \<and>
     list_all (tx_wire_clean {CHR 0x0A}) (b_transactions b)"

lemma root_current_no_newline: "root_current b \<Longrightarrow> CHR 0x0A \<notin> set (b_merkle_root b)"
  using calculateMerkleRoot_lower_hex [of "map tx_hash (b_transactions b)"]
  by (auto simp: root_current_def tx_root_def list_all_iff is_lower_hex_def is_digit_def)

lemma show_no_newline: "CHR 0x0A \<notin> set (show_int i)" "CHR 0x0A \<notin> set (show_nat n)" "CHR 0x0A \<notin> set (show_word w)"
  using int64_text.show_no_delim [of "CHR 0x0A" i] delim_not_digit
  by (auto simp: show_word_def dest: set_show_nat)

lemma wire_tx_no_newline: "tx_wire_clean {CHR 0x0A} t \<Longrightarrow> CHR 0x0A \<notin> set (wire_tx '','' t)"
  using show_no_newline by (auto simp: tx_wire_clean_def wire_tx_def)

lemma served_line: "served_clean b \<Longrightarrow> block_serialize b \<noteq> [] \<and> CHR 0x0A \<notin> set (block_serialize b)"
  using show_no_newline root_current_no_newline wire_tx_no_newline
  by (auto simp: served_clean_def block_wire_clean_def block_serialize_def list_all_iff)

text \<open>What one received block does to the node.\<close>

definition take_block :: "environment \<Rightarrow> int \<Rightarrow> block \<Rightarrow> int \<times> node \<Rightarrow> int \<times> node" where
  "take_block env n b acc =
     (to_int32 (fst acc + 1), emit (SyncProgress (percentComplete (to_int32 (fst acc + 1)) n))
        (deliver_block env b ((snd acc)\<lparr>known_blocks := known_insert (b_hash b) (known_blocks (snd acc))\<rparr>)))"

lemma receive_served:
  "served_clean b \<Longrightarrow> can_reserve env (length (b_transactions b)) \<Longrightarrow>
     receive_block_line env n (block_serialize b) acc = take_block env n b acc"
  by (simp add: receive_block_line_def take_block_def block_serialize_roundtrip served_clean_def Let_def
      split: prod.splits)

lemma take_blocks_ledger:
  "ledger (snd (fold (take_block env n) bs acc)) = fold (onNewBlock env) bs (ledger (snd acc))"
  by (induction bs arbitrary: acc) (simp_all add: take_block_def deliver_block_def emit_def)

lemma handleBlocks_served:
  assumes "list_all served_clean bs" "\<forall>b \<in> set bs. can_reserve env (length (b_transactions b))"
    and "msg_payload m = blocks_text bs" "int (length bs) \<le> int32_max"
  shows "handleBlocks env i m st =
    (let st' = snd (fold (take_block env (int (length bs))) bs (0, st))
     in cancelSyncIfPeer (getAddress (objs st' i)) st')"
proof -
  let ?n = "show_nat (length bs)"
  have count: "parseInt ?n = Some (int (length bs))"
    using parseInt_show_int [of "int (length bs)"] assms(4)
    by (simp add: show_int_def in_int32_def int_bounds)
  have first: "getline (CHR 0x0A) [] (Good (blocks_text bs)) = (?n, lines_stream (map block_serialize bs))"
    using show_no_newline
    by (cases bs) (simp_all add: blocks_text_def lines_stream_def getline_last getline_delim join_with_def comp_def)
  have clean: "list_all (\<lambda>l. l \<noteq> [] \<and> CHR 0x0A \<notin> set l) (map block_serialize bs)"
    using assms(1) served_line by (simp add: list_all_iff)
  have "fold (receive_block_line env n) (map block_serialize bs) acc = fold (take_block env n) bs acc" for n acc
    using assms(1,2) by (induction bs arbitrary: acc) (simp_all add: receive_served)
  then show ?thesis
    by (simp add: handleBlocks_def assms(3) first count for_lines_stream [OF clean] case_prod_beta Let_def)
qed

lemma handleGetBlocks_serves:
  assumes "0 \<le> lo" "lo < chain_size st" "to_end < 0 \<or> chain_size st \<le> to_end + 1"
    and "in_int64 (chain_size st)" "in_int64 to_end"
  shows "handleGetBlocks env now i (createGetBlocks t lo to_end) st =
    snd (send_to env i (new_message now BLOCKS (blocks_text (drop (nat lo) (chain (ledger st)))) []) st)"
proof -
  have lo: "in_int64 lo" using assms(1,2,4) by (simp add: in_int64_def int_bounds)
  have clean: "CHR ''|'' \<notin> set (show_int j)" for j
    using int64_text.show_no_delim [of "CHR ''|''"] delim_not_digit by simp
  have "chain_size st - 1 - lo + 1 = int (length (drop (nat lo) (chain (ledger st))))"
    using assms(1,2) by (simp add: chain_size_def)
  then have all: "take (nat (chain_size st - 1 - lo + 1)) (drop (nat lo) (chain (ledger st))) =
      drop (nat lo) (chain (ledger st))" by simp
  consider "to_end < 0" | "chain_size st \<le> to_end" | "to_end = chain_size st - 1" "0 \<le> to_end"
    using assms(1-3) by linarith
  then show ?thesis
    using assms(1,2) all parseInt64_show_int [OF assms(5)]
    by cases (simp_all add: handleGetBlocks_def createGetBlocks_def new_message_def getline_delim getline_last clean
        parseInt64_show_int lo assms(5) int64_text.show_nonempty Let_def)
qed

section \<open>Catching up\<close>

text \<open>Blocks that satisfy the acceptance rule one after the other.\<close>

fun extends :: "blockchain \<Rightarrow> block list \<Rightarrow> bool" where
  "extends c [] \<longleftrightarrow> True"
| "extends c (b # bs) \<longleftrightarrow> acceptable c b \<and> extends (appended b c) bs"

lemma fold_addBlock:
  "chain c \<noteq> [] \<Longrightarrow> extends c bs \<Longrightarrow> fold main_onNewBlock bs c = fold appended bs c"
proof (induction bs arbitrary: c)
  case (Cons b bs)
  then have "main_onNewBlock b c = appended b c" by (simp add: main_onNewBlock_def addBlock_iff)
  with Cons show ?case by simp
qed simp

lemma fold_appended_chain: "chain (fold appended bs c) = chain c @ bs"
  by (induction bs arbitrary: c) simp_all

lemma fold_appended_balances:
  "bs \<noteq> [] \<Longrightarrow> balances_current (fold appended bs c)"
  by (induction bs arbitrary: c rule: rev_induct) (simp_all add: appended_def)

lemma balances_current_chain:
  "balances_current c \<Longrightarrow> chain c = chain d \<Longrightarrow> balances c = balances (updateBalances d)"
  by (simp add: balances_current_iff updateBalances_def)

definition blocks_reply :: "int \<Rightarrow> block list \<Rightarrow> message" where
  "blocks_reply now bs = new_message now BLOCKS (blocks_text bs) []"

lemma exchange_extends:
  assumes "chain (ledger sv) = chain (ledger cl) @ bs" "bs \<noteq> []" "chain (ledger cl) \<noteq> []"
    and "extends (ledger cl) bs" "list_all served_clean bs"
    and "\<forall>b \<in> set bs. can_reserve env (length (b_transactions b))" "onNewBlock env = main_onNewBlock"
    and "chain_size sv \<le> int32_max" "to_end < 0 \<or> chain_size sv \<le> to_end + 1" "in_int64 to_end"
  shows "handleGetBlocks env' now j (createGetBlocks t (chain_size cl) to_end) sv =
      snd (send_to env' j (blocks_reply now bs) sv)"
    and "ledger (handleMessage env now' i (blocks_reply now bs) cl) = fold appended bs (ledger cl)"
proof -
  let ?reply = "blocks_reply now bs"
  note blocks_reply_def [simp]
  have size: "chain_size cl < chain_size sv" "0 \<le> chain_size cl"
    using assms(1,2) by (simp_all add: chain_size_def)
  have drop: "drop (nat (chain_size cl)) (chain (ledger sv)) = bs"
    using assms(1) by (simp add: chain_size_def)
  have "in_int64 (chain_size sv)" using assms(8) size by (simp add: in_int64_def int_bounds)
  then show "handleGetBlocks env' now j (createGetBlocks t (chain_size cl) to_end) sv = snd (send_to env' j ?reply sv)"
    using handleGetBlocks_serves [OF size(2,1) assms(9) _ assms(10), of env' now j t] drop by simp
  have len: "int (length bs) \<le> int32_max" using assms(1,8) by (simp add: chain_size_def)
  have "ledger (cancelSyncIfPeer a s) = ledger s" for a s
    by (simp add: cancelSyncIfPeer_def cancelSync_def)
  then have "ledger (handleBlocks env i ?reply cl) = fold main_onNewBlock bs (ledger cl)"
    using handleBlocks_served [OF assms(5,6) _ len, of ?reply i cl] assms(7)
    by (simp add: new_message_def Let_def take_blocks_ledger)
  then show "ledger (handleMessage env now' i ?reply cl) = fold appended bs (ledger cl)"
    using fold_addBlock [OF assms(3,4)] by (simp add: handleMessage.simps new_message_def)
qed

text \<open>The reply as the requester receives it: a frame, in the pieces the network makes of it.\<close>

lemma arriving_reply_extends:
  assumes "chain (ledger sv) = chain (ledger cl) @ bs" "bs \<noteq> []" "chain (ledger cl) \<noteq> []"
    and "extends (ledger cl) bs" "list_all served_clean bs"
    and "\<forall>b \<in> set bs. can_reserve env (length (b_transactions b))" "onNewBlock env = main_onNewBlock"
    and "chain_size sv \<le> int32_max" "to_end < 0 \<or> chain_size sv \<le> to_end + 1" "in_int64 to_end"
    and "in_int64 now" "length (blocks_text bs) \<le> MAX_PAYLOAD_SIZE" "running cl" "reader_is i [] cl"
    and "msg_serialize (blocks_reply now bs) = Inr (concat (map snd arrivals))" "[] \<notin> set (map snd arrivals)"
  shows "ledger (arrive env addr i arrivals cl) = fold appended bs (ledger cl)"
proof -
  have "sendable (blocks_reply now bs)"
    using assms(11,12) by (simp add: sendable_def blocks_reply_def new_message_def named_types_def)
  moreover have "arrivals \<noteq> []"
    using assms(15) by (auto simp: msg_serialize_eq blocks_reply_def new_message_def dest!: arg_cong [where f = length])
  ultimately obtain t' cl' where l: "ledger cl' = ledger cl"
    "ledger (arrive env addr i arrivals cl) = ledger (handleMessage env t' i (blocks_reply now bs) cl')"
    using frame_in_pieces [OF assms(13,14)] assms(15,16) by fastforce
  show ?thesis
    using exchange_extends(2) [of sv cl' bs env to_end] assms(1-10) l by simp
qed

section \<open>Gossip\<close>

text \<open>A block whose claimed hash is known is dropped unseen.\<close>

lemma known_block_ignored:
  "block_deserialize (can_reserve env) (msg_payload m) = Inr b \<Longrightarrow> b_hash b \<in> set (known_blocks st) \<Longrightarrow>
     handleNewBlock env now i m st = st"
  by (simp add: handleNewBlock_def)

lemma send_to_fields [simp]:
  "known_blocks (snd (send_to env i m st)) = known_blocks st" "ledger (snd (send_to env i m st)) = ledger st"
  "known_txs (snd (send_to env i m st)) = known_txs st" "events (snd (send_to env i m st)) = events st"
  "peers (snd (send_to env i m st)) = peers st" "objs (snd (send_to env i m st)) = objs st"
  using send_to_cases [of env i m st] by auto

lemma send_all_fields [simp]:
  "known_blocks (send_all env is m st) = known_blocks st" "ledger (send_all env is m st) = ledger st"
  "known_txs (send_all env is m st) = known_txs st" "events (send_all env is m st) = events st"
  by (induction "is" arbitrary: st) (simp_all add: send_all_def)

lemma broadcast_fields [simp]:
  "known_blocks (broadcast env m a st) = known_blocks st" "ledger (broadcast env m a st) = ledger st"
  "known_txs (broadcast env m a st) = known_txs st" "events (broadcast env m a st) = events st"
  by (simp_all add: broadcast_def)

lemma deliver_block_fields [simp]:
  "known_blocks (deliver_block env b st) = known_blocks st" "known_txs (deliver_block env b st) = known_txs st"
  "ledger (deliver_block env b st) = onNewBlock env b (ledger st)"
  "events (deliver_block env b st) = events st @ [NewBlock b]"
  by (simp_all add: deliver_block_def emit_def)

lemma new_block_once:
  assumes "block_deserialize (can_reserve env) (msg_payload m) = Inr b"
  shows "ledger (handleNewBlock env now i m st) =
      (if b_hash b \<in> set (known_blocks st) then ledger st else onNewBlock env b (ledger st))"
    and "set (known_blocks (handleNewBlock env now i m st)) = insert (b_hash b) (set (known_blocks st))"
proof -
  show "ledger (handleNewBlock env now i m st) =
      (if b_hash b \<in> set (known_blocks st) then ledger st else onNewBlock env b (ledger st))"
    by (simp add: handleNewBlock_def assms Let_def)
  show "set (known_blocks (handleNewBlock env now i m st)) = insert (b_hash b) (set (known_blocks st))"
    by (auto simp: handleNewBlock_def assms Let_def)
qed

text \<open>A hash once known stays known as long as the node announces no block of its own, whatever else its
  threads do.\<close>

inductive quiet_run :: "environment \<Rightarrow> node \<Rightarrow> node \<Rightarrow> bool" for env where
  silence: "quiet_run env st st"
| operation: "quiet_run env st st' \<Longrightarrow> quiet_step env now st' st'' \<Longrightarrow> quiet_run env st st''"
| part: "quiet_run env st st' \<Longrightarrow> node_change env now st' st'' \<Longrightarrow>
    set (known_blocks st') \<subseteq> set (known_blocks st'') \<Longrightarrow> quiet_run env st st''"
| owner: "quiet_run env st st' \<Longrightarrow> quiet_run env st (st'\<lparr>ledger := c\<rparr>)"

definition knows :: "string \<Rightarrow> node \<Rightarrow> bool" where
  "knows h st \<longleftrightarrow> h \<in> set (known_blocks st)"

interpretation memory: worker_invariant "knows h" "\<lambda>_. True" env for h env
  by unfold_locales (auto simp: knows_def cancelSync_def with_peer_def allocate_def enter_table_def)

lemma quiet_run_knows: "quiet_run env st st' \<Longrightarrow> knows h st \<Longrightarrow> knows h st'"
  by (induction rule: quiet_run.induct) (auto intro: memory.quiet [unfolded knows_def] simp: knows_def)

lemma handed_over_once:
  assumes "block_deserialize (can_reserve env) (msg_payload m) = Inr b"
    and "quiet_run env (handleNewBlock env now i m st) st'"
    and "block_deserialize (can_reserve env) (msg_payload m') = Inr b'" "b_hash b' = b_hash b"
  shows "handleNewBlock env now' i' m' st' = st'"
  using quiet_run_knows [OF assms(2), of "b_hash b"] new_block_once(2) [OF assms(1), of now i st] assms(3,4)
  by (simp add: knows_def known_block_ignored)

text \<open>So a worthless block that claims the hash of a good one keeps the good one out.\<close>

lemma claimed_hash_suppresses:
  assumes "served_clean bad" "served_clean good" "b_hash bad = b_hash good"
    and "can_reserve env (length (b_transactions bad))" "can_reserve env (length (b_transactions good))"
    and "b_hash good \<notin> set (known_blocks st)" "chain (ledger st) \<noteq> []" "onNewBlock env = main_onNewBlock"
    and "\<not> acceptable (ledger st) bad"
  shows "ledger (handleNewBlock env now' i' (createNewBlock t' (block_serialize good))
           (handleNewBlock env now i (createNewBlock t (block_serialize bad)) st)) = ledger st"
proof -
  let ?m = "createNewBlock t (block_serialize bad)" and ?m' = "createNewBlock t' (block_serialize good)"
  have d: "block_deserialize (can_reserve env) (msg_payload ?m) = Inr bad"
    "block_deserialize (can_reserve env) (msg_payload ?m') = Inr good"
    using assms(1,2,4,5) by (simp_all add: createNewBlock_def new_message_def block_serialize_roundtrip served_clean_def)
  have "ledger (handleNewBlock env now i ?m st) = main_onNewBlock bad (ledger st)"
    using new_block_once(1) [OF d(1)] assms(3,6,8) by simp
  also have "\<dots> = ledger st" using assms(7,9) by (simp add: main_onNewBlock_def addBlock_iff)
  finally show ?thesis using handed_over_once [OF d(1) quiet_run.silence d(2)] assms(3) by simp
qed

end
