(* ===== verification/Network_Examples.thy ===== *)
theory Network_Examples
  imports Examples P2P_Exchange
begin

text \<open>
  Concrete nodes for the properties of the network layer: an environment that takes every frame
  whole, a node with one accepted connection, and the two ledgers of \<open>Examples\<close> as the ledgers of
  a client that is one block behind its server.
\<close>

definition env0 :: environment where
  "env0 = \<lparr>os_send = (\<lambda>p m. [100000000]), os_connect = (\<lambda>ip port. Some 5), os_listen = True, os_port = 8333,
     iter_order = id, can_reserve = (\<lambda>n. True), onNewBlock = main_onNewBlock,
     onNewTransaction = main_onNewTransaction\<rparr>"

definition idle :: node where
  "idle = new_node ''me'' ledger0 default_config"

definition hosting :: node where
  "hosting = acceptConnection 1 5 ''10.0.0.1'' 7 (snd (node_start env0 1 idle))"

lemma env0_sel [simp]: "can_reserve env0 n" "onNewBlock env0 = main_onNewBlock" "os_listen env0"
  by (simp_all add: env0_def)

lemma idle_sel [simp]: "running idle = False" "peers idle = []" "next_obj idle = 0" "syncing idle = False"
  "ledger idle = ledger0" "node_id idle = ''me''" "config idle = default_config" "objs idle i = no_peer"
  "sync_peer idle = []" "sync_deadline idle = 0" "known_blocks idle = []"
  by (simp_all add: idle_def new_node_def)

lemma default_config_max: "max_peers default_config = 25"
  by (simp add: default_config_def)

lemma started: "snd (node_start env0 1 idle) = idle\<lparr>listening := True, running := True, next_round := 60001\<rparr>"
  by (simp add: node_start_def connectToSeedNodes_def default_config_def to_int64_id in_int64_def int_bounds)

lemma hosting_sel [simp]: "running hosting" "next_obj hosting = 1" "ledger hosting = ledger0"
  "config hosting = default_config"
  "peers hosting = [(''10.0.0.1:7'', 0)]"
  "objs hosting 0 = (new_peer 1 5 ''10.0.0.1'' 7)\<lparr>p_state := HANDSHAKING\<rparr>"
proof -
  have port: "show_word (7 :: u16) = ''7''" by code_simp
  show "running hosting" "next_obj hosting = 1" "ledger hosting = ledger0" "config hosting = default_config"
    "objs hosting 0 = (new_peer 1 5 ''10.0.0.1'' 7)\<lparr>p_state := HANDSHAKING\<rparr>"
    by (simp_all add: hosting_def started acceptConnection_def allocate_def INVALID_SOCK_def default_config_def
        has_room_def enter_table_def getAddress_def Let_def)
  show "peers hosting = [(''10.0.0.1:7'', 0)]"
    by (simp add: hosting_def started acceptConnection_def allocate_def INVALID_SOCK_def default_config_def
        has_room_def enter_table_def getAddress_def Let_def endpoint_def new_peer_def port)
qed

lemma hosting_run: "node_run env0 (\<lambda>now. 0 < now \<and> now \<le> 1) idle hosting"
  unfolding hosting_def
  by (rule node_run.one_more [OF node_run.one_more [OF node_run.no_step node_step.quiet [OF quiet_step.start]]
      node_step.quiet [OF quiet_step.accept]]) simp_all

lemma hosting_run_any: "node_run env0 (\<lambda>_. True) idle hosting"
  unfolding hosting_def
  by (rule node_run.one_more [OF node_run.one_more [OF node_run.no_step node_step.quiet [OF quiet_step.start]]
      node_step.quiet [OF quiet_step.accept]]) simp_all

lemma hosting_reader: "reader_is 0 [] hosting"
  by (simp add: reader_is_def new_peer_def INVALID_SOCK_def)

section \<open>Frames\<close>

definition ask_peers :: message where "ask_peers = createGetPeers 1"

lemma ask_peers_sendable: "sendable ask_peers"
  by (simp add: ask_peers_def createGetPeers_def new_message_def sendable_def named_types_def frame_consts
      in_int64_def int_bounds)

lemma ask_peers_frame: "msg_serialize ask_peers = Inr (frame_header ask_peers)"
  by (simp add: msg_serialize_eq ask_peers_def createGetPeers_def new_message_def bytes_of_string_def)

definition burst :: "byte list" where
  "burst = concat (replicate 34 (frame_header ask_peers))"

lemma burst_stream: "parse_stream burst = (replicate 34 ask_peers, [])"
  unfolding burst_def
  by (rule parse_stream_frames) (simp add: list_all2_conv_all_nth ask_peers_sendable ask_peers_frame)

lemma burst_length: "length burst \<le> MAX_FRAME_SIZE"
  by (simp add: burst_def length_concat_const [of "\<lambda>x. x" 19, simplified] sum_list_replicate length_concat
      MAX_FRAME_SIZE_def frame_consts)

section \<open>Blocks on the wire\<close>

lemma hash_clean: "CHR ''|'' \<notin> set (sha256 s)" "CHR 0x0A \<notin> set (sha256 s)"
  using hex_bytes_lower [of "hashRaw (bytes_of_string s)"]
  by (auto simp: sha256_def hash_string_def hash_bytes_hex list_all_iff is_lower_hex_def is_digit_def)

lemma block1_served: "served_clean block1"
proof -
  have h: "b_hash block1 = block_hash block1" "b_hash genesis0 = block_hash genesis0"
    by (simp_all add: block1_def genesis0_def mined_at_def)
  have r: "root_current block1"
    by (simp add: block1_def unmined_def Let_def root_current_def new_block_def b_calculateMerkleRoot_eq)
  show ?thesis
    using hash_clean
    by (simp add: served_clean_def block_wire_clean_def tx_wire_clean_def r h block_hash_def
        in_int32_def in_int64_def int_bounds)
qed

lemma length_block_hash [simp]: "length (block_hash b) = 64"
  by (simp add: block_hash_def sha256_def hash_string_def hash_bytes_hex)

lemma block1_text: "length (blocks_text [block1]) \<le> MAX_PAYLOAD_SIZE"
proof -
  have h: "length (b_hash block1) = 64" "length (b_hash genesis0) = 64"
    by (simp_all add: block1_def genesis0_def mined_at_def)
  have r: "length (b_merkle_root block1) = 64"
    using block1_served by (simp add: served_clean_def block_wire_clean_def root_current_def tx_root_def)
  have n: "nonce reward1 = 7" by (simp add: reward1_def reward_tx_def new_transaction_def)
  have digits: "length (show_int 5) \<le> 10" "length (show_int 1) \<le> 10" "length (show_int 0) \<le> 10"
    "length (show_nat (Suc 0)) \<le> 10" "length (show_int 5000000000) \<le> 10" "length (show_word (7 :: u64)) \<le> 10"
    by (simp_all add: show_int_def show_word_def show_nat_length_le)
  then show ?thesis
    unfolding blocks_text_def block_serialize_def wire_tx_def by (simp add: h r n MAX_PAYLOAD_SIZE_def)
qed

lemma block1_extends: "extends ledger0 [block1]"
  using receive_block1 by (auto elim: addBlock_accept)

definition bogus1 :: block where
  "bogus1 = block1\<lparr>b_index := 7\<rparr>"

lemma bogus1_served: "served_clean bogus1"
  using block1_served
  by (simp add: served_clean_def block_wire_clean_def bogus1_def root_current_def in_int32_def int_bounds)

lemma bogus1_refused: "\<not> acceptable ledger0 bogus1"
  by (simp add: acceptable_def bogus1_def chain_height_def to_int32_id in_int32_def int_bounds)

end
