(* ===== verification/Session_Examples.thy ===== *)
theory Session_Examples
  imports Signed_Payments Network_Examples
begin

text \<open>
  Concrete wallets, blobs and programs for the properties of the keystore, the wallet and the whole
  program: a wallet with one key the loader accepts, a generator with two good draws, a program
  that mines one block, and one whose user orders a payment.
\<close>

section \<open>A sealed text and a saved wallet\<close>

definition dice :: entropy where
  "dice = [Some (replicate 16 1), Some (replicate 16 2)]"

lemma encrypt_dice:
  assumes "iterations \<noteq> 0"
  obtains armored where "encrypt dice plaintext password iterations = (armored, [])" "armored \<noteq> []"
proof -
  have "secureRandomBytes dice SALT_SIZE = Inr (replicate 16 1, [Some (replicate 16 2)])"
    "secureRandomBytes [Some (replicate 16 2)] NONCE_SIZE = Inr (replicate 16 2, [])"
    by (simp_all add: dice_def secureRandomBytes_def keystore_sizes)
  then have "snd (encrypt dice plaintext password iterations) = []"
    "fst (encrypt dice plaintext password iterations) \<noteq> []"
    using assms by (simp_all add: encrypt_def case_prod_beta Let_def)
  then show thesis by (intro that [of "fst (encrypt dice plaintext password iterations)"]) (simp_all add: prod_eq_iff)
qed

lemma iterations_positive: "DEFAULT_ITERATIONS \<noteq> 0"
  by (simp add: DEFAULT_ITERATIONS_def)

definition key1 :: wallet_key where
  "key1 = \<lparr>wk_private = bigIntToBytes32 1, wk_public = small_key, wk_address = deriveAddress small_key\<rparr>"

definition wallet1 :: wallet where
  "wallet1 = \<lparr>key_pairs = [(wk_address key1, key1)], default_address = wk_address key1\<rparr>"

lemma wallet1_ok: "well_addressed wallet1" "list_all filed (key_pairs wallet1)" "list_all usable (key_pairs wallet1)"
  "key_pairs wallet1 \<noteq> []"
proof -
  have "isValidPublicKey small_key"
    using small_key_valid by (simp add: isValidPublicKey_def small_key_def ec_prefixes)
  moreover have "bytes32ToBigInt (bigIntToBytes32 1) = 1" by (simp add: bytes32ToBigInt_bigIntToBytes32)
  ultimately show "list_all usable (key_pairs wallet1)"
    by (simp add: wallet1_def key1_def usable_def isValidPrivateKey_def secp_N_def)
  show "list_all filed (key_pairs wallet1)"
    using small_key_valid by (simp add: wallet1_def key1_def filed_def)
qed (simp_all add: wallet1_def well_addressed_def)

lemma wallet_saved:
  obtains content where "wallet_saveToFile True dice password w = (True, Some content, [])"
proof -
  obtain armored where "encrypt dice (wallet_body w) password DEFAULT_ITERATIONS = (armored, [])" "armored \<noteq> []"
    using encrypt_dice [OF iterations_positive] .
  then show thesis by (intro that [of armored]) (simp add: wallet_saveToFile_def)
qed

section \<open>A program\<close>

definition reading0 :: reading where
  "reading0 = \<lparr>r_now = 5, r_now_tx = 5, r_node_id = (1, 2), r_can_write = (\<lambda>_. True), r_system = env0\<rparr>"

definition disk0 :: "string \<Rightarrow> string option" where "disk0 = (\<lambda>_. None)"

text \<open>The answers to the questions of the mining choice, and the draw that makes the nonce 7.\<close>

definition before_mining :: program where
  "before_mining = started (''alice'' @ [newline]) disk0 [Some [7, 0, 0, 0, 0, 0, 0, 0]] ledger0"

lemma le_value_7: "le_value [7, 0, 0, 0, 0, 0, 0, 0] = 7"
  by code_simp

lemma mines_alice:
  "menu_choice reading0 2 before_mining =
     Some (before_mining\<lparr>stdin := Good [], rng := ([], 0), shared_chain := ledger1\<rparr>)"
proof -
  have "promptLine (Good (''alice'' @ newline # [])) = (Some ''alice'', Good [])"
    by (simp only: promptLine_def) (subst getline_delim, simp_all add: stream_ok_def)
  moreover have "freshNonce 5 ([Some [7, 0, 0, 0, 0, 0, 0, 0]], 0) = (7, [], 0)"
    using le_value_7 by (simp add: freshNonce_def secureRandomBytes_def Let_def)
  ultimately show ?thesis
    using mine_ledger0
    by (simp add: menu_choice_def cli_mine_def before_mining_def started_def reading0_def empty_wallet_def isBlank_def)
qed

lemma after_mining_reached:
  "prog_step\<^sup>*\<^sup>* (started (''alice'' @ [newline]) disk0 [Some [7, 0, 0, 0, 0, 0, 0, 0]] ledger0)
     (before_mining\<lparr>stdin := Good [], rng := ([], 0), shared_chain := ledger1\<rparr>)"
proof -
  have "prog_step before_mining (before_mining\<lparr>stdin := Good [], rng := ([], 0), shared_chain := ledger1\<rparr>)"
    by (rule prog_step.choose [OF mines_alice]) (simp add: before_mining_def started_def reading0_def)
  then show ?thesis by (simp add: before_mining_def)
qed

section \<open>A payment\<close>

text \<open>A wallet with the generated key 1, whose address owns ten coins, and the answers to the questions
  of the payment choice.\<close>

definition wallet2 :: wallet where
  "wallet2 = store_key_pair (scalar_key 1) empty_wallet"

definition before_paying :: program where
  "before_paying = (started (''bob'' @ newline # ''2'' @ newline # []) disk0
      [Some [7, 0, 0, 0, 0, 0, 0, 0], Some (bigIntToBytes32 1)]
      (ledger0\<lparr>balances := [wk_address (scalar_key 1) \<mapsto> 1000000000]\<rparr>))\<lparr>user_wallet := wallet2\<rparr>"

lemma draw_one: "randomScalar [Some (bigIntToBytes32 1)] = Inr (1, [])"
proof -
  have one: "bytes32ToBigInt (bigIntToBytes32 1) = 1" by (simp add: bytes32ToBigInt_bigIntToBytes32)
  then show ?thesis by (simp add: randomScalar_def secureRandomBytes_def ec_sizes one secp_N_def numeral_eq_Suc)
qed

lemma paying_wallet:
  "own_step\<^sup>*\<^sup>* empty_wallet (user_wallet before_paying)"
  "default_address (user_wallet before_paying) = wk_address (scalar_key 1)"
  "isValidPrivateKey (getPrivateKey (user_wallet before_paying) (wk_address (scalar_key 1)))"
proof -
  show "own_step\<^sup>*\<^sup>* empty_wallet (user_wallet before_paying)"
    using own_step.generate [OF generate_address [OF draw_one]] by (simp add: before_paying_def wallet2_def r_into_rtranclp)
  have w: "user_wallet before_paying =
      \<lparr>key_pairs = [(wk_address (scalar_key 1), scalar_key 1)], default_address = wk_address (scalar_key 1)\<rparr>"
    by (simp add: before_paying_def wallet2_def store_key_pair_def empty_wallet_def Let_def)
  show "default_address (user_wallet before_paying) = wk_address (scalar_key 1)" by (simp add: w)
  have "isValidPrivateKey (wk_private (scalar_key 1))"
    using scalar_key_usable [of 1] by (simp add: usable_def secp_N_def)
  then show "isValidPrivateKey (getPrivateKey (user_wallet before_paying) (wk_address (scalar_key 1)))"
    by (simp add: w getPrivateKey_def)
qed

lemma paying_nonce: "freshNonce (r_now reading0) (rng before_paying) = (7, [Some (bigIntToBytes32 1)], 0)"
  using le_value_7 by (simp add: before_paying_def started_def freshNonce_def secureRandomBytes_def Let_def)

lemma not_bob: "''bob'' \<noteq> wk_address (scalar_key 1)"
proof
  assume "''bob'' = wk_address (scalar_key 1)"
  then have "length ''bob'' = length (deriveAddress (compressPublicKey (ec_mult secp_G 1)))"
    by (simp add: scalar_key_def Let_def)
  then show False by (simp add: length_deriveAddress)
qed

lemma two_coins: "parse_amount ''2'' = Some 200000000"
  by code_simp

lemma paying_ledger:
  "\<not> transactionExists (shared_chain before_paying) t"
  "getBalance (shared_chain before_paying) (wk_address (scalar_key 1)) = 1000000000"
  "pendingOutflow (shared_chain before_paying) a = 0"
  by (simp_all add: before_paying_def started_def transactionExists_def getBalance_def pendingOutflow_def)

end
