(* ===== verification/Terminal.thy ===== *)
theory Terminal
  imports Command_Line
begin

text \<open>
  What the choices of \<open>main.cpp\<close> that only read the state print: the menu itself, the ledger and its
  validity, the addresses of the wallet with their balances, the connected peers and the status of the
  node.  The lemmas relate the listings to the state they show.
\<close>

section \<open>The menu\<close>

definition displayMenu :: string where
  "displayMenu = newline # lines_of
    [''=== LOCAL BLOCKCHAIN ==='',
     ''1.  Add Transaction'', ''2.  Mine Block'', ''3.  Check Balance'', ''4.  Display Blockchain'',
     ''5.  Validate Blockchain'', ''6.  Save Blockchain'', ''7.  Load Blockchain'',
     ''--- Wallet ---'',
     ''8.  Create New Address'', ''9.  Import Private Key'', ''10. List Addresses'', ''11. Select Address'',
     ''12. Save Wallet'', ''13. Load Wallet'',
     ''--- P2P Network ---'',
     ''14. Start P2P Node'', ''15. Stop P2P Node'', ''16. Connect to Peer'', ''17. Show Connected Peers'',
     ''18. Request Blockchain Sync'', ''19. P2P Node Status'',
     ''-------------------'',
     ''0.  Exit''] @ ''Choice: ''"

section \<open>Listings\<close>

definition address_line :: "wallet \<Rightarrow> blockchain \<Rightarrow> string \<Rightarrow> string" where
  "address_line w c address =
     ''  '' @ address @ ''  balance '' @ format_amount (getBalance c address) @
     (if address = default_address w then ''  [selected]'' else [])"

definition listAddresses :: "wallet \<Rightarrow> blockchain \<Rightarrow> string" where
  "listAddresses w c =
     (let addresses = getAllAddresses w
      in if addresses = []
         then lines_of [''Wallet is empty. Use '' @ [CHR 0x27] @ ''Create New Address'' @ [CHR 0x27] @ '' or '' @
           [CHR 0x27] @ ''Load Wallet'' @ [CHR 0x27] @ ''.'']
         else lines_of ((''Addresses ('' @ show_nat (length addresses) @ ''):'') # map (address_line w c) addresses))"

definition peer_line :: "peer_info \<Rightarrow> string" where
  "peer_line p =
     ''  - '' @ pi_ip p @ '':'' @ show_word (pi_port p) @
     (if pi_node_id p \<noteq> [] then '' (ID: '' @ take 8 (pi_node_id p) @ ''...)'' else [])"

definition showConnectedPeers :: "program \<Rightarrow> string" where
  "showConnectedPeers p =
     (if \<not> node_running p then lines_of [''P2P node is not running!'']
      else
        let connected = (case p2p_node p of Some n \<Rightarrow> getConnectedPeers n | None \<Rightarrow> [])
        in newline # lines_of ((''=== Connected Peers ('' @ show_nat (length connected) @ '') ==='') #
             (if connected = [] then [''No peers connected.''] else map peer_line connected)))"

definition yes_no :: "bool \<Rightarrow> string" where
  "yes_no b = (if b then ''Yes'' else ''No'')"

definition showP2PStatus :: "program \<Rightarrow> string" where
  "showP2PStatus p =
     (case p2p_node p of
        None \<Rightarrow> lines_of [''P2P node not initialized.'']
      | Some n \<Rightarrow> newline # lines_of
          [''=== P2P Node Status ==='', ''Running: '' @ yes_no (running n), ''Node ID: '' @ node_id n,
           ''Port: '' @ show_word (listen_port (config n)), ''Connected peers: '' @ show_nat (getPeerCount n),
           ''Syncing: '' @ yes_no (syncing n)])"

text \<open>What a choice that only prints writes to the terminal; \<open>None\<close> for the other choices, and where
  the validity scan runs past the end of the chain.\<close>

definition printed :: "int \<Rightarrow> program \<Rightarrow> string option" where
  "printed choice p =
     (if choice = 4 then Some (printChain (shared_chain p))
      else if choice = 5
      then map_option (\<lambda>isValid. lines_of [''Blockchain is '' @ (if isValid then ''VALID'' else ''INVALID'')])
        (isChainValid (shared_chain p))
      else if choice = 10 then Some (listAddresses (user_wallet p) (shared_chain p))
      else if choice = 17 then Some (showConnectedPeers p)
      else if choice = 19 then Some (showP2PStatus p)
      else None)"

section \<open>What the listings show\<close>

lemma printing_changes_nothing: "printed c p \<noteq> None \<Longrightarrow> menu_choice r c p = Some p"
  by (auto simp: printed_def menu_choice_def split: if_splits)

lemma peer_counts_agree: "getPeerCount n = length (getConnectedPeers n)"
  by (simp add: getPeerCount_def getConnectedPeers_def)

text \<open>In a wallet with keys exactly one line is marked as selected.\<close>

lemma one_selected:
  assumes "well_addressed w" "key_pairs w \<noteq> []"
  shows "\<exists>before after. getAllAddresses w = before @ default_address w # after \<and>
    default_address w \<notin> set before \<and> default_address w \<notin> set after"
proof -
  have "default_address w \<in> set (getAllAddresses w)" "distinct (getAllAddresses w)"
    using assms by (simp_all add: well_addressed_def getAllAddresses_def)
  then obtain before after where "getAllAddresses w = before @ default_address w # after"
    using split_list by fastforce
  then show ?thesis using \<open>distinct (getAllAddresses w)\<close> by (intro exI [of _ before] exI [of _ after]) simp
qed

end
