(* ===== verification/BigInt.thy ===== *)
theory BigInt
  imports BigArith
begin

text \<open>
  \<open>src/src/include/bigint.h\<close> at the level of its limbs: a sign and a little-endian vector of
  64-bit words in canonical form.  Loops over a vector are recursions over the list; the
  double-width integers \<open>u128\<close> and \<open>i128\<close> that carry sums, products and differences
  are \<^typ>\<open>int\<close>, and the bounds proved with each loop keep them within 128 bits.  The
  lemmas show that each routine computes on the values of the limbs; division is in the theory
  \<open>BigInt_Division\<close>.
\<close>

section \<open>Limbs and their value\<close>

type_synonym limb_list = "u64 list"

abbreviation base64 :: int where "base64 \<equiv> 18446744073709551616"

record bigint =
  limbs :: limb_list
  negative :: bool

text \<open>\<open>static_cast<uint64_t>\<close>\<close>

definition limb :: "int \<Rightarrow> u64" where
  "limb n = word_of_int n"

fun mag :: "limb_list \<Rightarrow> int" where
  "mag [] = 0"
| "mag (x # xs) = uint x + base64 * mag xs"

definition bigint_val :: "bigint \<Rightarrow> int" where
  "bigint_val n = (if negative n then - mag (limbs n) else mag (limbs n))"

definition trimmed :: "limb_list \<Rightarrow> bool" where
  "trimmed xs \<longleftrightarrow> xs = [] \<or> last xs \<noteq> 0"

definition canonical :: "bigint \<Rightarrow> bool" where
  "canonical n \<longleftrightarrow> trimmed (limbs n) \<and> (negative n \<longrightarrow> limbs n \<noteq> [])"

section \<open>Normal form and comparison\<close>

fun drop_high_zeros :: "limb_list \<Rightarrow> limb_list" where
  "drop_high_zeros xs =
     (if xs \<noteq> [] \<and> last xs = 0 then drop_high_zeros (butlast xs) else xs)"

declare drop_high_zeros.simps [simp del]

definition normalize :: "bigint \<Rightarrow> bigint" where
  "normalize n =
     (let ls = drop_high_zeros (limbs n)
      in \<lparr>limbs = ls, negative = (if ls = [] then False else negative n)\<rparr>)"

definition isZero :: "bigint \<Rightarrow> bool" where
  "isZero n \<longleftrightarrow> limbs n = []"

text \<open>The scan from the most significant limb: on the reversed vectors, from their heads.\<close>

fun compare_from_top :: "limb_list \<Rightarrow> limb_list \<Rightarrow> int" where
  "compare_from_top (x # xs) (y # ys) =
     (if x \<noteq> y then (if x < y then -1 else 1) else compare_from_top xs ys)"
| "compare_from_top _ _ = 0"

definition compareMagnitude :: "limb_list \<Rightarrow> limb_list \<Rightarrow> int" where
  "compareMagnitude a b =
     (if length a \<noteq> length b then (if length a < length b then -1 else 1)
      else compare_from_top (rev a) (rev b))"

definition big_compare :: "bigint \<Rightarrow> bigint \<Rightarrow> int" where
  "big_compare n other =
     (if negative n \<noteq> negative other then (if negative n then -1 else 1)
      else
        let m = compareMagnitude (limbs n) (limbs other)
        in if negative n then - m else m)"

section \<open>Sums and differences of magnitudes\<close>

fun add_loop :: "limb_list \<Rightarrow> limb_list \<Rightarrow> int \<Rightarrow> limb_list" where
  "add_loop (x # xs) (y # ys) carry =
     (let s = carry + uint x + uint y in limb s # add_loop xs ys (s div base64))"
| "add_loop (x # xs) [] carry =
     (let s = carry + uint x in limb s # add_loop xs [] (s div base64))"
| "add_loop [] (y # ys) carry =
     (let s = carry + uint y in limb s # add_loop [] ys (s div base64))"
| "add_loop [] [] carry = (if carry \<noteq> 0 then [limb carry] else [])"

definition addMagnitude :: "limb_list \<Rightarrow> limb_list \<Rightarrow> limb_list" where
  "addMagnitude a b = add_loop a b 0"

fun sub_loop :: "limb_list \<Rightarrow> limb_list \<Rightarrow> int \<Rightarrow> limb_list" where
  "sub_loop (x # xs) ys borrow =
     (let diff = uint x - borrow - (case ys of y # _ \<Rightarrow> uint y | [] \<Rightarrow> 0)
      in if diff < 0 then limb (diff + base64) # sub_loop xs (tl ys) 1
         else limb diff # sub_loop xs (tl ys) 0)"
| "sub_loop [] ys borrow = []"

definition subMagnitude :: "limb_list \<Rightarrow> limb_list \<Rightarrow> limb_list" where
  "subMagnitude a b = sub_loop a b 0"

section \<open>Products\<close>

fun carry_loop :: "limb_list \<Rightarrow> int \<Rightarrow> limb_list" where
  "carry_loop (r # rs) carry =
     (if carry \<noteq> 0
      then let cur = uint r + carry in limb cur # carry_loop rs (cur div base64)
      else r # rs)"
| "carry_loop [] carry = []"

text \<open>One row: \<open>result\<close> from index \<open>i\<close> on, the limb \<open>a[i]\<close> and all of \<open>b\<close>.\<close>

fun mul_row :: "u64 \<Rightarrow> limb_list \<Rightarrow> limb_list \<Rightarrow> int \<Rightarrow> limb_list" where
  "mul_row x (y # ys) (r # rs) carry =
     (let cur = uint x * uint y + uint r + carry
      in limb cur # mul_row x ys rs (cur div base64))"
| "mul_row x [] rs carry = carry_loop rs carry"
| "mul_row x (y # ys) [] carry = []"

fun mul_rows :: "limb_list \<Rightarrow> limb_list \<Rightarrow> limb_list \<Rightarrow> limb_list" where
  "mul_rows (x # xs) b res =
     (case mul_row x b res 0 of r # rs \<Rightarrow> r # mul_rows xs b rs | [] \<Rightarrow> [])"
| "mul_rows [] b res = res"

definition mulMagnitude :: "limb_list \<Rightarrow> limb_list \<Rightarrow> limb_list" where
  "mulMagnitude a b =
     (if a = [] \<or> b = [] then [] else mul_rows a b (replicate (length a + length b) 0))"

fun muladd_loop :: "limb_list \<Rightarrow> int \<Rightarrow> int \<Rightarrow> limb_list" where
  "muladd_loop (x # xs) multiplier carry =
     (let cur = uint x * multiplier + carry
      in limb cur # muladd_loop xs multiplier (cur div base64))"
| "muladd_loop [] multiplier carry = (if carry \<noteq> 0 then [limb carry] else [])"

definition mulAddInPlace :: "u64 \<Rightarrow> u64 \<Rightarrow> limb_list \<Rightarrow> limb_list" where
  "mulAddInPlace multiplier addend ls = muladd_loop ls (uint multiplier) (uint addend)"

section \<open>Values\<close>

lemma uint_range [simp]: "0 \<le> uint (x :: u64)" "uint (x :: u64) < base64"
  using unsigned_less [of x, where ?'a = int] by simp_all

lemma uint_limb [simp]: "uint (limb n) = n mod base64"
  by (simp add: limb_def unsigned_of_int take_bit_eq_mod)

lemma mag_nonneg [simp]: "0 \<le> mag xs"
  by (induction xs) simp_all

lemma mag_append: "mag (xs @ ys) = mag xs + base64 ^ length xs * mag ys"
  by (induction xs) (simp_all add: algebra_simps)

lemma mag_bound: "mag xs < base64 ^ length xs"
proof (induction xs)
  case Nil
  then show ?case by simp
next
  case (Cons x xs)
  then have "mag xs + 1 \<le> base64 ^ length xs" by simp
  then have "base64 * (mag xs + 1) \<le> base64 * base64 ^ length xs" by (intro mult_left_mono) simp_all
  moreover have "uint x < base64" by simp
  ultimately show ?case by (simp del: uint_range)
qed

lemma mag_replicate_zero [simp]: "mag (replicate n 0) = 0"
  by (induction n) simp_all

lemma mag_zero_iff: "mag xs = 0 \<longleftrightarrow> set xs \<subseteq> {0}"
proof (induction xs)
  case Nil
  then show ?case by simp
next
  case (Cons x xs)
  have "uint x + base64 * mag xs = 0 \<longleftrightarrow> uint x = 0 \<and> mag xs = 0"
    using uint_range [of x] mag_nonneg [of xs] by (simp add: add_nonneg_eq_0_iff)
  then show ?case using Cons by (auto simp: uint_0_iff)
qed

lemma mag_last_pos:
  assumes "xs \<noteq> []" "last xs \<noteq> 0"
  shows "base64 ^ (length xs - 1) \<le> mag xs"
proof -
  have "mag xs = mag (butlast xs) + base64 ^ (length xs - 1) * uint (last xs)"
    using assms(1) mag_append [of "butlast xs" "[last xs]"] by simp
  moreover have "1 \<le> uint (last xs)"
    using assms(2) uint_range(1) [of "last xs"] by (simp add: uint_0_iff int_one_le_iff_zero_less less_le del: uint_range)
  ultimately have "base64 ^ (length xs - 1) * 1 \<le> base64 ^ (length xs - 1) * uint (last xs)"
    by (intro mult_left_mono) simp_all
  then show ?thesis
    using \<open>mag xs = _\<close> mag_nonneg [of "butlast xs"] by linarith
qed

lemma drop_high_zeros_mag [simp]: "mag (drop_high_zeros xs) = mag xs"
proof (induction xs rule: drop_high_zeros.induct)
  case (1 xs)
  show ?case
  proof (cases "xs \<noteq> [] \<and> last xs = 0")
    case True
    then have "mag xs = mag (butlast xs @ [0])" by (metis append_butlast_last_id)
    then have "mag xs = mag (butlast xs)" by (simp add: mag_append)
    then show ?thesis using 1 True by (subst drop_high_zeros.simps) simp
  next
    case False
    then show ?thesis by (subst drop_high_zeros.simps) (simp only: if_False)
  qed
qed

lemma drop_high_zeros_trimmed [simp]: "trimmed (drop_high_zeros xs)"
proof (induction xs rule: drop_high_zeros.induct)
  case (1 xs)
  then show ?case by (subst drop_high_zeros.simps) (auto simp: trimmed_def)
qed

lemma normalize_correct: "bigint_val (normalize n) = bigint_val n" "canonical (normalize n)"
  by (auto simp: normalize_def bigint_val_def canonical_def Let_def)
     (metis drop_high_zeros_mag mag.simps(1) minus_zero)

section \<open>Comparison\<close>

lemma compare_from_top_sign:
  "length a = length b \<Longrightarrow> compare_from_top (rev a) (rev b) = sgn (mag a - mag b)"
proof (induction a arbitrary: b rule: rev_induct)
  case Nil
  then show ?case by simp
next
  case (snoc x xs)
  then obtain y ys where b: "b = ys @ [y]" "length xs = length ys"
    by (cases b rule: rev_cases) auto
  have bx: "mag xs < base64 ^ length ys" "mag ys < base64 ^ length ys" "0 \<le> mag xs" "0 \<le> mag ys"
    using mag_bound [of xs] mag_bound [of ys] b(2) by simp_all
  have eq: "mag (xs @ [x]) - mag (ys @ [y]) = mag xs - mag ys + base64 ^ length ys * (uint x - uint y)"
    using b(2) by (simp add: mag_append algebra_simps)
  consider "x = y" | "x < y" | "y < x" by (meson linorder_less_linear)
  then show ?case
  proof cases
    case 1
    then show ?thesis using snoc.IH [OF b(2)] eq by (simp add: b(1))
  next
    case 2
    then have "uint x - uint y \<le> -1" by (simp add: word_less_def)
    then have "base64 ^ length ys * (uint x - uint y) \<le> - (base64 ^ length ys)"
      using mult_left_mono [of "uint x - uint y" "-1" "base64 ^ length ys"] by simp
    then have "mag (xs @ [x]) - mag (ys @ [y]) < 0" using eq bx by linarith
    then show ?thesis using 2 by (auto simp: b(1))
  next
    case 3
    then have "1 \<le> uint x - uint y" by (simp add: word_less_def)
    then have "base64 ^ length ys \<le> base64 ^ length ys * (uint x - uint y)"
      using mult_left_mono [of 1 "uint x - uint y" "base64 ^ length ys"] by simp
    then have "0 < mag (xs @ [x]) - mag (ys @ [y])" using eq bx by linarith
    then show ?thesis using 3 by (auto simp: b(1))
  qed
qed

lemma mag_shorter:
  assumes "trimmed b" "length a < length b"
  shows "mag a < mag b"
proof -
  have "mag a < base64 ^ length a" by (rule mag_bound)
  also have "\<dots> \<le> base64 ^ (length b - 1)" using assms(2) by (intro power_increasing) simp_all
  also have "\<dots> \<le> mag b" using assms by (intro mag_last_pos) (auto simp: trimmed_def)
  finally show ?thesis .
qed

lemma compareMagnitude_sign:
  assumes "trimmed a" "trimmed b"
  shows "compareMagnitude a b = sgn (mag a - mag b)"
  using assms mag_shorter [of b a] mag_shorter [of a b] compare_from_top_sign [of a b]
  by (auto simp: compareMagnitude_def)

lemma canonical_mag_zero: "trimmed xs \<Longrightarrow> mag xs = 0 \<longleftrightarrow> xs = []"
  using mag_shorter [of xs "[]"] by (cases xs) auto

lemma big_compare_sign:
  assumes "canonical m" "canonical n"
  shows "big_compare m n = sgn (bigint_val m - bigint_val n)"
proof -
  have t: "trimmed (limbs m)" "trimmed (limbs n)" using assms by (simp_all add: canonical_def)
  have pos: "negative k \<Longrightarrow> canonical k \<Longrightarrow> 0 < mag (limbs k)" for k
    using mag_nonneg [of "limbs k"] canonical_mag_zero [of "limbs k"]
    by (auto simp: canonical_def simp del: mag_nonneg)
  have nn: "0 \<le> mag (limbs m)" "0 \<le> mag (limbs n)" by simp_all
  show ?thesis
  proof (cases "negative m = negative n")
    case True
    then show ?thesis
      using compareMagnitude_sign [OF t] by (auto simp: big_compare_def bigint_val_def Let_def sgn_if)
  next
    case False
    then consider "negative m" "\<not> negative n" "bigint_val m - bigint_val n < 0"
      | "\<not> negative m" "negative n" "0 < bigint_val m - bigint_val n"
      using pos [OF _ assms(1)] pos [OF _ assms(2)] nn
      by (cases "negative m"; cases "negative n") (simp_all add: bigint_val_def del: mag_nonneg)
    then show ?thesis by cases (simp_all add: big_compare_def)
  qed
qed

section \<open>Sums and differences\<close>

lemma add_loop_mag:
  "0 \<le> carry \<Longrightarrow> carry \<le> 1 \<Longrightarrow> mag (add_loop a b carry) = mag a + mag b + carry"
proof (induction a b carry rule: add_loop.induct)
  case (1 x xs y ys carry)
  have "carry + uint x + uint y < 2 * base64" "0 \<le> carry + uint x + uint y"
    using 1(2,3) uint_range [of x] uint_range [of y] by linarith+
  then have "0 \<le> (carry + uint x + uint y) div base64" "(carry + uint x + uint y) div base64 \<le> 1" by auto
  with 1 show ?case by (simp add: Let_def algebra_simps)
next
  case (2 x xs carry)
  have "carry + uint x < 2 * base64" "0 \<le> carry + uint x"
    using 2(2,3) uint_range [of x] by linarith+
  then have "0 \<le> (carry + uint x) div base64" "(carry + uint x) div base64 \<le> 1" by auto
  with 2 show ?case by (simp add: Let_def algebra_simps)
next
  case (3 y ys carry)
  have "carry + uint y < 2 * base64" "0 \<le> carry + uint y"
    using 3(2,3) uint_range [of y] by linarith+
  then have "0 \<le> (carry + uint y) div base64" "(carry + uint y) div base64 \<le> 1" by auto
  with 3 show ?case by (simp add: Let_def algebra_simps)
next
  case (4 carry)
  then show ?case by simp
qed

lemma addMagnitude_mag: "mag (addMagnitude a b) = mag a + mag b"
  by (simp add: addMagnitude_def add_loop_mag)

lemma sub_loop_mag:
  assumes "0 \<le> borrow" "borrow \<le> 1" "mag b + borrow \<le> mag a" "length b \<le> length a"
  shows "mag (sub_loop a b borrow) = mag a - mag b - borrow"
  using assms
proof (induction a b borrow rule: sub_loop.induct)
  case (1 x xs ys borrow)
  define y where "y = (case ys of y # _ \<Rightarrow> uint y | [] \<Rightarrow> 0)"
  define d where "d = uint x - borrow - y"
  have y: "0 \<le> y" "y < base64" and ys: "mag ys = y + base64 * mag (tl ys)"
    by (simp_all add: y_def split: list.split)
  have x: "0 \<le> uint x" "uint x < base64" by simp_all
  have le: "y + base64 * mag (tl ys) + borrow \<le> uint x + base64 * mag xs"
    using 1(5) by (simp add: ys)
  have len: "length (tl ys) \<le> length xs" using 1(6) by simp
  show ?case
  proof (cases "d < 0")
    case True
    have "0 \<le> d + base64" "d + base64 < base64" using True y x 1(3,4) unfolding d_def by linarith+
    then have "uint (limb (d + base64)) = d + base64" by (simp only: uint_limb mod_pos_pos_trivial)
    moreover have "mag (tl ys) + 1 \<le> mag xs" using le True y x by (simp add: d_def)
    moreover have "sub_loop (x # xs) ys borrow = limb (d + base64) # sub_loop xs (tl ys) 1"
      using True by (simp add: Let_def d_def y_def)
    ultimately show ?thesis
      using "1.IH"(1) True len by (simp add: ys d_def y_def)
  next
    case False
    have "0 \<le> d" "d < base64" using False y x 1(3,4) unfolding d_def by linarith+
    then have "uint (limb d) = d" by (simp only: uint_limb mod_pos_pos_trivial)
    moreover have "mag (tl ys) + 0 \<le> mag xs" using le y x 1(3) by linarith
    moreover have "sub_loop (x # xs) ys borrow = limb d # sub_loop xs (tl ys) 0"
      using False by (simp add: Let_def d_def y_def)
    ultimately show ?thesis
      using "1.IH"(2) False len by (simp add: ys d_def y_def)
  qed
next
  case (2 ys borrow)
  then show ?case by simp
qed

lemma subMagnitude_mag:
  "mag b \<le> mag a \<Longrightarrow> length b \<le> length a \<Longrightarrow> mag (subMagnitude a b) = mag a - mag b"
  by (simp add: subMagnitude_def sub_loop_mag)

section \<open>Products\<close>

text \<open>The running product and carry stay below \<open>2 ^ 128\<close>.\<close>

lemma product_fits:
  assumes "0 \<le> x" "x < base64" "0 \<le> y" "y < base64" "0 \<le> r" "r < base64" "0 \<le> c" "c < base64"
  shows "x * y + r + c < base64 * base64" "0 \<le> x * y + r + c"
    "(x * y + r + c) div base64 < base64" "0 \<le> (x * y + r + c) div base64"
proof -
  have "x * y \<le> (base64 - 1) * (base64 - 1)" using assms by (intro mult_mono) simp_all
  then show lt: "x * y + r + c < base64 * base64" using assms by simp
  show "0 \<le> x * y + r + c" using assms by simp
  then show "0 \<le> (x * y + r + c) div base64" by simp
  show "(x * y + r + c) div base64 < base64" using lt by simp
qed

lemma carry_loop_mag:
  "0 \<le> c \<Longrightarrow> mag rs + c < base64 ^ length rs \<Longrightarrow>
     mag (carry_loop rs c) = mag rs + c \<and> length (carry_loop rs c) = length rs"
proof (induction rs c rule: carry_loop.induct)
  case (1 r rs c)
  show ?case
  proof (cases "c = 0")
    case False
    let ?cur = "uint r + c"
    have cur: "uint (limb ?cur) + base64 * (?cur div base64) = ?cur" by simp
    have "uint (limb ?cur) + base64 * (mag rs + ?cur div base64) < base64 * base64 ^ length rs"
      using 1(3) cur by (simp add: distrib_left)
    then have "base64 * (mag rs + ?cur div base64) < base64 * base64 ^ length rs"
      using uint_range(1) [of "limb ?cur"] by linarith
    then have "mag rs + ?cur div base64 < base64 ^ length rs" by simp
    moreover have "0 \<le> ?cur div base64" using 1(2) by (simp add: pos_imp_zdiv_nonneg_iff)
    ultimately show ?thesis using "1.IH" [OF False refl] False cur by (simp add: Let_def distrib_left)
  qed simp
qed simp

lemma mul_row_mag:
  assumes "0 \<le> c" "c < base64" "length ys \<le> length rs" "mag rs + uint x * mag ys + c < base64 ^ length rs"
  shows "mag (mul_row x ys rs c) = mag rs + uint x * mag ys + c \<and> length (mul_row x ys rs c) = length rs"
  using assms
proof (induction x ys rs c rule: mul_row.induct)
  case (1 x y ys r rs c)
  let ?cur = "uint x * uint y + uint r + c"
  have fit: "?cur div base64 < base64" "0 \<le> ?cur div base64"
    using 1(2,3) by (auto intro: product_fits)
  have cur: "uint (limb ?cur) + base64 * (?cur div base64) = ?cur" by simp
  have "uint (limb ?cur) + base64 * (mag rs + uint x * mag ys + ?cur div base64) < base64 * base64 ^ length rs"
    using 1(5) cur by (simp add: algebra_simps)
  then have "base64 * (mag rs + uint x * mag ys + ?cur div base64) < base64 * base64 ^ length rs"
    using uint_range(1) [of "limb ?cur"] by linarith
  then have "mag rs + uint x * mag ys + ?cur div base64 < base64 ^ length rs" by simp
  then have "mag (mul_row x ys rs (?cur div base64)) = mag rs + uint x * mag ys + ?cur div base64 \<and>
      length (mul_row x ys rs (?cur div base64)) = length rs"
    using "1.IH" [OF refl] fit 1(4) by simp
  then show ?case using cur by (simp add: Let_def algebra_simps)
next
  case (2 x rs c)
  then show ?case using carry_loop_mag [of c rs] by simp
next
  case (3 x y ys c)
  then show ?case by simp
qed

lemma mul_rows_mag:
  assumes "length xs + length b \<le> length rs" "mag rs + mag xs * mag b < base64 ^ length rs"
  shows "mag (mul_rows xs b rs) = mag rs + mag xs * mag b"
  using assms
proof (induction xs b rs rule: mul_rows.induct)
  case (1 x xs b rs)
  have split: "mag (x # xs) * mag b = uint x * mag b + base64 * (mag xs * mag b)" by (simp add: algebra_simps)
  have "0 \<le> base64 * (mag xs * mag b)" by simp
  then have "mag rs + uint x * mag b + 0 < base64 ^ length rs" using 1(3) split by linarith
  then have row: "mag (mul_row x b rs 0) = mag rs + uint x * mag b" "length (mul_row x b rs 0) = length rs"
    using mul_row_mag [of 0 b rs x] 1(2) by simp_all
  moreover have "rs \<noteq> []" using 1(2) by auto
  ultimately obtain r ss where m: "mul_row x b rs 0 = r # ss" by (cases "mul_row x b rs 0") auto
  have len: "length rs = Suc (length ss)" using row(2) m by simp
  have "uint r + base64 * (mag ss + mag xs * mag b) < base64 * base64 ^ length ss"
    using 1(3) split row(1) by (simp add: m len algebra_simps)
  then have "base64 * (mag ss + mag xs * mag b) < base64 * base64 ^ length ss"
    using uint_range(1) [of r] by linarith
  then have "mag (mul_rows xs b ss) = mag ss + mag xs * mag b"
    using "1.IH" [OF m] 1(2) len by simp
  then show ?case using row(1) split by (simp add: m algebra_simps)
qed simp

lemma mulMagnitude_mag: "mag (mulMagnitude a b) = mag a * mag b"
proof (cases "a = [] \<or> b = []")
  case False
  have "mag a * mag b < base64 ^ (length a + length b)"
    using mag_bound [of a] mag_bound [of b] mult_strict_mono [of "mag a" "base64 ^ length a" "mag b"]
    by (simp add: power_add)
  then show ?thesis
    using False by (simp add: mulMagnitude_def mul_rows_mag)
qed (auto simp: mulMagnitude_def)

lemma muladd_loop_mag:
  "0 \<le> m \<Longrightarrow> m < base64 \<Longrightarrow> 0 \<le> c \<Longrightarrow> c < base64 \<Longrightarrow> mag (muladd_loop xs m c) = mag xs * m + c"
proof (induction xs m c rule: muladd_loop.induct)
  case (1 x xs m c)
  let ?cur = "uint x * m + c"
  have fit: "?cur div base64 < base64" "0 \<le> ?cur div base64"
    using 1(2-5) product_fits [of "uint x" m 0 c] by simp_all
  have cur: "uint (limb ?cur) + base64 * (?cur div base64) = ?cur" by simp
  show ?case using "1.IH" [OF refl] 1(2,3) fit cur by (simp add: Let_def algebra_simps)
next
  case (2 m c)
  then show ?case by simp
qed

lemma mulAddInPlace_mag: "mag (mulAddInPlace m a ls) = mag ls * uint m + uint a"
  by (simp add: mulAddInPlace_def muladd_loop_mag)

end
