(* ===== verification/BigInt_Division.thy ===== *)
theory BigInt_Division
  imports BigInt
begin

text \<open>
  Magnitude division of \<open>bigint.h\<close>: the single-limb path and Knuth's Algorithm D with its
  normalising shift, two-limb trial quotient, multiply-and-subtract and add-back.  The main result
  is that \<open>divModMagnitude\<close> returns the quotient and remainder of the values, for every
  normalised non-empty divisor; on the way, the trial quotient is shown to be exact or one too
  large and to fit into a limb.
\<close>

section \<open>The single-limb path\<close>

text \<open>From the most significant limb: on the reversed vector, the quotient limbs in the same order.\<close>

fun short_div_loop :: "u64 \<Rightarrow> limb_list \<Rightarrow> int \<Rightarrow> limb_list \<times> int" where
  "short_div_loop d (x # xs) rem =
     (let cur = rem * base64 + uint x; (qs, r) = short_div_loop d xs (cur mod uint d)
      in (limb (cur div uint d) # qs, r))"
| "short_div_loop d [] rem = ([], rem)"

definition shortDivMod :: "limb_list \<Rightarrow> u64 \<Rightarrow> limb_list \<times> limb_list" where
  "shortDivMod a d =
     (let (qs, rem) = short_div_loop d (rev a) 0
      in (drop_high_zeros (rev qs), if rem \<noteq> 0 then [limb rem] else []))"

section \<open>Normalising shifts\<close>

text \<open>\<open>countl_zero\<close> of a limb, and the two shifts of a whole vector.\<close>

definition countl_zero :: "u64 \<Rightarrow> nat" where
  "countl_zero x = length (takeWhile Not (map (\<lambda>i. bit x (63 - i)) [0..<64]))"

fun shift_up :: "nat \<Rightarrow> u64 \<Rightarrow> limb_list \<Rightarrow> limb_list" where
  "shift_up s below (x # xs) =
     (if s \<noteq> 0 then or (push_bit s x) (drop_bit (64 - s) below) else push_bit s x) # shift_up s x xs"
| "shift_up s below [] = []"

fun shift_down :: "nat \<Rightarrow> limb_list \<Rightarrow> limb_list" where
  "shift_down s (x # y # ys) =
     (if s \<noteq> 0 then or (drop_bit s x) (push_bit (64 - s) y) else drop_bit s x) # shift_down s (y # ys)"
| "shift_down s _ = []"

section \<open>One step of the long division\<close>

text \<open>The correction of the trial quotient: \<open>v1\<close> and \<open>v2\<close> are the two leading limbs of the
  divisor, \<open>u2\<close> the third limb of the window.\<close>

function trial_loop :: "int \<Rightarrow> int \<Rightarrow> int \<Rightarrow> int \<Rightarrow> int \<Rightarrow> int" where
  "trial_loop v1 v2 u2 qhat rhat =
     (if 0 < qhat \<and> (qhat \<ge> base64 \<or> qhat * v2 > rhat * base64 + u2)
      then (if rhat + v1 \<ge> base64 then qhat - 1 else trial_loop v1 v2 u2 (qhat - 1) (rhat + v1))
      else qhat)"
  by pat_completeness auto
termination
  by (relation "measure (\<lambda>(v1, v2, u2, qhat, rhat). nat qhat)") auto

declare trial_loop.simps [simp del]

fun mul_sub_loop :: "int \<Rightarrow> limb_list \<Rightarrow> limb_list \<Rightarrow> int \<Rightarrow> int \<Rightarrow> limb_list \<times> int \<times> int" where
  "mul_sub_loop qhat (v # vs) (u # us) mul_carry borrow =
     (let product = qhat * uint v + mul_carry;
          diff = uint u - product mod base64 - borrow;
          (rs, mc, bw) = mul_sub_loop qhat vs us (product div base64) (if diff < 0 then 1 else 0)
      in (limb diff # rs, mc, bw))"
| "mul_sub_loop qhat _ us mul_carry borrow = ([], mul_carry, borrow)"

fun add_back_loop :: "limb_list \<Rightarrow> limb_list \<Rightarrow> int \<Rightarrow> limb_list \<times> int" where
  "add_back_loop (v # vs) (u # us) carry =
     (let s = uint u + uint v + carry; (rs, c) = add_back_loop vs us (s div base64)
      in (limb s # rs, c))"
| "add_back_loop _ us carry = ([], carry)"

text \<open>The window \<open>un[j..j+n]\<close> has one limb more than the divisor.\<close>

definition knuth_step :: "limb_list \<Rightarrow> limb_list \<Rightarrow> u64 \<times> limb_list" where
  "knuth_step vn w =
     (let n = length vn; v1 = uint (vn ! (n - 1)); v2 = uint (vn ! (n - 2));
          numerator = uint (w ! n) * base64 + uint (w ! (n - 1));
          qhat = trial_loop v1 v2 (uint (w ! (n - 2))) (numerator div v1) (numerator mod v1);
          (low, mul_carry, borrow) = mul_sub_loop qhat vn (take n w) 0 0;
          top = uint (w ! n) - mul_carry - borrow
      in if top < 0
         then (let (low', carry) = add_back_loop vn low 0
               in (limb (qhat - 1), low' @ [limb (uint (limb top) + carry)]))
         else (limb qhat, low @ [limb top]))"

fun knuth_loop :: "limb_list \<Rightarrow> nat \<Rightarrow> limb_list \<Rightarrow> limb_list \<Rightarrow> limb_list \<times> limb_list" where
  "knuth_loop vn 0 un quo = (un, quo)"
| "knuth_loop vn (Suc j) un quo =
     (let n = length vn; (q, w) = knuth_step vn (take (n + 1) (drop j un))
      in knuth_loop vn j (take j un @ w @ drop (j + n + 1) un) (quo[j := q]))"

definition divModMagnitude :: "limb_list \<Rightarrow> limb_list \<Rightarrow> limb_list \<times> limb_list" where
  "divModMagnitude a b =
     (if compareMagnitude a b < 0 then ([], a)
      else if length b = 1 then shortDivMod a (b ! 0)
      else
        let n = length b; m = length a - n; s = countl_zero (last b);
            vn = shift_up s 0 b;
            un = shift_up s 0 a @ [if s \<noteq> 0 then drop_bit (64 - s) (last a) else 0];
            (un', quo) = knuth_loop vn (m + 1) un (replicate (m + 1) 0);
            remainder = shift_down s (take (n + 1) un')
        in (drop_high_zeros quo, drop_high_zeros remainder))"

section \<open>Arithmetic helpers\<close>

lemma int_div_less:
  assumes "0 < (d :: int)" "a < d * b"
  shows "a div d < b"
proof -
  have "a div d * d \<le> a" using assms(1) by (metis add.commute div_mult_mod_eq le_add_same_cancel1 pos_mod_sign add_le_cancel_right add.right_neutral add_mono order_refl)
  then have "a div d * d < b * d" using assms(2) by (simp add: mult.commute)
  then show ?thesis using assms(1) by simp
qed

lemma limb_exact: "0 \<le> n \<Longrightarrow> n < base64 \<Longrightarrow> uint (limb n) = n"
  by simp

section \<open>Correctness of the single-limb path\<close>

lemma short_div_loop_mag:
  assumes "0 \<le> rem" "rem < uint d"
  shows "rem * base64 ^ length xs + mag (rev xs) = uint d * mag (rev (fst (short_div_loop d xs rem)))
      + snd (short_div_loop d xs rem) \<and>
    0 \<le> snd (short_div_loop d xs rem) \<and> snd (short_div_loop d xs rem) < uint d \<and>
    length (fst (short_div_loop d xs rem)) = length xs"
  using assms
proof (induction d xs rem rule: short_div_loop.induct)
  case (1 d x xs rem)
  let ?cur = "rem * base64 + uint x" and ?d = "uint d"
  have d: "0 < ?d" using 1(2,3) by linarith
  have cur: "0 \<le> ?cur" using 1(2) by simp
  have "(rem + 1) * base64 \<le> ?d * base64" using 1(3) by (intro mult_right_mono) simp_all
  then have "?cur < ?d * base64" using uint_range(2) [of x] unfolding distrib_right by linarith
  then have q: "0 \<le> ?cur div ?d" "?cur div ?d < base64"
    using cur d by (simp_all add: pos_imp_zdiv_nonneg_iff int_div_less)
  obtain qs r where qr: "short_div_loop d xs (?cur mod ?d) = (qs, r)" by fastforce
  have IH: "?cur mod ?d * base64 ^ length xs + mag (rev xs) = ?d * mag (rev qs) + r" "0 \<le> r" "r < ?d"
      "length qs = length xs"
    using "1.IH" [OF refl] d qr by simp_all
  have gen: "c = k * q + m \<Longrightarrow> R + P * c = (m * P + R) + k * (P * q)" for c k q m R P :: int
    by (simp add: algebra_simps)
  have split: "rem * base64 + uint x = ?d * (?cur div ?d) + ?cur mod ?d" by simp
  have "rem * base64 ^ length (x # xs) + mag (rev (x # xs))
      = mag (rev xs) + base64 ^ length xs * (rem * base64 + uint x)"
    by (simp add: mag_append algebra_simps)
  also have "\<dots> = (?cur mod ?d * base64 ^ length xs + mag (rev xs)) + ?d * (base64 ^ length xs * (?cur div ?d))"
    using split by (rule gen)
  also have "\<dots> = ?d * mag (rev (limb (?cur div ?d) # qs)) + r"
    using limb_exact [OF q] IH by (simp add: mag_append algebra_simps del: uint_limb)
  finally show ?case using IH by (simp add: Let_def qr)
next
  case (2 d rem)
  then show ?case by simp
qed

lemma shortDivMod_correct:
  assumes "d \<noteq> 0"
  shows "mag (fst (shortDivMod a d)) = mag a div uint d \<and> mag (snd (shortDivMod a d)) = mag a mod uint d \<and>
    trimmed (fst (shortDivMod a d)) \<and> trimmed (snd (shortDivMod a d))"
proof -
  obtain qs r where qr: "short_div_loop d (rev a) 0 = (qs, r)" by fastforce
  have d: "0 < uint d" using assms uint_range(1) [of d] by (simp add: uint_0_iff less_le del: uint_range)
  have eq: "mag a = uint d * mag (rev qs) + r" "0 \<le> r" "r < uint d"
    using short_div_loop_mag [of 0 d "rev a"] d qr by simp_all
  then have "r < base64" using uint_range(2) [of d] by linarith
  then have r: "uint (limb r) = r" using eq(2) by simp
  have "mag a div uint d = mag (rev qs)" "mag a mod uint d = r"
    using eq by (simp_all add: div_pos_pos_trivial)
  then show ?thesis
    using r by (auto simp: shortDivMod_def qr trimmed_def [of "[limb r]"] trimmed_def [of "[]"] simp del: uint_limb)
qed

section \<open>The trial quotient\<close>

text \<open>
  \<open>U\<close> and \<open>v1\<close> are the leading parts of the window \<open>W\<close> and the divisor
  \<open>V\<close>; \<open>P\<close> is the weight of the limbs the trial does not look at.
\<close>

definition trial_setting :: "int \<Rightarrow> int \<Rightarrow> int \<Rightarrow> int \<Rightarrow> int \<Rightarrow> int \<Rightarrow> int \<Rightarrow> bool" where
  "trial_setting v1 v2 U u2 P V W \<longleftrightarrow>
     base64 \<le> 2 * v1 \<and> v1 < base64 \<and> 0 \<le> v2 \<and> v2 < base64 \<and> 0 \<le> u2 \<and> u2 < base64 \<and> 0 < P \<and>
     U < v1 * base64 + base64 \<and> 0 \<le> W \<and> W < V * base64 \<and>
     (v1 * base64 + v2) * P \<le> V \<and> V < (v1 * base64 + v2 + 1) * P \<and>
     (U * base64 + u2) * P \<le> W \<and> W < (U * base64 + u2 + 1) * P"

lemma trial_too_big:
  assumes s: "trial_setting v1 v2 U u2 P V W" and eq: "qhat * v1 + rhat = U" and q0: "0 \<le> qhat"
    and test: "qhat \<ge> base64 \<or> qhat * v2 > rhat * base64 + u2"
  shows "W div V \<le> qhat - 1"
proof -
  have P: "0 < P" and v1: "0 < v1" and W: "W < V * base64" "W < (U * base64 + u2 + 1) * P"
    and V: "(v1 * base64 + v2) * P \<le> V" "0 \<le> v2"
    using s by (auto simp: trial_setting_def)
  have "0 < (v1 * base64 + v2) * P" using P v1 V(2) by (intro mult_pos_pos) linarith+
  then have V0: "0 < V" using V(1) by linarith
  have "W < V * qhat"
  proof (cases "qhat \<ge> base64")
    case True
    then have "V * base64 \<le> V * qhat" using V0 by (intro mult_left_mono) simp_all
    then show ?thesis using W(1) by linarith
  next
    case False
    then have "rhat * base64 + u2 + 1 \<le> qhat * v2" using test by simp
    then have "U * base64 + u2 + 1 \<le> qhat * (v1 * base64 + v2)"
      by (simp add: eq [symmetric] algebra_simps)
    then have "(U * base64 + u2 + 1) * P \<le> qhat * (v1 * base64 + v2) * P"
      using P by (intro mult_right_mono) simp_all
    also have "\<dots> \<le> qhat * V" using V(1) q0 by (simp add: mult_left_mono mult.assoc)
    finally show ?thesis using W(2) by (simp add: mult.commute)
  qed
  then show ?thesis using int_div_less [OF V0, of W qhat] by simp
qed

lemma trial_close:
  assumes s: "trial_setting v1 v2 U u2 P V W" and eq: "qhat * v1 + rhat = U" and q0: "0 \<le> qhat"
    and le: "qhat * v2 \<le> rhat * base64 + u2" "qhat \<le> base64"
  shows "qhat \<le> W div V + 1"
proof -
  have P: "0 < P" and v: "base64 \<le> 2 * v1" "0 \<le> v2"
    and V: "(v1 * base64 + v2) * P \<le> V" "V < (v1 * base64 + v2 + 1) * P"
    and W: "(U * base64 + u2) * P \<le> W" "0 \<le> W"
    using s by (auto simp: trial_setting_def)
  let ?V3 = "v1 * base64 + v2"
  have V3: "base64 \<le> ?V3" using v by linarith
  have V0: "0 < V" using mult_pos_pos [of ?V3 P] P V3 V(1) by linarith
  show ?thesis
  proof (cases "qhat = 0")
    case True
    then show ?thesis using W(2) V0 by (simp add: pos_imp_zdiv_nonneg_iff)
  next
    case False
    then have "(qhat - 1) * V \<le> (qhat - 1) * ((?V3 + 1) * P)" using V(2) q0 by (intro mult_left_mono) simp_all
    also have "\<dots> = (qhat * ?V3 + (qhat - 1 - ?V3)) * P" by (simp add: algebra_simps)
    also have "\<dots> \<le> (qhat * ?V3) * P" using le(2) V3 P by (intro mult_right_mono) simp_all
    also have "\<dots> \<le> (U * base64 + u2) * P"
      using le(1) P by (intro mult_right_mono) (simp_all add: eq [symmetric] algebra_simps)
    also have "\<dots> \<le> W" by (rule W(1))
    finally have "(qhat - 1) * V \<le> W" .
    then have "(qhat - 1) * V div V \<le> W div V" using V0 by (rule zdiv_mono1)
    then show ?thesis using V0 by simp
  qed
qed

lemma trial_loop_close:
  assumes "trial_setting v1 v2 U u2 P V W" "qhat * v1 + rhat = U" "0 \<le> qhat" "0 \<le> rhat" "rhat < base64"
    "W div V \<le> qhat"
  shows "W div V \<le> trial_loop v1 v2 u2 qhat rhat \<and> trial_loop v1 v2 u2 qhat rhat \<le> W div V + 1 \<and>
    trial_loop v1 v2 u2 qhat rhat < base64"
  using assms
proof (induction v1 v2 u2 qhat rhat rule: trial_loop.induct)
  case (1 v1 v2 u2 qhat rhat)
  note s = 1(2) and eq = 1(3)
  let ?test = "qhat \<ge> base64 \<or> qhat * v2 > rhat * base64 + u2"
  show ?case
  proof (cases "0 < qhat \<and> ?test")
    case False
    then have r: "trial_loop v1 v2 u2 qhat rhat = qhat" by (subst trial_loop.simps) (simp only: if_False)
    have le: "qhat * v2 \<le> rhat * base64 + u2" "qhat < base64"
      using False 1(4,5) s by (auto simp: trial_setting_def)
    show ?thesis using trial_close [OF s eq 1(4) le(1)] le(2) 1(7) by (simp add: r)
  next
    case True
    then have big: "W div V \<le> qhat - 1" using trial_too_big [OF s eq 1(4)] by blast
    have eq': "(qhat - 1) * v1 + (rhat + v1) = U" using eq by (simp add: algebra_simps)
    have v1: "0 < v1" "U < v1 * base64 + base64" "v2 < base64" "0 \<le> v2" "0 \<le> u2"
      using s by (auto simp: trial_setting_def)
    show ?thesis
    proof (cases "rhat + v1 \<ge> base64")
      case brk: True
      then have r: "trial_loop v1 v2 u2 qhat rhat = qhat - 1"
        using True by (subst trial_loop.simps) simp
      have "v1 * (qhat - 1) < v1 * base64" using eq' v1(2) brk by (simp add: mult.commute)
      then have lt: "qhat - 1 < base64" using v1(1) by (simp only: mult_less_cancel_left_pos)
      have "(qhat - 1) * v2 \<le> base64 * base64" using lt v1 True by (intro mult_mono) simp_all
      also have "\<dots> \<le> (rhat + v1) * base64" using brk by (intro mult_right_mono) simp_all
      also have "\<dots> \<le> (rhat + v1) * base64 + u2" using v1(5) by simp
      finally have "qhat - 1 \<le> W div V + 1" using trial_close [OF s eq'] True lt by simp
      then show ?thesis using lt big by (simp add: r)
    next
      case False
      then have "trial_loop v1 v2 u2 qhat rhat = trial_loop v1 v2 u2 (qhat - 1) (rhat + v1)"
        using True by (subst trial_loop.simps) simp
      then show ?thesis
        using "1.IH" [OF True False s eq'] True False big 1(5) v1(1) by simp
    qed
  qed
qed

lemma trial_start:
  assumes "trial_setting v1 v2 U u2 P V W"
  shows "W div V \<le> U div v1"
proof -
  have v1: "0 < v1" and P: "0 < P" and W: "W < (U * base64 + u2 + 1) * P" and u2: "u2 < base64"
    and V: "(v1 * base64 + v2) * P \<le> V" "0 \<le> v2" "0 \<le> W"
    using assms by (auto simp: trial_setting_def)
  have VP: "v1 * base64 * P \<le> V" "0 < V"
    using V P v1 mult_right_mono [of "v1 * base64" "v1 * base64 + v2" P] mult_pos_pos [of "v1 * base64" P]
    by linarith+
  let ?q = "W div V"
  have q: "0 \<le> ?q" using V(3) VP(2) by (simp add: pos_imp_zdiv_nonneg_iff)
  have "?q * (v1 * base64 * P) \<le> ?q * V" using q VP(1) by (rule mult_left_mono [rotated])
  also have "\<dots> \<le> W" using VP(2) by (simp add: minus_mod_eq_mult_div [symmetric] mult.commute)
  also have "\<dots> < (U * base64 + u2 + 1) * P" by (rule W)
  also have "\<dots> \<le> ((U + 1) * base64) * P" using u2 P by (intro mult_right_mono) simp_all
  finally have "(?q * v1) * (base64 * P) < (U + 1) * (base64 * P)" by (simp only: ac_simps)
  then have "?q * v1 < U + 1" using P by (simp only: mult_less_cancel_right_pos zero_less_mult_iff zero_less_numeral simp_thms)
  then have "?q * v1 \<le> U" by simp
  then have "?q * v1 div v1 \<le> U div v1" using v1 by (rule zdiv_mono1)
  then show ?thesis using v1 by simp
qed

section \<open>One step is one digit of the quotient\<close>

lemma digit_step:
  fixes us q vs hi b rs C N :: int
  assumes "us - q * vs - hi - b = rs - C * N" "lim = u - lo - bw + base64 * b"
    and "q * v + mc = lo + base64 * hi"
  shows "u + base64 * us - q * (v + base64 * vs) - mc - bw = lim + base64 * rs - C * (base64 * N)"
proof -
  have "us = q * vs + hi + b + rs - C * N" using assms(1) by linarith
  moreover have "lo = q * v + mc - base64 * hi" using assms(3) by linarith
  ultimately show ?thesis by (simp add: assms(2) algebra_simps)
qed

lemma mul_sub_loop_mag:
  assumes "length us = length vs" "mul_sub_loop qhat vs us mc bw = (rs, mc', bw')"
    and "0 \<le> qhat" "0 \<le> mc" "bw = 0 \<or> bw = 1"
  shows "mag us - qhat * mag vs - mc - bw = mag rs - (mc' + bw') * base64 ^ length vs \<and>
    length rs = length vs"
  using assms
proof (induction qhat vs us mc bw arbitrary: rs rule: mul_sub_loop.induct)
  case (1 qhat v vs u us mc bw)
  let ?p = "qhat * uint v + mc"
  let ?d = "uint u - ?p mod base64 - bw"
  let ?b = "if ?d < 0 then 1 else 0 :: int"
  obtain rs' where loop: "mul_sub_loop qhat vs us (?p div base64) ?b = (rs', mc', bw')"
    and rs: "rs = limb ?d # rs'"
    using 1(3) by (auto simp: Let_def split: prod.splits)
  have p: "0 \<le> ?p" using 1(4,5) by simp
  have lo: "0 \<le> ?p mod base64" "?p mod base64 < base64" by simp_all
  have d: "- base64 \<le> ?d" "?d < base64"
    using lo uint_range [of u] 1(6) by linarith+
  have lim: "uint (limb ?d) = ?d + base64 * ?b"
  proof (cases "?d < 0")
    case True
    then have "uint (limb ?d) = (?d + base64) mod base64" by simp
    also have "\<dots> = ?d + base64" using True d(1) by (intro mod_pos_pos_trivial) linarith+
    finally show ?thesis using True by simp
  next
    case False
    then have "uint (limb ?d) = ?d" using d(2) by (intro limb_exact) linarith+
    then show ?thesis using False by simp
  qed
  have "mag us - qhat * mag vs - ?p div base64 - ?b = mag rs' - (mc' + bw') * base64 ^ length vs \<and>
      length rs' = length vs"
    using "1.IH" [OF refl refl _ loop] 1(2,4) p by (simp add: pos_imp_zdiv_nonneg_iff)
  moreover have "?p = ?p mod base64 + base64 * (?p div base64)" by simp
  ultimately show ?case
    using digit_step [OF _ lim, of "mag us" qhat "mag vs" "?p div base64" "mag rs'" "mc' + bw'"
        "base64 ^ length vs" "uint v" mc] by (simp add: rs del: uint_limb)
qed simp_all

lemma add_back_loop_mag:
  assumes "length us = length vs" "add_back_loop vs us c = (rs, c')"
  shows "mag us + mag vs + c = mag rs + c' * base64 ^ length vs \<and> length rs = length vs"
  using assms
proof (induction vs us c arbitrary: rs rule: add_back_loop.induct)
  case (1 v vs u us c)
  let ?s = "uint u + uint v + c"
  obtain rs' where loop: "add_back_loop vs us (?s div base64) = (rs', c')" and rs: "rs = limb ?s # rs'"
    using 1(3) by (auto simp: Let_def split: prod.splits)
  have "mag us + mag vs + ?s div base64 = mag rs' + c' * base64 ^ length vs \<and> length rs' = length vs"
    using "1.IH" [OF refl _ loop] 1(2) by simp
  moreover have "uint (limb ?s) + base64 * (?s div base64) = ?s" by simp
  ultimately show ?case by (simp add: rs algebra_simps del: uint_limb)
qed simp_all

text \<open>The window and the divisor, taken apart at the limbs the trial reads.\<close>

lemma window_setting:
  assumes "length us = length ls" "base64 \<le> 2 * uint x" "mag (us @ [c, b, a]) < mag (ls @ [y, x]) * base64"
  shows "trial_setting (uint x) (uint y) (uint a * base64 + uint b) (uint c) (base64 ^ length ls)
    (mag (ls @ [y, x])) (mag (us @ [c, b, a]))"
proof -
  let ?P = "base64 ^ length ls"
  have P: "0 < ?P" by simp
  have V: "mag (ls @ [y, x]) = mag ls + (uint x * base64 + uint y) * ?P"
    by (simp add: mag_append algebra_simps)
  have W: "mag (us @ [c, b, a]) = mag us + ((uint a * base64 + uint b) * base64 + uint c) * ?P"
    using assms(1) by (simp add: mag_append algebra_simps)
  have l: "0 \<le> mag ls" "mag ls < ?P" and u: "0 \<le> mag us" "mag us < ?P"
    using mag_bound [of ls] mag_bound [of us] assms(1) by simp_all
  have "uint a * base64 + uint b < uint x * base64 + base64"
  proof -
    have "uint a * (base64 * (base64 * ?P)) \<le> mag (us @ [c, b, a])"
      using u(1) P by (simp add: W algebra_simps)
    also have "\<dots> < (mag ls + (uint x * base64 + uint y) * ?P) * base64" using assms(3) by (simp only: V)
    also have "\<dots> < ((uint x * base64 + uint y + 1) * ?P) * base64"
      using l(2) by (simp add: algebra_simps)
    also have "\<dots> \<le> (((uint x + 1) * base64) * ?P) * base64"
    proof (intro mult_right_mono)
      show "uint x * base64 + uint y + 1 \<le> (uint x + 1) * base64"
        using uint_range(2) [of y] unfolding distrib_right by linarith
    qed simp_all
    finally have "uint a * (base64 * (base64 * ?P)) < (uint x + 1) * (base64 * (base64 * ?P))"
      by (simp only: ac_simps)
    then have "uint a < uint x + 1" using P by (simp only: mult_less_cancel_right_pos zero_less_mult_iff zero_less_numeral simp_thms)
    then have "uint a * base64 \<le> uint x * base64" by (intro mult_right_mono) simp_all
    then show ?thesis using uint_range [of b] by linarith
  qed
  then show ?thesis
    using assms(2,3) P l u by (simp add: trial_setting_def V W distrib_right del: mult_Suc)
qed

lemma last_digit_zero:
  assumes "0 \<le> (r :: int)" "r < B" "0 \<le> r + B * t" "r + B * t < B"
  shows "t = 0"
proof -
  have "0 < B" using assms(1,2) by linarith
  have "B * t < B * 1" "B * (-1) < B * t" using assms by linarith+
  then have "t < 1" "-1 < t" using \<open>0 < B\<close> by (simp_all only: mult_less_cancel_left_pos)
  then show ?thesis by simp
qed

lemma knuth_step_correct:
  assumes n: "2 \<le> length vn" "length w = length vn + 1"
    and top: "base64 \<le> 2 * uint (last vn)" and less: "mag w < mag vn * base64"
  shows "uint (fst (knuth_step vn w)) = mag w div mag vn \<and> mag (snd (knuth_step vn w)) = mag w mod mag vn \<and>
    length (snd (knuth_step vn w)) = length w"
proof -
  obtain ls y x where vn: "vn = ls @ [y, x]"
    using n(1) by (metis One_nat_def Suc_1 append.assoc append_Cons append_Nil length_0_conv not_less_eq_eq
        le_zero_eq length_append_singleton nat.simps(3) rev_exhaust list.size(3) Suc_le_mono)
  obtain us c b a where w: "w = us @ [c, b, a]" "length us = length ls"
  proof -
    have lw: "length w = length ls + 3" using n(2) by (simp add: vn)
    then have d: "length (drop (length ls) w) = 3" by simp
    then obtain c b a where "drop (length ls) w = [c, b, a]"
      by (auto simp: numeral_3_eq_3 length_Suc_conv simp del: length_drop)
    then have "w = take (length ls) w @ [c, b, a]" by (metis append_take_drop_id)
    then show thesis using that [of "take (length ls) w"] lw by simp
  qed
  let ?V = "mag vn" and ?W = "mag w" and ?N = "base64 ^ length vn"
  let ?U = "uint a * base64 + uint b" and ?q = "mag w div mag vn"
  have s: "trial_setting (uint x) (uint y) ?U (uint c) (base64 ^ length ls) ?V ?W"
    using window_setting [OF w(2), of x c b a y] top less by (simp add: vn w)
  have x0: "0 < uint x" using top by (simp add: vn)
  have "x \<noteq> 0" using x0 by auto
  then have "base64 ^ (length vn - 1) \<le> ?V" using mag_last_pos [of vn] by (simp add: vn)
  moreover have "0 < base64 ^ (length vn - 1)" by simp
  ultimately have V: "0 < ?V" "?V < ?N" using mag_bound [of vn] by linarith+
  define qhat where "qhat = trial_loop (uint x) (uint y) (uint c) (?U div uint x) (?U mod uint x)"
  have xb: "?U mod uint x < base64"
    using x0 uint_range(2) [of x] by (meson order_less_trans pos_mod_bound)
  have qhat: "?q \<le> qhat" "qhat \<le> ?q + 1" "qhat < base64"
    unfolding qhat_def
    using trial_loop_close [OF s, of "?U div uint x" "?U mod uint x"] trial_start [OF s] x0 xb
    by (simp_all add: pos_imp_zdiv_nonneg_iff)
  have q0: "0 \<le> ?q" using V(1) by (simp add: pos_imp_zdiv_nonneg_iff)
  have WV: "?W = ?q * ?V + ?W mod ?V" "0 \<le> ?W mod ?V" "?W mod ?V < ?V" using V(1) by simp_all
  obtain low mc bw where ms: "mul_sub_loop qhat vn (us @ [c, b]) 0 0 = (low, mc, bw)" by (metis prod_cases3)
  have ms_eq: "mag (us @ [c, b]) - qhat * ?V = mag low - (mc + bw) * ?N" "length low = length vn"
    using mul_sub_loop_mag [OF _ ms] q0 qhat(1) w(2) by (simp_all add: vn)
  define t where "t = uint a - mc - bw"
  have len: "length (us @ [c, b]) = length vn" using w(2) by (simp add: vn)
  have "?W = mag ((us @ [c, b]) @ [a])" by (simp add: w(1))
  from trans [OF this mag_append] have W_split: "?W = mag (us @ [c, b]) + ?N * uint a"
    unfolding len by simp
  have key: "?W - qhat * ?V = mag low + ?N * t"
    using ms_eq(1) unfolding W_split t_def by (simp add: algebra_simps)
  have lowb: "0 \<le> mag low" "mag low < ?N" using mag_bound [of low] ms_eq(2) by simp_all
  have idx: "vn ! (length vn - 1) = x" "vn ! (length vn - 2) = y" "w ! length vn = a"
      "w ! (length vn - 1) = b" "w ! (length vn - 2) = c" "take (length vn) w = us @ [c, b]"
    using w(2) by (simp_all add: vn w(1) nth_append)
  have step: "knuth_step vn w =
      (if t < 0 then (limb (qhat - 1), fst (add_back_loop vn low 0)
          @ [limb (uint (limb t) + snd (add_back_loop vn low 0))])
       else (limb qhat, low @ [limb t]))"
    unfolding knuth_step_def Let_def idx qhat_def [symmetric] ms prod.case t_def [symmetric]
    by (simp add: split_def)
  have exact: "limb 0 = 0" by (simp add: limb_def)
  show ?thesis
  proof (cases "t < 0")
    case False
    have "0 \<le> ?N * t" using False by simp
    then have "0 \<le> ?W - qhat * ?V" using key lowb(1) by linarith
    have "qhat \<noteq> ?q + 1"
    proof
      assume e: "qhat = ?q + 1"
      have "qhat * ?V = ?q * ?V + ?V" unfolding e by (simp only: distrib_right mult_1)
      then show False using \<open>0 \<le> ?W - qhat * ?V\<close> WV by linarith
    qed
    then have eq: "qhat = ?q" using qhat by linarith
    have "?W - ?q * ?V = mag low + ?N * t" using key by (simp only: eq)
    then have r: "mag low + ?N * t = ?W mod ?V" using WV(1) by linarith
    have "t = 0" by (rule last_digit_zero [OF lowb]) (use r WV V in linarith)+
    then show ?thesis
      using r step qhat q0 eq ms_eq(2) n(2) exact by (simp add: mag_append)
  next
    case True
    have "?N * t \<le> ?N * (-1)" using True by (intro mult_left_mono) simp_all
    then have "?W - qhat * ?V < 0" using key lowb(2) by linarith
    then have eq: "qhat = ?q + 1" using WV qhat by (cases "qhat = ?q") auto
    obtain low' cy where ab: "add_back_loop vn low 0 = (low', cy)" by fastforce
    have ab_eq: "mag low + ?V = mag low' + cy * ?N" "length low' = length vn"
      using add_back_loop_mag [OF ms_eq(2) ab] by simp_all
    have "?W - ?q * ?V = mag low + ?N * t + ?V" using key unfolding eq by (simp add: algebra_simps)
    moreover have "mag low' + ?N * (t + cy) = mag low + ?N * t + ?V"
      using ab_eq(1) by (simp add: algebra_simps)
    ultimately have r: "mag low' + ?N * (t + cy) = ?W mod ?V" using WV(1) by linarith
    have lowb': "0 \<le> mag low'" "mag low' < ?N" using mag_bound [of low'] ab_eq(2) by simp_all
    have tc: "t + cy = 0" by (rule last_digit_zero [OF lowb']) (use r WV V in linarith)+
    have "uint (limb (uint (limb t) + cy)) = 0"
      using tc by (simp add: mod_add_left_eq)
    then have z: "limb (uint (limb t) + cy) = 0" by (simp only: uint_0_iff)
    have "uint (limb ?q) = ?q" using q0 qhat eq by (intro limb_exact) linarith+
    then show ?thesis
      using True r tc step ab ab_eq(2) n(2) z by (simp add: eq mag_append del: uint_limb)
  qed
qed

section \<open>The loop\<close>

lemma mag_take_update:
  "j < length qs \<Longrightarrow> mag (take (Suc j) (qs[j := q])) = mag (take j qs) + base64 ^ j * uint q"
  by (simp add: take_Suc_conv_app_nth mag_append)

lemma knuth_loop_correct:
  assumes "2 \<le> length vn" "base64 \<le> 2 * uint (last vn)"
    and "length un = length vn + k" "j \<le> k" "j \<le> length quo" "mag (drop j un) < mag vn"
  shows "case knuth_loop vn j un quo of (un', quo') \<Rightarrow>
    mag un = mag un' + mag vn * mag (take j quo') \<and> mag un' < mag vn \<and>
    length un' = length un \<and> length quo' = length quo \<and> drop j quo' = drop j quo"
  using assms(3-6)
proof (induction j arbitrary: un quo)
  case 0
  then show ?case by simp
next
  case (Suc j)
  let ?n = "length vn" and ?V = "mag vn"
  define w where "w = take (?n + 1) (drop j un)"
  have lw: "length w = ?n + 1" using Suc.prems by (simp add: w_def)
  have j: "j < length un" using Suc.prems by simp
  define hi where "hi = drop (j + ?n + 1) un"
  have "drop j un = w @ drop (?n + 1) (drop j un)"
    unfolding w_def by (rule append_take_drop_id [symmetric])
  then have dj: "drop j un = w @ hi" by (simp add: hi_def ac_simps)
  then have parts: "un = take j un @ w @ hi" by (metis append_take_drop_id)
  have "w \<noteq> []" using lw by auto
  then have "drop (Suc j) un = tl w @ hi" using dj by (simp add: drop_Suc flip: tl_drop)
  then have hi_eq: "mag (drop (Suc j) un) = mag (tl w) + base64 ^ ?n * mag hi"
    using lw by (simp add: mag_append)
  have VN: "?V < base64 ^ ?n" by (rule mag_bound)
  have "mag hi = 0"
    by (rule last_digit_zero [of "mag (tl w)" "base64 ^ ?n"])
       (use hi_eq Suc.prems(4) VN mag_bound [of "tl w"] lw in \<open>auto simp del: power_Suc\<close>)
  then have tlw: "mag (tl w) < ?V" using hi_eq Suc.prems(4) by simp
  have "mag w = uint (hd w) + base64 * mag (tl w)" using lw by (cases w) auto
  moreover have "base64 * (mag (tl w) + 1) \<le> base64 * ?V" using tlw by (intro mult_left_mono) simp_all
  ultimately have less: "mag w < ?V * base64"
    using uint_range(2) [of "hd w"] unfolding distrib_left by linarith
  obtain q w' where st: "knuth_step vn w = (q, w')" by fastforce
  have q: "uint q = mag w div ?V" "mag w' = mag w mod ?V" "length w' = ?n + 1"
    using knuth_step_correct [OF assms(1) lw assms(2) less] st lw by simp_all
  have "0 \<le> mag (tl w)" by simp
  then have V0: "0 < ?V" using tlw by linarith
  define un1 where "un1 = take j un @ w' @ hi"
  have len1: "length un1 = length un" using q(3) lw parts by (metis length_append un1_def)
  have d1: "drop j un1 = w' @ hi" using j by (simp add: un1_def)
  have "mag (drop j un1) < ?V"
    using q(2) V0 by (simp add: d1 mag_append \<open>mag hi = 0\<close>)
  moreover have loop: "knuth_loop vn (Suc j) un quo = knuth_loop vn j un1 (quo[j := q])"
    using st by (simp add: Let_def w_def un1_def hi_def)
  ultimately obtain un' quo' where r: "knuth_loop vn (Suc j) un quo = (un', quo')"
      "mag un1 = mag un' + ?V * mag (take j quo')" "mag un' < ?V" "length un' = length un"
      "length quo' = length quo" "drop j quo' = drop j (quo[j := q])"
    using Suc.IH [of un1 "quo[j := q]"] Suc.prems len1 by (auto split: prod.splits)
  have "drop j quo' ! 0 = drop j (quo[j := q]) ! 0" "drop 1 (drop j quo') = drop 1 (drop j (quo[j := q]))"
    by (simp_all only: r(6))
  then have qj: "quo' ! j = q" "drop (Suc j) quo' = drop (Suc j) quo"
    using r(5) Suc.prems(3) by simp_all
  have "mag un = mag (take j un) + base64 ^ j * mag w"
    using arg_cong [OF parts, of mag] j by (simp add: mag_append \<open>mag hi = 0\<close>)
  moreover have "mag un1 = mag (take j un) + base64 ^ j * mag w'"
    using j by (simp add: un1_def mag_append \<open>mag hi = 0\<close>)
  moreover have "mag w = ?V * uint q + mag w'" using q by simp
  moreover have "mag (take (Suc j) quo') = mag (take j quo') + base64 ^ j * uint q"
    using r(5) Suc.prems(3) qj(1) by (simp add: take_Suc_conv_app_nth mag_append)
  ultimately have "mag un = mag un' + ?V * mag (take (Suc j) quo')"
    using r(2) by (simp add: algebra_simps)
  then show ?case using r qj(2) by simp
qed

section \<open>Shifts\<close>

lemma or_is_sum:
  assumes "0 \<le> (r :: int)" "r < 2 ^ s"
  shows "or (2 ^ s * q) r = 2 ^ s * q + r"
proof -
  have r: "take_bit s r = r" using assms by (simp add: take_bit_int_eq_self)
  have "and (push_bit s q) (take_bit s r) = 0"
    by (rule bit_eqI) (auto simp: bit_simps)
  then have "push_bit s q + r = or (push_bit s q) r" by (simp add: r disjunctive_add_eq_or)
  then show ?thesis by (simp add: push_bit_eq_mult mult.commute)
qed

lemma drop_bit_limb: "uint (drop_bit k (l :: u64)) = uint l div 2 ^ k"
proof -
  have "uint (drop_bit k l) = drop_bit k (take_bit LENGTH(64) (uint l))" by (rule unsigned_drop_bit_eq)
  also have "take_bit LENGTH(64) (uint l) = uint l" by (simp add: take_bit_int_eq_self)
  finally show ?thesis by (simp only: drop_bit_eq_div)
qed

lemma shift_left_limb:
  assumes "s < 64"
  shows "uint (if s \<noteq> 0 then or (push_bit s x) (drop_bit (64 - s) l) else push_bit s x)
    = 2 ^ s * (uint x mod 2 ^ (64 - s)) + uint (l :: u64) div 2 ^ (64 - s)"
proof (cases "s = 0")
  case True
  then show ?thesis by simp
next
  case False
  have "take_bit 64 (push_bit s (uint x)) = push_bit s (take_bit (64 - s) (uint x))"
    by (simp add: take_bit_push_bit)
  moreover have "uint (push_bit s x) = take_bit 64 (push_bit s (uint x))"
    using unsigned_push_bit_eq [of s x, where ?'a = int] by simp
  ultimately have p: "uint (push_bit s x) = 2 ^ s * (uint x mod 2 ^ (64 - s))"
    by (simp only: push_bit_eq_mult take_bit_eq_mod mult.commute)
  have d: "uint (drop_bit (64 - s) l) = uint l div 2 ^ (64 - s)"
    by (rule drop_bit_limb)
  have "uint l < 2 ^ (64 - s) * 2 ^ s"
    using uint_range(2) [of l] assms by (simp flip: power_add)
  then have "uint l div 2 ^ (64 - s) < 2 ^ s" by (intro int_div_less) simp_all
  then show ?thesis
    using False or_is_sum [of "uint l div 2 ^ (64 - s)" s] by (simp add: unsigned_or_eq p d pos_imp_zdiv_nonneg_iff)
qed

lemma shift_right_limb:
  assumes "s < 64"
  shows "uint (if s \<noteq> 0 then or (drop_bit s x) (push_bit (64 - s) y) else drop_bit s x)
    = uint x div 2 ^ s + 2 ^ (64 - s) * (uint (y :: u64) mod 2 ^ s)"
proof (cases "s = 0")
  case True
  then show ?thesis by simp
next
  case False
  then show ?thesis
    using shift_left_limb [of "64 - s" y x] assms by (simp add: or.commute add.commute)
qed

lemma shift_up_mag:
  "s < 64 \<Longrightarrow> mag (shift_up s l xs) + base64 ^ length xs * (uint (last (l # xs)) div 2 ^ (64 - s))
     = 2 ^ s * mag xs + uint l div 2 ^ (64 - s)"
proof (induction s l xs rule: shift_up.induct)
  case (1 s l x xs)
  have B: "base64 = 2 ^ s * 2 ^ (64 - s)" using 1(2) by (simp flip: power_add)
  have "2 ^ s * (uint x mod 2 ^ (64 - s)) + base64 * (uint x div 2 ^ (64 - s)) = 2 ^ s * uint x"
    unfolding B by (simp only: mult.assoc flip: distrib_left) simp
  with 1 shift_left_limb [OF 1(2), of x l] show ?case
    by (simp add: algebra_simps)
next
  case (2 s l)
  then show ?case by simp
qed

lemma shift_up_Nil_iff [simp]: "shift_up s l xs = [] \<longleftrightarrow> xs = []"
  by (cases xs) simp_all

lemma length_shift_up [simp]: "length (shift_up s l xs) = length xs"
  by (induction s l xs rule: shift_up.induct) simp_all

lemma shift_step:
  fixes P M ym W N lm L x xm B :: int
  assumes "P * M + ym = W + N * lm" "P * L = x - xm + B * ym"
  shows "P * (L + B * M) + xm = x + B * W + B * N * lm"
proof -
  have "P * (L + B * M) = P * L + B * (P * M)" by (simp add: algebra_simps)
  moreover have "P * M = W + N * lm - ym" using assms(1) by linarith
  ultimately have "P * (L + B * M) = (x - xm + B * ym) + B * (W + N * lm - ym)"
    by (simp only: assms(2))
  then show ?thesis by (simp add: algebra_simps)
qed

lemma shift_down_mag:
  "s < 64 \<Longrightarrow> 2 ^ s * mag (shift_down s (x # ys)) + uint x mod 2 ^ s
     = mag (butlast (x # ys)) + base64 ^ length ys * (uint (last (x # ys)) mod 2 ^ s)"
proof (induction ys arbitrary: x)
  case Nil
  then show ?case by simp
next
  case (Cons y ys)
  have B: "base64 = 2 ^ s * 2 ^ (64 - s)" using Cons.prems by (simp flip: power_add)
  have "2 ^ s * (uint x div 2 ^ s + 2 ^ (64 - s) * (uint y mod 2 ^ s)) = uint x - uint x mod 2 ^ s + base64 * (uint y mod 2 ^ s)"
    unfolding B by (simp add: algebra_simps minus_mod_eq_mult_div)
  then have "2 ^ s * uint (hd (shift_down s (x # y # ys))) = uint x - uint x mod 2 ^ s + base64 * (uint y mod 2 ^ s)"
    using shift_right_limb [OF Cons.prems, of x y] by simp
  from shift_step [OF Cons.IH [OF Cons.prems, of y] this] show ?case by simp
qed

lemma countl_zero_spec:
  assumes "x \<noteq> 0"
  shows "countl_zero x < 64" "uint x < 2 ^ (64 - countl_zero x)" "2 ^ 63 \<le> 2 ^ countl_zero x * uint x"
proof -
  let ?bits = "map (\<lambda>i. bit x (63 - i)) [0..<64]"
  define s where "s = countl_zero x"
  have le: "s \<le> 64" using length_takeWhile_le [of Not ?bits] by (simp add: s_def countl_zero_def)
  have zero: "\<not> bit x (63 - i)" if "i < s" for i
    using that le takeWhile_nth [of i Not ?bits] nth_mem [of i "takeWhile Not ?bits"] set_takeWhileD [of _ Not ?bits]
    by (fastforce simp: s_def countl_zero_def)
  have high: "\<not> bit x k" if "64 - s \<le> k" for k
  proof (cases "k < 64")
    case True
    then show ?thesis using zero [of "63 - k"] that le by simp
  next
    case False
    then show ?thesis using bit_imp_le_length [of x k] by auto
  qed
  have below: "bit x k \<Longrightarrow> k < 64 - s" for k using high [of k] by (meson not_le_imp_less)
  have "uint x = take_bit (64 - s) (uint x)"
    by (rule bit_eqI) (auto simp: bit_simps bit_uint_iff dest: below)
  then show lt: "uint x < 2 ^ (64 - countl_zero x)"
    by (metis s_def take_bit_int_less_exp)
  have "s \<noteq> 64"
  proof
    assume "s = 64"
    then have "uint x < 1" using lt by (simp add: s_def)
    then have "uint x = 0" using uint_range(1) [of x] by linarith
    then show False using assms by (simp only: uint_0_iff)
  qed
  then show s64: "countl_zero x < 64" using le by (simp add: s_def)
  have "\<not> Not (?bits ! s)"
    using nth_length_takeWhile [of Not ?bits] s64 by (simp add: s_def countl_zero_def)
  then have b: "bit x (63 - s)" using s64 by (simp add: s_def)
  then have "bit (uint x) (63 - s)" by (simp add: bit_uint_iff bit_imp_le_length)
  then have "uint x div 2 ^ (63 - s) \<noteq> 0" by (auto simp: bit_iff_odd)
  then have "\<not> uint x < 2 ^ (63 - s)" using uint_range(1) [of x] by (auto simp: div_pos_pos_trivial simp del: uint_range)
  then have "2 ^ s * 2 ^ (63 - s) \<le> 2 ^ s * uint x" by (intro mult_left_mono) simp_all
  then show "2 ^ 63 \<le> 2 ^ countl_zero x * uint x"
    using s64 by (simp add: s_def flip: power_add)
qed

section \<open>Division\<close>

lemma shifted_divisor:
  assumes "b \<noteq> []" "last b \<noteq> 0"
  shows "mag (shift_up (countl_zero (last b)) 0 b) = 2 ^ countl_zero (last b) * mag b"
    and "base64 \<le> 2 * uint (last (shift_up (countl_zero (last b)) 0 b))"
proof -
  let ?s = "countl_zero (last b)"
  note z = countl_zero_spec [OF assms(2)]
  have "uint (last b) div 2 ^ (64 - ?s) = 0" using z(2) by (simp add: div_pos_pos_trivial)
  then show "mag (shift_up ?s 0 b) = 2 ^ ?s * mag b"
    using shift_up_mag [OF z(1), of 0 b] assms(1) by simp
  obtain ls x where b: "b = ls @ [x]" using assms(1) by (metis append_butlast_last_id)
  have up: "\<exists>l. last (shift_up t k (ls @ [x])) =
      (if t \<noteq> 0 then or (push_bit t x) (drop_bit (64 - t) l) else push_bit t x)" for t k
    by (induction t k ls rule: shift_up.induct) auto
  obtain l where l0: "last (shift_up ?s 0 b) =
      (if ?s \<noteq> 0 then or (push_bit ?s x) (drop_bit (64 - ?s) l) else push_bit ?s x)"
    using up [of ?s 0, folded b] by blast
  have l: "uint (last (shift_up ?s 0 b)) = 2 ^ ?s * (uint x mod 2 ^ (64 - ?s)) + uint l div 2 ^ (64 - ?s)"
    unfolding l0 by (rule shift_left_limb [OF z(1)])
  have "uint x mod 2 ^ (64 - ?s) = uint x" using z(2) by (simp add: b)
  moreover have "0 \<le> uint l div 2 ^ (64 - ?s)" by (simp add: pos_imp_zdiv_nonneg_iff)
  ultimately have "2 ^ 63 \<le> uint (last (shift_up ?s 0 b))" using l z(3) by (simp add: b)
  then show "base64 \<le> 2 * uint (last (shift_up ?s 0 b))" by simp
qed

lemma top_part_less:
  assumes "s < 64" "base64 \<le> 2 * uint (last vn)" "vn \<noteq> []" "length xs + 1 = length vn" "uint t < 2 ^ s"
  shows "mag (xs @ [t]) < mag vn"
proof -
  let ?P = "base64 ^ length xs"
  have "vn = butlast vn @ [last vn]" using assms(3) by simp
  then have V: "mag vn = mag (butlast vn) + ?P * uint (last vn)"
    using mag_append [of "butlast vn" "[last vn]"] assms(4) [symmetric] by simp
  have "(2 :: int) ^ s \<le> 2 ^ 63" using assms(1) by (intro power_increasing) simp_all
  then have "uint t + 1 \<le> uint (last vn)" using assms(2,5) by simp
  then have "?P * (uint t + 1) \<le> ?P * uint (last vn)" by (intro mult_left_mono) simp_all
  moreover have "mag (xs @ [t]) < ?P * (uint t + 1)"
    using mag_bound [of xs] by (simp add: mag_append distrib_left)
  ultimately show ?thesis using V mag_nonneg [of "butlast vn"] by linarith
qed

lemma remainder_part:
  assumes s: "s < 64" and len: "n < length un" and small: "mag un < base64 ^ n"
    and scaled: "mag un = 2 ^ s * r" "0 < n"
  shows "mag (shift_down s (take (n + 1) un)) = r"
proof -
  have split: "mag un = mag (take n un) + base64 ^ n * mag (drop n un)"
    using mag_append [of "take n un" "drop n un"] len by simp
  have "mag (drop n un) = 0"
    using small split mag_bound [of "take n un"] mag_nonneg [of un] len
    by (intro last_digit_zero [of "mag (take n un)" "base64 ^ n"]) auto
  moreover have "un ! n \<in> set (drop n un)" using len by (metis Cons_nth_drop_Suc list.set_intros(1))
  ultimately have un: "mag un = mag (take n un)" "un ! n = 0"
    using split by (auto simp: mag_zero_iff)
  obtain x ys where w: "take (n + 1) un = x # ys" using len by (cases un) auto
  have parts: "take (n + 1) un = take n un @ [0]" using len un(2) by (simp add: take_Suc_conv_app_nth)
  have e: "butlast (x # ys) = take n un" "last (x # ys) = 0"
    unfolding w [symmetric] parts by simp_all
  have eq: "2 ^ s * mag (shift_down s (x # ys)) + uint x mod 2 ^ s = 2 ^ s * r"
    using shift_down_mag [OF s, of x ys] un(1) scaled(1) unfolding e by simp
  then have "uint x mod 2 ^ s = 2 ^ s * (r - mag (shift_down s (x # ys)))" by (simp add: algebra_simps)
  then have "2 ^ s dvd uint x mod 2 ^ s" by simp
  then have "uint x mod 2 ^ s = 0" by (simp add: mod_0_imp_dvd dvd_mod_iff)
  then show ?thesis using eq w by simp
qed

theorem divModMagnitude_correct:
  assumes "trimmed a" "trimmed b" "b \<noteq> []"
  shows "mag (fst (divModMagnitude a b)) = mag a div mag b \<and> mag (snd (divModMagnitude a b)) = mag a mod mag b \<and>
    trimmed (fst (divModMagnitude a b)) \<and> trimmed (snd (divModMagnitude a b))"
proof (cases "mag a < mag b")
  case True
  then show ?thesis
    using assms compareMagnitude_sign [OF assms(1,2)]
    by (simp add: divModMagnitude_def div_pos_pos_trivial trimmed_def [of "[]"])
next
  case False
  then have cmp: "\<not> compareMagnitude a b < 0"
    using compareMagnitude_sign [OF assms(1,2)] by (simp add: sgn_if)
  have lb: "last b \<noteq> 0" using assms(2,3) by (simp add: trimmed_def)
  show ?thesis
  proof (cases "length b = 1")
    case True
    then obtain d where b: "b = [d]" by (auto simp: length_Suc_conv)
    then show ?thesis using cmp lb shortDivMod_correct [of d a] by (simp add: divModMagnitude_def)
  next
    case long: False
    let ?n = "length b" and ?s = "countl_zero (last b)"
    define m where "m = length a - ?n"
    have n2: "2 \<le> ?n" using long assms(3) by (cases b) (auto simp: Suc_le_eq)
    have "\<not> length a < ?n" using mag_shorter [OF assms(2), of a] False by auto
    then have la: "length a = ?n + m" by (simp add: m_def)
    then have a: "a \<noteq> []" using n2 by auto
    note z = countl_zero_spec [OF lb]
    define vn where "vn = shift_up ?s 0 b"
    define t where "t = (if ?s \<noteq> 0 then drop_bit (64 - ?s) (last a) else 0)"
    define un where "un = shift_up ?s 0 a @ [t]"
    have vn: "mag vn = 2 ^ ?s * mag b" "base64 \<le> 2 * uint (last vn)" "length vn = ?n"
      using shifted_divisor [OF assms(3) lb] by (simp_all add: vn_def)
    have ut: "uint t = uint (last a) div 2 ^ (64 - ?s)"
      using drop_bit_limb [of "64 - ?s" "last a"] by (simp only: t_def) (simp add: div_pos_pos_trivial)
    have un: "mag un = 2 ^ ?s * mag a"
      using shift_up_mag [OF z(1), of 0 a] a by (simp add: un_def mag_append ut)
    have lun: "length un = length vn + (m + 1)" by (simp add: un_def vn(3) la)
    have "uint (last a) < 2 ^ (64 - ?s) * 2 ^ ?s"
      using uint_range(2) [of "last a"] z(1) by (simp flip: power_add)
    then have t_less: "uint t < 2 ^ ?s" unfolding ut by (intro int_div_less) simp_all
    have "mag (drop (m + 1) un) < mag vn"
    proof -
      have "drop (m + 1) un = drop (m + 1) (shift_up ?s 0 a) @ [t]" using la n2 by (simp add: un_def)
      then show ?thesis
        using top_part_less [OF z(1) vn(2) _ _ t_less, of "drop (m + 1) (shift_up ?s 0 a)"] vn(3) la n2
        by (simp add: assms(3)) (metis length_0_conv not_numeral_le_zero vn(3))
    qed
    then obtain un' quo where r: "knuth_loop vn (m + 1) un (replicate (m + 1) 0) = (un', quo)"
        "mag un = mag un' + mag vn * mag (take (m + 1) quo)" "mag un' < mag vn" "length un' = length un"
        "length quo = m + 1"
      using knuth_loop_correct [OF _ vn(2) lun, of "m + 1" "replicate (m + 1) 0"] n2 vn(3)
      by (auto split: prod.splits)
    have Q: "take (m + 1) quo = quo" using r(5) by simp
    define R where "R = mag a - mag b * mag quo"
    have scaled: "mag un' = 2 ^ ?s * R" using r(2) un vn(1) Q by (simp add: R_def algebra_simps)
    have "0 \<le> 2 ^ ?s * R" "2 ^ ?s * R < 2 ^ ?s * mag b"
      using r(3) scaled vn(1) mag_nonneg [of un'] by simp_all
    then have R: "0 \<le> R" "R < mag b" by (simp_all add: zero_le_mult_iff)
    have "mag a = mag quo * mag b + R" by (simp add: R_def)
    then have dm: "mag a div mag b = mag quo" "mag a mod mag b = R"
      using R by (simp_all add: div_pos_pos_trivial)
    have "mag (shift_down ?s (take (?n + 1) un')) = R"
      using z(1) n2 mag_bound [of vn] r(3,4) lun vn(3) scaled assms(3)
      by (intro remainder_part) simp_all
    moreover have "divModMagnitude a b =
        (drop_high_zeros quo, drop_high_zeros (shift_down ?s (take (?n + 1) un')))"
      using cmp long
      unfolding divModMagnitude_def Let_def m_def [symmetric] vn_def [symmetric] t_def [symmetric]
        un_def [symmetric] r(1) by simp
    ultimately show ?thesis using dm by simp
  qed
qed

end
