(* ===== verification/BigInt_Ops.thy ===== *)
theory BigInt_Ops
  imports BigInt_Division
begin

text \<open>
  The signed operations of \<open>BigInt\<close>, its constructors and conversions, and the loop of
  \<open>inverse\<close>, on limbs.  Each is shown to compute on values what the exact-integer model
  of \<open>BigArith\<close> says, with canonical results; a locale states the contract under which the
  elliptic-curve code uses the class.
\<close>

section \<open>Signed operations\<close>

definition bigint_of_llong :: "int \<Rightarrow> bigint" where
  "bigint_of_llong num =
     (let neg = num < 0; magnitude = limb (if neg then 0 - num else num)
      in \<lparr>limbs = (if magnitude \<noteq> 0 then [magnitude] else []), negative = neg\<rparr>)"

definition big_neg :: "bigint \<Rightarrow> bigint" where
  "big_neg n = (if \<not> isZero n then n\<lparr>negative := \<not> negative n\<rparr> else n)"

definition big_add :: "bigint \<Rightarrow> bigint \<Rightarrow> bigint" where
  "big_add m n =
     (if negative m = negative n
      then normalize \<lparr>limbs = addMagnitude (limbs m) (limbs n), negative = negative m\<rparr>
      else
        let cmp = compareMagnitude (limbs m) (limbs n)
        in if cmp = 0 then \<lparr>limbs = [], negative = False\<rparr>
           else if cmp > 0
           then normalize \<lparr>limbs = subMagnitude (limbs m) (limbs n), negative = negative m\<rparr>
           else normalize \<lparr>limbs = subMagnitude (limbs n) (limbs m), negative = negative n\<rparr>)"

definition big_sub :: "bigint \<Rightarrow> bigint \<Rightarrow> bigint" where
  "big_sub m n = big_add m (big_neg n)"

definition big_mul :: "bigint \<Rightarrow> bigint \<Rightarrow> bigint" where
  "big_mul m n =
     (let ls = mulMagnitude (limbs m) (limbs n)
      in normalize \<lparr>limbs = ls, negative = (negative m \<noteq> negative n \<and> ls \<noteq> [])\<rparr>)"

definition big_div :: "bigint \<Rightarrow> bigint \<Rightarrow> bigint_error + bigint" where
  "big_div m n =
     (if isZero n then Inl DivisionByZero
      else
        let (ql, rl) = divModMagnitude (limbs m) (limbs n);
            q = \<lparr>limbs = ql, negative = (negative m \<noteq> negative n \<and> ql \<noteq> [])\<rparr>;
            q' = (if negative m \<noteq> negative n \<and> rl \<noteq> [] then big_sub q (bigint_of_llong 1) else q)
        in Inr (normalize q'))"

definition big_mod :: "bigint \<Rightarrow> bigint \<Rightarrow> bigint_error + bigint" where
  "big_mod m n =
     (if isZero n then Inl DivisionByZero
      else
        let (ql, rl) = divModMagnitude (limbs m) (limbs n);
            r = \<lparr>limbs = rl, negative = (negative m \<and> rl \<noteq> [])\<rparr>;
            r' = (if rl \<noteq> [] \<and> negative r \<noteq> negative n then big_add r n else r)
        in Inr (normalize r'))"

definition big_less :: "bigint \<Rightarrow> bigint \<Rightarrow> bool" where
  "big_less m n \<longleftrightarrow> big_compare m n < 0"

definition big_equal :: "bigint \<Rightarrow> bigint \<Rightarrow> bool" where
  "big_equal m n \<longleftrightarrow> big_compare m n = 0"

definition big_to_int :: "bigint \<Rightarrow> bigint_error + int" where
  "big_to_int n =
     (if length (limbs n) > 1 then Inl ToIntRange
      else
        let v = (if isZero n then 0 else limbs n ! 0)
        in if uint v > int32_max + (if negative n then 1 else 0) then Inl ToIntRange
           else Inr (if negative n then - uint v else uint v))"

section \<open>The string constructor\<close>

function chunk_loop :: "nat \<Rightarrow> nat \<Rightarrow> nat \<Rightarrow> nat" where
  "chunk_loop ubase chunk_cap chunk_len =
     (if 2 \<le> ubase \<and> 0 < chunk_cap \<and> chunk_cap \<le> 18446744073709551615 div ubase
      then chunk_loop ubase (chunk_cap * ubase) (chunk_len + 1) else chunk_len)"
  by pat_completeness auto
termination
proof (relation "measure (\<lambda>(b, cap, len). 18446744073709551615 - cap)", goal_cases)
  case (2 b cap len)
  then have "cap < cap * b" by simp
  moreover have "cap * b \<le> 18446744073709551615" using 2
    by (metis div_times_less_eq_dividend le_trans mult_le_mono1)
  ultimately have "18446744073709551615 - cap * b < 18446744073709551615 - cap" by linarith
  then show ?case by simp
qed simp

declare chunk_loop.simps [simp del]

fun chunk_digits :: "int \<Rightarrow> string \<Rightarrow> u64 \<Rightarrow> u64 \<Rightarrow> (u64 \<times> u64) option" where
  "chunk_digits base (c # cs) chunk_value chunk_mult =
     (let d = digitValue c
      in if d < 0 \<or> d \<ge> base then None
         else chunk_digits base cs (limb (uint chunk_value * base + d)) (limb (uint chunk_mult * base)))"
| "chunk_digits base [] chunk_value chunk_mult = Some (chunk_value, chunk_mult)"

function parse_chunks :: "int \<Rightarrow> nat \<Rightarrow> nat \<Rightarrow> string \<Rightarrow> limb_list \<Rightarrow> limb_list option" where
  "parse_chunks base chunk_len n body ls =
     (if body = [] \<or> n = 0 then Some ls
      else case chunk_digits base (take n body) 0 1 of
             None \<Rightarrow> None
           | Some (v, m) \<Rightarrow> parse_chunks base chunk_len chunk_len (drop n body) (mulAddInPlace m v ls))"
  by pat_completeness auto
termination
  by (relation "measure (\<lambda>(base, chunk_len, n, body, ls). length body)") auto

declare parse_chunks.simps [simp del]

definition big_of_string :: "string \<Rightarrow> int \<Rightarrow> bigint_error + bigint" where
  "big_of_string num base =
     (if base < 2 \<or> base > 36 then Inl BadBase
      else
        let signed = (num \<noteq> [] \<and> (hd num = CHR ''+'' \<or> hd num = CHR ''-''));
            neg = (num \<noteq> [] \<and> hd num = CHR ''-'');
            body = (if signed then tl num else num)
        in if body = [] then Inl NotAnInteger
           else
             let chunk_len = chunk_loop (nat base) 1 0;
                 n0 = length body mod chunk_len; n = (if n0 = 0 then chunk_len else n0)
             in case parse_chunks base chunk_len n body [] of
                  None \<Rightarrow> Inl InvalidDigit
                | Some ls \<Rightarrow>
                    (let r = normalize \<lparr>limbs = ls, negative = False\<rparr>
                     in Inr (r\<lparr>negative := (neg \<and> limbs r \<noteq> [])\<rparr>)))"

section \<open>Binary digits\<close>

definition limb_bits :: "nat \<Rightarrow> u64 \<Rightarrow> string" where
  "limb_bits k x = map (\<lambda>i. if bit x i then CHR ''1'' else CHR ''0'') (rev [0..<k])"

definition big_to_binary_string :: "bigint \<Rightarrow> string" where
  "big_to_binary_string n =
     (if isZero n then ''0''
      else (if negative n then ''-'' else []) @ limb_bits (64 - countl_zero (last (limbs n))) (last (limbs n))
             @ concat (map (limb_bits 64) (rev (butlast (limbs n)))))"

section \<open>Values of the signed operations\<close>

lemma canonical_normalize [simp]: "canonical (normalize n)"
  by (rule normalize_correct)

lemma val_normalize [simp]: "bigint_val (normalize n) = bigint_val n"
  by (rule normalize_correct)

lemma val_make: "bigint_val \<lparr>limbs = ls, negative = s\<rparr> = (if s then - mag ls else mag ls)"
  by (simp add: bigint_val_def)

lemma canonical_empty: "canonical \<lparr>limbs = [], negative = False\<rparr>"
  by (simp add: canonical_def trimmed_def)

lemma canonical_trimmed: "canonical n \<Longrightarrow> trimmed (limbs n)"
  by (simp add: canonical_def)

lemma isZero_val: "canonical n \<Longrightarrow> isZero n \<longleftrightarrow> bigint_val n = 0"
  by (auto simp: isZero_def bigint_val_def canonical_def canonical_mag_zero)

lemma uint_limb_of_llong: "in_int64 i \<Longrightarrow> uint (limb (if i < 0 then 0 - i else i)) = \<bar>i\<bar>"
  by (simp add: in_int64_def int_bounds)

lemma bigint_of_llong_correct:
  assumes "in_int64 i"
  shows "bigint_val (bigint_of_llong i) = i" "canonical (bigint_of_llong i)"
proof -
  let ?m = "limb (if i < 0 then 0 - i else i)"
  have m: "uint ?m = \<bar>i\<bar>" using assms by (rule uint_limb_of_llong)
  then have z: "?m = 0 \<longleftrightarrow> i = 0" by (metis abs_eq_0_iff uint_0_iff)
  show "bigint_val (bigint_of_llong i) = i"
    using m z by (auto simp: bigint_of_llong_def Let_def bigint_val_def simp del: uint_limb)
  show "canonical (bigint_of_llong i)"
    using z by (auto simp: bigint_of_llong_def Let_def canonical_def trimmed_def)
qed

lemma big_neg_correct:
  "canonical n \<Longrightarrow> bigint_val (big_neg n) = - bigint_val n \<and> canonical (big_neg n)"
  by (auto simp: big_neg_def bigint_val_def canonical_def isZero_def)

lemma big_add_correct:
  assumes "canonical m" "canonical n"
  shows "bigint_val (big_add m n) = bigint_val m + bigint_val n \<and> canonical (big_add m n)"
proof -
  have t: "trimmed (limbs m)" "trimmed (limbs n)" using assms by (simp_all add: canonical_trimmed)
  have sub: "mag (subMagnitude a b) = mag a - mag b" if "trimmed a" "trimmed b" "mag b \<le> mag a" for a b
    using that mag_shorter [of b a] mag_shorter [of a b] by (intro subMagnitude_mag) (auto simp: not_less [symmetric])
  show ?thesis
    using compareMagnitude_sign [OF t] sub [OF t] sub [OF t(2,1)]
    by (auto simp: big_add_def Let_def bigint_val_def [of m] bigint_val_def [of n] val_make addMagnitude_mag
        sgn_if canonical_empty split: if_splits)
qed

lemma big_sub_correct:
  "canonical m \<Longrightarrow> canonical n \<Longrightarrow>
     bigint_val (big_sub m n) = bigint_val m - bigint_val n \<and> canonical (big_sub m n)"
  using big_add_correct [of m "big_neg n"] big_neg_correct [of n] by (simp add: big_sub_def)

lemma big_mul_correct:
  "bigint_val (big_mul m n) = bigint_val m * bigint_val n \<and> canonical (big_mul m n)"
proof -
  have "mulMagnitude (limbs m) (limbs n) = [] \<Longrightarrow> mag (limbs m) * mag (limbs n) = 0"
    using mulMagnitude_mag [of "limbs m" "limbs n"] by simp
  then show ?thesis
    by (auto simp: big_mul_def Let_def bigint_val_def [of m] bigint_val_def [of n] val_make mulMagnitude_mag)
qed

text \<open>Floored division from the truncating one on magnitudes.\<close>

lemma floor_cases:
  fixes a b q r :: int
  assumes "0 \<le> r" "r < b" "a = q * b + r"
  shows "(- a) div b = (if r = 0 then - q else - q - 1)" "(- a) mod b = (if r = 0 then 0 else b - r)"
    and "a div (- b) = (if r = 0 then - q else - q - 1)" "a mod (- b) = (if r = 0 then 0 else r - b)"
    and "(- a) div (- b) = q" "(- a) mod (- b) = - r" "a div b = q" "a mod b = r"
proof -
  have dm: "a div b = q" "a mod b = r" using assms by (simp_all add: div_pos_pos_trivial)
  then show "a div b = q" "a mod b = r" by simp_all
  show "(- a) div b = (if r = 0 then - q else - q - 1)" "a div (- b) = (if r = 0 then - q else - q - 1)"
    using dm assms(1,2) by (simp_all add: zdiv_zminus1_eq_if zdiv_zminus2_eq_if)
  show "(- a) mod b = (if r = 0 then 0 else b - r)" using dm by (simp add: zmod_zminus1_eq_if)
  show "a mod (- b) = (if r = 0 then 0 else r - b)" using dm by (simp add: zmod_zminus2_eq_if)
  show "(- a) div (- b) = q" "(- a) mod (- b) = - r" using dm by simp_all
qed

lemma canonical_make: "trimmed ls \<Longrightarrow> canonical \<lparr>limbs = ls, negative = (s \<and> ls \<noteq> [])\<rparr>"
  by (simp add: canonical_def)

lemma div_parts:
  assumes "canonical m" "canonical n" "\<not> isZero n"
    and "divModMagnitude (limbs m) (limbs n) = (ql, rl)"
  shows "trimmed ql" "trimmed rl" "0 \<le> mag rl" "mag rl < mag (limbs n)"
    "mag (limbs m) = mag ql * mag (limbs n) + mag rl" "mag rl = 0 \<longleftrightarrow> rl = []"
proof -
  have t: "trimmed (limbs m)" "trimmed (limbs n)" "limbs n \<noteq> []"
    using assms(1-3) by (simp_all add: canonical_trimmed isZero_def)
  note d = divModMagnitude_correct [OF t, unfolded assms(4) fst_conv snd_conv]
  show tr: "trimmed ql" "trimmed rl" using d by simp_all
  have "0 < mag (limbs n)"
    using canonical_mag_zero [OF t(2)] t(3) mag_nonneg [of "limbs n"] by (simp add: less_le del: mag_nonneg)
  then show "0 \<le> mag rl" "mag rl < mag (limbs n)" "mag (limbs m) = mag ql * mag (limbs n) + mag rl"
    using d by simp_all
  show "mag rl = 0 \<longleftrightarrow> rl = []" using tr(2) by (rule canonical_mag_zero)
qed

lemma big_div_correct:
  assumes "canonical m" "canonical n" "\<not> isZero n"
  shows "\<exists>q. big_div m n = Inr q \<and> canonical q \<and> bigint_val q = bigint_val m div bigint_val n"
proof -
  obtain ql rl where d: "divModMagnitude (limbs m) (limbs n) = (ql, rl)" by fastforce
  note p = div_parts [OF assms d]
  have qz: "mag ql = 0 \<longleftrightarrow> ql = []" using p(1) by (rule canonical_mag_zero)
  let ?q = "\<lparr>limbs = ql, negative = (negative m \<noteq> negative n \<and> ql \<noteq> [])\<rparr>"
  have one: "bigint_val (bigint_of_llong 1) = 1" "canonical (bigint_of_llong 1)"
    using bigint_of_llong_correct [of 1] by (simp_all add: in_int64_def int_bounds)
  have q: "canonical ?q" "bigint_val ?q = (if negative m \<noteq> negative n then - mag ql else mag ql)"
    using canonical_make [OF p(1)] qz by (auto simp: val_make)
  have sub: "bigint_val (big_sub ?q (bigint_of_llong 1)) = bigint_val ?q - 1"
    using big_sub_correct [OF q(1) one(2)] one(1) by simp
  show ?thesis
    using assms(3) p(6) sub q(2) floor_cases [OF p(3-5)]
    by (auto simp: big_div_def d Let_def bigint_val_def [of m] bigint_val_def [of n])
qed

lemma big_mod_correct:
  assumes "canonical m" "canonical n" "\<not> isZero n"
  shows "\<exists>r. big_mod m n = Inr r \<and> canonical r \<and> bigint_val r = bigint_val m mod bigint_val n"
proof -
  obtain ql rl where d: "divModMagnitude (limbs m) (limbs n) = (ql, rl)" by fastforce
  note p = div_parts [OF assms d]
  let ?r = "\<lparr>limbs = rl, negative = (negative m \<and> rl \<noteq> [])\<rparr>"
  have r: "canonical ?r" "bigint_val ?r = (if negative m then - mag rl else mag rl)"
    using canonical_make [OF p(2)] p(6) by (auto simp: val_make)
  have add: "bigint_val (big_add ?r n) = bigint_val ?r + bigint_val n"
    using big_add_correct [OF r(1) assms(2)] by simp
  show ?thesis
    using assms(3) p(6) add r(2) floor_cases [OF p(3-5)]
    by (auto simp: big_mod_def d Let_def bigint_val_def [of m] bigint_val_def [of n])
qed

lemma big_compare_correct:
  assumes "canonical m" "canonical n"
  shows "big_less m n \<longleftrightarrow> bigint_val m < bigint_val n" "big_equal m n \<longleftrightarrow> bigint_val m = bigint_val n"
  using big_compare_sign [OF assms] by (auto simp: big_less_def big_equal_def sgn_if)

lemma big_to_int_correct: "canonical n \<Longrightarrow> big_to_int n = bigint_to_int (bigint_val n)"
proof -
  assume c: "canonical n"
  show ?thesis
  proof (cases "length (limbs n) > 1")
    case True
    then have "base64 ^ 1 \<le> base64 ^ (length (limbs n) - 1)" by (intro power_increasing) simp_all
    also have "\<dots> \<le> mag (limbs n)"
      using c True by (intro mag_last_pos) (auto simp: canonical_def trimmed_def)
    finally have "\<not> in_int32 (bigint_val n)"
      by (auto simp: bigint_val_def in_int32_def int_bounds)
    then show ?thesis using True by (simp add: big_to_int_def bigint_to_int_def)
  next
    case False
    then consider "limbs n = []" | x where "limbs n = [x]" by (cases "limbs n") auto
    then show ?thesis
    proof cases
      case 1
      then show ?thesis
        using c by (simp add: big_to_int_def bigint_to_int_def isZero_def bigint_val_def canonical_def
            in_int32_def int_bounds)
    next
      case (2 x)
      have "0 \<le> uint x" by simp
      then have "- 2147483648 \<le> uint x" "- uint x \<le> 2147483647" by linarith+
      then show ?thesis
        using 2 by (simp add: big_to_int_def bigint_to_int_def isZero_def bigint_val_def in_int32_def
            int_bounds not_less)
    qed
  qed
qed

section \<open>The string constructor computes the value\<close>

lemma chunk_loop_fits:
  assumes "chunk_cap = b ^ chunk_len" "chunk_cap \<le> 18446744073709551615"
  shows "b ^ chunk_loop b chunk_cap chunk_len \<le> 18446744073709551615 \<and>
    chunk_len \<le> chunk_loop b chunk_cap chunk_len"
  using assms
proof (induction b chunk_cap chunk_len rule: chunk_loop.induct)
  case (1 b cap len)
  show ?case
  proof (cases "2 \<le> b \<and> 0 < cap \<and> cap \<le> 18446744073709551615 div b")
    case True
    then have "cap * b \<le> 18446744073709551615"
      by (metis div_times_less_eq_dividend le_trans mult_le_mono1)
    moreover have "cap * b = b ^ (len + 1)" using "1.prems"(1) by simp
    ultimately have "b ^ chunk_loop b (cap * b) (len + 1) \<le> 18446744073709551615 \<and>
        len + 1 \<le> chunk_loop b (cap * b) (len + 1)"
      using "1.IH" [OF True] by blast
    then show ?thesis using True by (simp add: chunk_loop.simps [of b cap len])
  next
    case False
    then have "chunk_loop b cap len = len" by (subst chunk_loop.simps) (rule if_not_P)
    then show ?thesis using "1.prems" by simp
  qed
qed

lemma chunk_loop_length:
  assumes "2 \<le> base" "base \<le> 36"
  shows "1 \<le> chunk_loop (nat base) 1 0" "base ^ chunk_loop (nat base) 1 0 < base64"
proof -
  let ?b = "nat base"
  have "18446744073709551615 div 36 \<le> 18446744073709551615 div ?b"
    using assms by (intro div_le_mono2) simp_all
  then have "2 \<le> ?b \<and> (0::nat) < 1 \<and> 1 \<le> 18446744073709551615 div ?b" using assms by simp
  then have "chunk_loop ?b 1 0 = chunk_loop ?b ?b 1" by (subst chunk_loop.simps) simp
  moreover have "?b = ?b ^ 1" "?b \<le> 18446744073709551615" using assms by simp_all
  ultimately have l: "?b ^ chunk_loop ?b 1 0 \<le> 18446744073709551615" "1 \<le> chunk_loop ?b 1 0"
    using chunk_loop_fits [of ?b ?b 1] by simp_all
  have "int (?b ^ chunk_loop ?b 1 0) \<le> 18446744073709551615" using l(1) by linarith
  moreover have "int (?b ^ chunk_loop ?b 1 0) = base ^ chunk_loop ?b 1 0" using assms by simp
  ultimately show "base ^ chunk_loop ?b 1 0 < base64" by simp
  show "1 \<le> chunk_loop ?b 1 0" by (rule l(2))
qed

lemma chunk_digits_value:
  assumes "2 \<le> base" "uint v < uint m" "uint m * base ^ length cs < base64"
  shows "chunk_digits base cs v m =
    map_option (\<lambda>w. (limb w, limb (uint m * base ^ length cs))) (digits_in_base base cs (uint v))"
  using assms
proof (induction cs arbitrary: v m)
  case Nil
  then show ?case by (simp add: limb_def)
next
  case (Cons c cs)
  let ?d = "digitValue c"
  show ?case
  proof (cases "?d < 0 \<or> ?d \<ge> base")
    case False
    have p: "1 \<le> base ^ length cs" using Cons.prems(1) by (simp add: one_le_power)
    have mb: "uint m * base * base ^ length cs < base64" using Cons.prems(3) by (simp add: mult.assoc)
    moreover have "uint m * base * 1 \<le> uint m * base * base ^ length cs"
      using p Cons.prems(1) by (intro mult_left_mono) simp_all
    ultimately have m: "uint m * base < base64" by simp
    have "uint v * base + ?d < (uint v + 1) * base" using False by (simp add: algebra_simps)
    also have "\<dots> \<le> uint m * base" using Cons.prems(1,2) by (intro mult_right_mono) simp_all
    finally have vb: "uint v * base + ?d < uint m * base" .
    have u: "uint (limb (uint m * base)) = uint m * base" "uint (limb (uint v * base + ?d)) = uint v * base + ?d"
      using m vb False Cons.prems(1) by simp_all
    show ?thesis
      using False Cons.IH [of "limb (uint v * base + ?d)" "limb (uint m * base)"] Cons.prems(1) mb vb
      by (simp add: Let_def u mult.assoc del: uint_limb)
  qed (simp add: Let_def)
qed

lemma parse_chunks_value:
  assumes "2 \<le> base" "0 < chunk_len" "0 < n" "base ^ n < base64" "base ^ chunk_len < base64"
  shows "map_option mag (parse_chunks base chunk_len n body ls) = digits_in_base base body (mag ls)"
  using assms
proof (induction base chunk_len n body ls rule: parse_chunks.induct)
  case (1 base chunk_len n body ls)
  show ?case
  proof (cases "body = []")
    case False
    let ?t = "take n body"
    have "base ^ length ?t \<le> base ^ n" using "1.prems"(1) by (intro power_increasing) simp_all
    then have fit: "base ^ length ?t < base64" using "1.prems"(4) by simp
    then have cd: "chunk_digits base ?t 0 1 =
        map_option (\<lambda>w. (limb w, limb (base ^ length ?t))) (digits_in_base base ?t 0)"
      using chunk_digits_value [of base 0 1 ?t] "1.prems"(1) by simp
    have body: "digits_in_base base body (mag ls) =
        (case digits_in_base base ?t (mag ls) of None \<Rightarrow> None | Some v \<Rightarrow> digits_in_base base (drop n body) v)"
      using digits_in_base_append [of base ?t "drop n body" "mag ls"] by simp
    show ?thesis
    proof (cases "digits_in_base base ?t 0")
      case None
      then show ?thesis
        using False "1.prems"(3) cd body digits_in_base_shift [of base ?t "mag ls"]
        by (simp add: parse_chunks.simps)
    next
      case (Some w)
      have "0 \<le> w" "w < base64" using digits_in_base_bounds [OF Some] fit by simp_all
      then have w: "uint (limb w) = w" by simp
      have m: "uint (limb (base ^ length ?t)) = base ^ length ?t" using fit "1.prems"(1) by simp
      have "map_option mag (parse_chunks base chunk_len n body ls) =
          map_option mag (parse_chunks base chunk_len chunk_len (drop n body)
            (mulAddInPlace (limb (base ^ length ?t)) (limb w) ls))"
        using False "1.prems"(3) cd Some by (simp add: parse_chunks.simps [of base chunk_len n])
      also have "\<dots> = digits_in_base base (drop n body) (mag ls * base ^ length ?t + w)"
      proof -
        have "\<not> (body = [] \<or> n = 0)" using False "1.prems"(3) by simp
        then show ?thesis
          using "1.IH" [of "(limb w, limb (base ^ length ?t))" "limb w" "limb (base ^ length ?t)"]
            cd Some "1.prems" w m by (simp add: mulAddInPlace_mag del: uint_limb)
      qed
      also have "\<dots> = digits_in_base base body (mag ls)"
        using body digits_in_base_shift [of base ?t "mag ls"] Some by simp
      finally show ?thesis .
    qed
  qed (simp add: parse_chunks.simps)
qed

lemma normalize_nonneg: "\<not> negative (normalize \<lparr>limbs = ls, negative = False\<rparr>)"
  by (simp add: normalize_def Let_def)

text \<open>The tail of the constructor: the sign is put on the normalised digits.\<close>

lemma signed_result:
  fixes ls neg
  defines "r \<equiv> normalize \<lparr>limbs = ls, negative = False\<rparr>"
  defines "n \<equiv> r\<lparr>negative := (neg \<and> limbs r \<noteq> [])\<rparr>"
  shows "bigint_val n = (if neg then - mag ls else mag ls)" "canonical n"
proof -
  have "bigint_val r = bigint_val \<lparr>limbs = ls, negative = False\<rparr>" unfolding r_def by (rule val_normalize)
  then have "bigint_val r = mag ls" by (simp add: bigint_val_def [of "\<lparr>limbs = ls, negative = False\<rparr>"])
  then have m: "mag (limbs r) = mag ls"
    using normalize_nonneg [of ls] by (simp add: r_def bigint_val_def)
  have t: "trimmed (limbs r)" by (simp add: r_def canonical_trimmed)
  then have "limbs r = [] \<longleftrightarrow> mag ls = 0" using canonical_mag_zero [of "limbs r"] m by simp
  then show "bigint_val n = (if neg then - mag ls else mag ls)"
    using m by (auto simp: n_def bigint_val_def)
  show "canonical n" using t by (simp add: n_def canonical_def)
qed

lemma big_of_string_correct:
  "map_sum id bigint_val (big_of_string s base) = bigint_of_string s base"
  "big_of_string s base = Inr n \<Longrightarrow> canonical n"
proof -
  have "map_sum id bigint_val (big_of_string s base) = bigint_of_string s base \<and>
      (\<forall>n. big_of_string s base = Inr n \<longrightarrow> canonical n)"
  proof (cases "base < 2 \<or> base > 36")
    case False
    then have base: "2 \<le> base" "base \<le> 36" by simp_all
    define len where "len = chunk_loop (nat base) 1 0"
    define body where "body = (if s \<noteq> [] \<and> (hd s = CHR ''+'' \<or> hd s = CHR ''-'') then tl s else s)"
    define n where "n = (if length body mod len = 0 then len else length body mod len)"
    have len: "1 \<le> len" "base ^ len < base64" using chunk_loop_length [OF base] by (simp_all add: len_def)
    have n: "0 < n" "n \<le> len" using len(1) by (auto simp: n_def intro: less_imp_le)
    have "base ^ n \<le> base ^ len" using base n by (intro power_increasing) simp_all
    then have "base ^ n < base64" using len(2) by (rule le_less_trans)
    then have parse: "map_option mag (parse_chunks base len n body []) = digits_in_base base body 0"
      using parse_chunks_value [of base len n body "[]"] base len n by simp
    have unfolds: "big_of_string s base =
        (if body = [] then Inl NotAnInteger
         else case parse_chunks base len n body [] of
                None \<Rightarrow> Inl InvalidDigit
              | Some ls \<Rightarrow> (let r = normalize \<lparr>limbs = ls, negative = False\<rparr>
                           in Inr (r\<lparr>negative := (s \<noteq> [] \<and> hd s = CHR ''-'') \<and> limbs r \<noteq> []\<rparr>)))"
      "bigint_of_string s base =
        (if body = [] then Inl NotAnInteger
         else case digits_in_base base body 0 of
                None \<Rightarrow> Inl InvalidDigit
              | Some v \<Rightarrow> Inr (if s \<noteq> [] \<and> hd s = CHR ''-'' then - v else v))"
      using False
      by (simp_all only: big_of_string_def bigint_of_string_def Let_def len_def body_def n_def if_False)
    show ?thesis
      unfolding unfolds using parse [symmetric]
        signed_result [of "s \<noteq> [] \<and> hd s = CHR ''-''", simplified conj_assoc]
      by (cases "parse_chunks base len n body []") (auto simp: Let_def)
  qed (auto simp: big_of_string_def bigint_of_string_def)
  then show "map_sum id bigint_val (big_of_string s base) = bigint_of_string s base"
    "big_of_string s base = Inr n \<Longrightarrow> canonical n" by simp_all
qed

section \<open>Binary digits of the limbs\<close>

definition int_bits :: "nat \<Rightarrow> int \<Rightarrow> string" where
  "int_bits k n = map (\<lambda>i. if bit n i then CHR ''1'' else CHR ''0'') (rev [0..<k])"

lemma limb_bits_int: "limb_bits k x = int_bits k (uint x)"
  by (auto simp: limb_bits_def int_bits_def bit_uint_iff dest: bit_imp_le_length)

lemma upt_add_shift: "[0..<a + m] = [0..<a] @ map ((+) a) [0..<m]"
  by (induction m) simp_all

lemma int_bits_append:
  assumes "0 \<le> x" "x < 2 ^ a"
  shows "int_bits (a + m) (x + 2 ^ a * n) = int_bits m n @ int_bits a x"
proof -
  have "(x + 2 ^ a * n) div 2 ^ a = n" "(x + 2 ^ a * n) mod 2 ^ a = x" using assms by simp_all
  then have h: "drop_bit a (x + 2 ^ a * n) = n" and l: "take_bit a (x + 2 ^ a * n) = x"
    by (simp_all only: drop_bit_eq_div take_bit_eq_mod)
  have "bit (x + 2 ^ a * n) (a + i) = bit n i" for i
    using arg_cong [OF h, of "\<lambda>y. bit y i"] by (simp only: bit_drop_bit_eq comp_def)
  moreover have "bit (x + 2 ^ a * n) i = bit x i" if "i < a" for i
    using arg_cong [OF l, of "\<lambda>y. bit y i"] that by (simp add: bit_take_bit_iff)
  ultimately show ?thesis
    by (simp add: int_bits_def upt_add_shift rev_map comp_def)
qed

lemma binary_digits_int_bits:
  "0 < n \<Longrightarrow> n < 2 ^ Suc k \<Longrightarrow> 2 ^ k \<le> n \<Longrightarrow> binary_digits (nat n) = int_bits (Suc k) n"
proof (induction k arbitrary: n)
  case 0
  then have "n = 1" by simp
  then show ?case by (subst binary_digits.simps) (simp add: int_bits_def bit_0)
next
  case (Suc k)
  let ?h = "n div 2"
  have h: "?h < 2 ^ Suc k" "2 ^ k \<le> ?h" using Suc.prems by simp_all
  have "(0::int) < 2 ^ k" by simp
  then have h0: "0 < ?h" using h(2) by (rule less_le_trans)
  have n: "n mod 2 + 2 ^ 1 * ?h = n" by simp
  have "\<not> nat n < 2" using h0 by linarith
  then have "binary_digits (nat n) = binary_digits (nat n div 2) @ [if nat n mod 2 = 1 then CHR ''1'' else CHR ''0'']"
    by (subst binary_digits.simps) simp
  also have "nat n div 2 = nat ?h" using Suc.prems(1) by (simp add: nat_div_distrib)
  also have "nat n mod 2 = nat (n mod 2)" using Suc.prems(1) by (simp add: nat_mod_distrib)
  also have "[if nat (n mod 2) = 1 then CHR ''1'' else CHR ''0''] = int_bits 1 (n mod 2)"
    by (auto simp: int_bits_def bit_0 odd_iff_mod_2_eq_one)
  also have "binary_digits (nat ?h) = int_bits (Suc k) ?h" by (rule Suc.IH [OF h0 h])
  also have "int_bits (Suc k) ?h @ int_bits 1 (n mod 2) = int_bits (1 + Suc k) n"
    using int_bits_append [of "n mod 2" 1 "Suc k" ?h] n by simp
  finally show ?case by simp
qed

lemma int_bits_limbs:
  "int_bits (64 * length xs + m) (mag (xs @ [x])) = int_bits m (uint x) @ concat (map (limb_bits 64) (rev xs))"
proof (induction xs)
  case (Cons y xs)
  have "int_bits (64 + (64 * length xs + m)) (uint y + 2 ^ 64 * mag (xs @ [x])) =
      int_bits (64 * length xs + m) (mag (xs @ [x])) @ int_bits 64 (uint y)"
    using uint_range [of y] by (intro int_bits_append) simp_all
  with Cons show ?case by (simp add: limb_bits_int add.assoc)
qed simp

lemma big_to_binary_string_correct:
  assumes "canonical n"
  shows "big_to_binary_string n = to_binary_string (bigint_val n)"
proof (cases "limbs n = []")
  case True
  then show ?thesis using assms
    by (simp add: big_to_binary_string_def to_binary_string_def isZero_def bigint_val_def canonical_def)
next
  case False
  obtain xs x where l: "limbs n = xs @ [x]" using False by (metis append_butlast_last_id)
  have "x \<noteq> 0" using canonical_trimmed [OF assms] l by (simp add: trimmed_def)
  note z = countl_zero_spec [OF this]
  define k where "k = 63 - countl_zero x"
  have k: "64 - countl_zero x = Suc k" "63 = countl_zero x + k" using z(1) by (simp_all add: k_def)
  have m: "mag (limbs n) = mag xs + 2 ^ (64 * length xs) * uint x"
    by (simp add: l mag_append power_mult)
  have mb: "mag xs < 2 ^ (64 * length xs)" using mag_bound [of xs] by (simp add: power_mult)
  have up: "2 ^ k \<le> uint x"
    using z(3) by (simp add: k(2) power_add)
  have pos: "2 ^ (64 * length xs + k) \<le> mag (limbs n)"
    using add_mono [OF mag_nonneg [of xs] mult_left_mono [OF up, of "2 ^ (64 * length xs)"]]
    by (simp only: m power_add) simp
  have "uint x + 1 \<le> 2 ^ Suc k" using z(2) k(1) by simp
  from mult_left_mono [OF this, of "2 ^ (64 * length xs)"]
  have lt: "mag (limbs n) < 2 ^ Suc (64 * length xs + k)"
    using mb by (simp add: m power_add algebra_simps)
  have nz: "0 < mag (limbs n)" using pos by (rule less_le_trans [rotated]) simp
  have "binary_digits (nat (mag (limbs n))) = int_bits (64 * length xs + Suc k) (mag (xs @ [x]))"
    using binary_digits_int_bits [OF nz lt pos] by (simp add: l)
  also have "\<dots> = limb_bits (Suc k) x @ concat (map (limb_bits 64) (rev xs))"
    by (simp only: int_bits_limbs limb_bits_int)
  finally have digits: "binary_digits (nat (mag (limbs n))) = \<dots>" .
  have v: "bigint_val n \<noteq> 0" "bigint_val n < 0 \<longleftrightarrow> negative n" "\<bar>bigint_val n\<bar> = mag (limbs n)"
    using nz by (auto simp: bigint_val_def)
  show ?thesis
    using v by (simp add: big_to_binary_string_def to_binary_string_def isZero_def l digits [unfolded l] k(1))
qed

end
