(* ===== verification/BigInt_Functions.thy ===== *)
theory BigInt_Functions
  imports BigInt_Ops
begin

text \<open>
  The free functions of \<open>bigint.h\<close> on limbs (\<open>abs\<close>, \<open>pow\<close>, \<open>squared\<close>,
  \<open>inverse\<close>) and the decimal printer.  They use the class only through its public operators, so
  their correctness is proved from the contract of those operators, stated as the locale
  \<open>exact_integer\<close> and interpreted on the limb-level operations.
\<close>

section \<open>The contract of the operators\<close>

locale exact_integer =
  fixes ok :: "'n \<Rightarrow> bool" and val :: "'n \<Rightarrow> int"
    and of_ll :: "int \<Rightarrow> 'n" and plus_n minus_n times_n :: "'n \<Rightarrow> 'n \<Rightarrow> 'n"
    and quot_n rem_n :: "'n \<Rightarrow> 'n \<Rightarrow> 'e + 'n" and less_n :: "'n \<Rightarrow> 'n \<Rightarrow> bool"
  assumes of_ll: "in_int64 i \<Longrightarrow> ok (of_ll i) \<and> val (of_ll i) = i"
    and plus: "ok x \<Longrightarrow> ok y \<Longrightarrow> ok (plus_n x y) \<and> val (plus_n x y) = val x + val y"
    and minus: "ok x \<Longrightarrow> ok y \<Longrightarrow> ok (minus_n x y) \<and> val (minus_n x y) = val x - val y"
    and times: "ok x \<Longrightarrow> ok y \<Longrightarrow> ok (times_n x y) \<and> val (times_n x y) = val x * val y"
    and quot: "ok x \<Longrightarrow> ok y \<Longrightarrow> val y \<noteq> 0 \<Longrightarrow> \<exists>q. quot_n x y = Inr q \<and> ok q \<and> val q = val x div val y"
    and remainder: "ok x \<Longrightarrow> ok y \<Longrightarrow> val y \<noteq> 0 \<Longrightarrow> \<exists>r. rem_n x y = Inr r \<and> ok r \<and> val r = val x mod val y"
    and less: "ok x \<Longrightarrow> ok y \<Longrightarrow> less_n x y \<longleftrightarrow> val x < val y"
begin

lemma small: "ok (of_ll 0)" "val (of_ll 0) = 0" "ok (of_ll 1)" "val (of_ll 1) = 1"
  using of_ll [of 0] of_ll [of 1] by (simp_all add: in_int64_def int_bounds)

text \<open>Quotient and remainder recombine, and the remainder by a positive number is below it.\<close>

lemma euclid_step:
  assumes "ok x" "ok y" "0 < val y"
  obtains q r where "quot_n x y = Inr q" "rem_n x y = Inr r" "ok q" "ok r"
    "val q = val x div val y" "val r = val x mod val y" "val x = val q * val y + val r"
    "0 \<le> val r" "val r < val y"
proof -
  have nz: "val y \<noteq> 0" using assms(3) by simp
  obtain q where q: "quot_n x y = Inr q" "ok q" "val q = val x div val y"
    using quot [OF assms(1,2) nz] by blast
  obtain r where r: "rem_n x y = Inr r" "ok r" "val r = val x mod val y"
    using remainder [OF assms(1,2) nz] by blast
  have "val x = val q * val y + val r" "0 \<le> val r" "val r < val y"
    by (simp_all only: q(3) r(3) div_mult_mod_eq pos_mod_sign [OF assms(3)] pos_mod_bound [OF assms(3)])
  with q r show thesis using that by blast
qed

text \<open>Equal values are neither less: the order decides equality of values.\<close>

lemma less_antisym: "ok x \<Longrightarrow> ok y \<Longrightarrow> \<not> less_n x y \<Longrightarrow> \<not> less_n y x \<Longrightarrow> val x = val y"
  by (simp add: less)

end

interpretation limbs: exact_integer canonical bigint_val bigint_of_llong big_add big_sub big_mul
  big_div big_mod big_less
proof
  show "\<exists>q. big_div x y = Inr q \<and> canonical q \<and> bigint_val q = bigint_val x div bigint_val y"
    if "canonical x" "canonical y" "bigint_val y \<noteq> 0" for x y
    using big_div_correct [OF that(1,2)] isZero_val [OF that(2)] that(3) by simp
  show "\<exists>r. big_mod x y = Inr r \<and> canonical r \<and> bigint_val r = bigint_val x mod bigint_val y"
    if "canonical x" "canonical y" "bigint_val y \<noteq> 0" for x y
    using big_mod_correct [OF that(1,2)] isZero_val [OF that(2)] that(3) by simp
qed (simp_all add: bigint_of_llong_correct big_add_correct big_sub_correct big_mul_correct
    big_compare_correct)

section \<open>Absolute value and powers\<close>

definition big_abs :: "bigint \<Rightarrow> bigint" where
  "big_abs n = (if big_less n (bigint_of_llong 0) then big_neg n else n)"

definition big_squared :: "bigint \<Rightarrow> bigint" where
  "big_squared b = big_mul b b"

function big_pow_loop :: "nat \<Rightarrow> bigint \<Rightarrow> bigint \<Rightarrow> bigint" where
  "big_pow_loop e result b =
     (if e = 0 then result
      else big_pow_loop (e div 2) (if odd e then big_mul result b else result)
             (if e div 2 \<noteq> 0 then big_mul b b else b))"
  by pat_completeness auto
termination
  by (relation "measure (\<lambda>(e, result, b). e)") auto

declare big_pow_loop.simps [simp del]

definition big_pow :: "bigint \<Rightarrow> int \<Rightarrow> bigint_error + bigint" where
  "big_pow base e =
     (if e < 0 then (if big_equal base (bigint_of_llong 0) then Inl DivisionByZero
                     else Inr (if big_equal (big_abs base) (bigint_of_llong 1) then base else bigint_of_llong 0))
      else if e = 0 then (if big_equal base (bigint_of_llong 0) then Inl DivisionByZero
                          else Inr (bigint_of_llong 1))
      else Inr (big_pow_loop (nat e) (bigint_of_llong 1) base))"

lemma big_abs_correct: "canonical n \<Longrightarrow> canonical (big_abs n) \<and> bigint_val (big_abs n) = \<bar>bigint_val n\<bar>"
  using big_neg_correct [of n] by (simp add: big_abs_def limbs.less limbs.small)

lemma big_pow_loop_correct:
  "canonical result \<Longrightarrow> canonical b \<Longrightarrow>
     canonical (big_pow_loop e result b) \<and>
     bigint_val (big_pow_loop e result b) = pow_loop e (bigint_val result) (bigint_val b)"
proof (induction e result b rule: big_pow_loop.induct)
  case (1 e result b)
  then show ?case
    by (subst (1 2) big_pow_loop.simps, subst pow_loop.simps) (simp add: big_mul_correct)
qed

lemma big_pow_correct:
  assumes "canonical base"
  shows "map_sum id bigint_val (big_pow base e) = bigint_pow (bigint_val base) e"
    "big_pow base e = Inr r \<Longrightarrow> canonical r"
  using assms big_abs_correct [OF assms] big_pow_loop_correct [of "bigint_of_llong 1" base "nat e"]
  by (auto simp: big_pow_def bigint_pow_def big_compare_correct limbs.small split: if_splits)

section \<open>The modular inverse\<close>

text \<open>The loop runs until \<open>temp_a\<close> is at most one; nothing in its text bounds the number of
  rounds, so it is a partial function: a loop that runs forever has the value \<open>None\<close>.\<close>

partial_function (option) big_inverse_loop ::
    "bigint \<Rightarrow> bigint \<Rightarrow> bigint \<Rightarrow> bigint \<Rightarrow> (bigint_error + bigint) option" where
  "big_inverse_loop temp_mod temp_a y_prev y =
     (if big_less (bigint_of_llong 1) temp_a
      then (case big_div temp_mod temp_a of
              Inl err \<Rightarrow> Some (Inl err)
            | Inr q \<Rightarrow> (case big_mod temp_mod temp_a of
                Inl err \<Rightarrow> Some (Inl err)
              | Inr r \<Rightarrow> big_inverse_loop temp_a r y (big_sub y_prev (big_mul q y))))
      else Some (Inr y))"

definition big_inverse :: "bigint \<Rightarrow> bigint \<Rightarrow> (bigint_error + bigint) option" where
  "big_inverse a m =
     (case big_mod a m of
        Inl err \<Rightarrow> Some (Inl err)
      | Inr temp_a \<Rightarrow> (case big_inverse_loop m temp_a (bigint_of_llong 0) (bigint_of_llong 1) of
          None \<Rightarrow> None
        | Some (Inl err) \<Rightarrow> Some (Inl err)
        | Some (Inr y) \<Rightarrow> Some (big_mod y m)))"

lemma big_inverse_loop_returns:
  assumes "canonical temp_mod" "canonical temp_a" "canonical y_prev" "canonical y"
  shows "\<exists>r. big_inverse_loop temp_mod temp_a y_prev y = Some (Inr r) \<and> canonical r \<and>
    bigint_val r = inverse_loop (bigint_val temp_mod) (bigint_val temp_a) (bigint_val y_prev) (bigint_val y)"
  using assms
proof (induction "nat (bigint_val temp_a)" arbitrary: temp_mod temp_a y_prev y rule: less_induct)
  case less
  show ?case
  proof (cases "bigint_val temp_a > 1")
    case True
    then have pos: "0 < bigint_val temp_a" by simp
    obtain q r where q: "big_div temp_mod temp_a = Inr q" "big_mod temp_mod temp_a = Inr r"
      "canonical q" "canonical r" "bigint_val q = bigint_val temp_mod div bigint_val temp_a"
      "bigint_val r = bigint_val temp_mod mod bigint_val temp_a"
      "0 \<le> bigint_val r" "bigint_val r < bigint_val temp_a"
      using limbs.euclid_step [OF less.prems(1,2) pos] by metis
    let ?y = "big_sub y_prev (big_mul q y)"
    have y: "canonical ?y" "bigint_val ?y = bigint_val y_prev - bigint_val q * bigint_val y"
      using limbs.minus limbs.times less.prems q(3) by auto
    have step: "big_inverse_loop temp_mod temp_a y_prev y = big_inverse_loop temp_a r y ?y"
      using True q(1,2) less.prems(2)
      by (subst big_inverse_loop.simps) (simp add: limbs.less limbs.small)
    have "nat (bigint_val r) < nat (bigint_val temp_a)" using q(7,8) by simp
    from less.hyps [OF this less.prems(2) q(4) less.prems(4) y(1)] show ?thesis
      unfolding step using True q(5,6) y(2)
      by (subst inverse_loop.simps) simp
  next
    case False
    then show ?thesis
      using less.prems
      by (subst big_inverse_loop.simps, subst inverse_loop.simps) (simp add: limbs.less limbs.small)
  qed
qed

lemma big_inverse_returns:
  assumes "canonical a" "canonical m" "0 < bigint_val m"
  shows "\<exists>r. big_inverse a m = Some (Inr r) \<and> canonical r \<and>
    bigint_val r = bigint_inverse (bigint_val a) (bigint_val m)"
proof -
  obtain t where t: "big_mod a m = Inr t" "canonical t" "bigint_val t = bigint_val a mod bigint_val m"
    using limbs.euclid_step [OF assms] by metis
  obtain y where y: "big_inverse_loop m t (bigint_of_llong 0) (bigint_of_llong 1) = Some (Inr y)"
    "canonical y" "bigint_val y = inverse_loop (bigint_val m) (bigint_val t) 0 1"
    using big_inverse_loop_returns [OF assms(2) t(2) limbs.small(1,3)] by (auto simp: limbs.small)
  obtain r where "big_mod y m = Inr r" "canonical r" "bigint_val r = bigint_val y mod bigint_val m"
    using limbs.euclid_step [OF y(2) assms(2,3)] by metis
  with t y show ?thesis by (simp add: big_inverse_def bigint_inverse_def)
qed

lemma big_inverse_zero_modulus: "isZero m \<Longrightarrow> big_inverse a m = Some (Inl DivisionByZero)"
  by (simp add: big_inverse_def big_mod_def)

section \<open>Decimal text\<close>

definition text_chunk :: u64 where "text_chunk = 10000000000000000000"

text \<open>The chunks of 19 digits, least significant first.\<close>

function peel_chunks :: "limb_list \<Rightarrow> int list" where
  "peel_chunks ls =
     (if ls = [] then []
      else let (qs, rem) = short_div_loop text_chunk (rev ls) 0
           in rem # peel_chunks (drop_high_zeros (rev qs)))"
  by pat_completeness auto
termination
proof (relation "measure (\<lambda>ls. nat (mag ls) + (if ls = [] then 0 else 1))", goal_cases)
  case (2 ls p qs rem)
  let ?d = "uint text_chunk"
  have p: "short_div_loop text_chunk (rev ls) 0 = (qs, rem)" using 2 by simp
  have d: "?d = 10000000000000000000" by (simp add: text_chunk_def)
  note m = short_div_loop_mag [of 0 text_chunk "rev ls", unfolded p fst_conv snd_conv]
  have eq: "mag ls = ?d * mag (rev qs) + rem" "0 \<le> rem" using m d by simp_all
  show ?case
  proof (cases "mag (rev qs) = 0")
    case True
    then have "drop_high_zeros (rev qs) = []"
      using drop_high_zeros_trimmed [of "rev qs"] canonical_mag_zero by (metis drop_high_zeros_mag)
    then show ?thesis using 2 by simp
  next
    case False
    then have "0 < mag (rev qs)" using mag_nonneg [of "rev qs"] by linarith
    then have "mag (rev qs) + 1 < mag ls + 1" using eq d by simp
    then show ?thesis using 2(1) \<open>0 < mag (rev qs)\<close> by (auto simp: nat_less_eq_zless)
  qed
qed simp

declare peel_chunks.simps [simp del]

definition text_part :: "int \<Rightarrow> string" where
  "text_part c = replicate (19 - length (show_int c)) (CHR ''0'') @ show_int c"

definition big_to_string :: "bigint \<Rightarrow> string" where
  "big_to_string n =
     (if isZero n then ''0''
      else let chunks = peel_chunks (limbs n);
               out = show_int (last chunks) @ concat (map text_part (rev (butlast chunks)))
           in if negative n then ''-'' @ out else out)"

lemma show_int_zero: "show_nat 0 = ''0''" "show_int 0 = ''0''"
  by code_simp+

lemma show_nat_split:
  assumes "0 < c" "d < 10 ^ Suc k"
  shows "show_nat (c * 10 ^ Suc k + d) =
    show_nat c @ replicate (Suc k - length (show_nat d)) (CHR ''0'') @ show_nat d"
  using assms(2)
proof (induction k arbitrary: d)
  case 0
  then show ?case
    using assms(1) by (subst (1 3 4) show_nat.simps) simp
next
  case (Suc k)
  let ?n = "c * 10 ^ Suc (Suc k) + d"
  have shape: "?n = 10 * (c * 10 ^ Suc k) + d" by simp
  have n: "?n div 10 = c * 10 ^ Suc k + d div 10" "?n mod 10 = d mod 10"
    unfolding shape by (simp_all only: div_mult_self4 mod_mult_self4 zero_neq_numeral not_False_eq_True)
  have "1 \<le> c * 10 ^ Suc k" using assms(1) by simp
  then have "\<not> ?n < 10" unfolding shape by linarith
  note n = n this
  have d: "d div 10 < 10 ^ Suc k" using Suc.prems by simp
  have "show_nat ?n = show_nat (c * 10 ^ Suc k + d div 10) @ [digit_char (d mod 10)]"
    using n by (subst show_nat.simps) simp
  also have "\<dots> = show_nat c @ (replicate (Suc k - length (show_nat (d div 10))) (CHR ''0'') @
      show_nat (d div 10) @ [digit_char (d mod 10)])"
    by (simp only: Suc.IH [OF d] append.assoc)
  also have "replicate (Suc k - length (show_nat (d div 10))) (CHR ''0'') @
      show_nat (d div 10) @ [digit_char (d mod 10)] =
      replicate (Suc (Suc k) - length (show_nat d)) (CHR ''0'') @ show_nat d"
  proof (cases "d < 10")
    case True
    have "show_nat d = [digit_char d]"
      using True by (subst show_nat.simps) simp
    then show ?thesis using True by (simp add: show_int_zero replicate_append_same)
  next
    case False
    then have "show_nat d = show_nat (d div 10) @ [digit_char (d mod 10)]" by (subst show_nat.simps) simp
    then show ?thesis by simp
  qed
  finally show ?case .
qed

lemma peel_chunks_text:
  assumes "trimmed ls" "ls \<noteq> []"
  shows "peel_chunks ls \<noteq> [] \<and>
    show_int (last (peel_chunks ls)) @ concat (map text_part (rev (butlast (peel_chunks ls)))) =
      show_nat (nat (mag ls))"
  using assms
proof (induction ls rule: peel_chunks.induct)
  case (1 ls)
  obtain qs rem where p: "short_div_loop text_chunk (rev ls) 0 = (qs, rem)" by fastforce
  let ?q = "drop_high_zeros (rev qs)"
  have d: "uint text_chunk = 10 ^ 19" by (simp add: text_chunk_def)
  note m = short_div_loop_mag [of 0 text_chunk "rev ls", unfolded p fst_conv snd_conv d]
  have eq: "mag ls = 10 ^ 19 * mag ?q + rem" "0 \<le> rem" "rem < 10 ^ 19" using m by simp_all
  have peel: "peel_chunks ls = rem # peel_chunks ?q" using "1.prems"(2) p by (subst peel_chunks.simps) simp
  show ?case
  proof (cases "?q = []")
    case True
    then show ?thesis using eq peel by (simp add: peel_chunks.simps [of "[]"] show_int_def)
  next
    case False
    have t: "trimmed ?q" by simp
    have IH: "peel_chunks ?q \<noteq> []"
      "show_int (last (peel_chunks ?q)) @ concat (map text_part (rev (butlast (peel_chunks ?q)))) =
        show_nat (nat (mag ?q))"
      using "1.IH" [OF "1.prems"(2) p [symmetric] refl t False] by simp_all
    have "0 < mag ?q" using canonical_mag_zero [OF t] False mag_nonneg [of ?q] by linarith
    moreover have "nat rem < 10 ^ Suc 18" using eq(2,3) by simp
    ultimately have "show_nat (nat (mag ?q) * 10 ^ Suc 18 + nat rem) = show_nat (nat (mag ?q)) @ text_part rem"
      using show_nat_split [of "nat (mag ?q)" "nat rem" 18] eq(2) by (simp add: text_part_def show_int_def)
    moreover have "nat (mag ls) = nat (mag ?q) * 10 ^ Suc 18 + nat rem"
      using eq(1,2) \<open>0 < mag ?q\<close> by (simp add: nat_add_distrib nat_mult_distrib)
    ultimately show ?thesis using IH peel by simp
  qed
qed

lemma big_to_string_correct: "canonical n \<Longrightarrow> big_to_string n = show_int (bigint_val n)"
  using peel_chunks_text [of "limbs n"] canonical_mag_zero [of "limbs n"] mag_nonneg [of "limbs n"]
  by (auto simp: big_to_string_def isZero_def canonical_trimmed bigint_val_def Let_def show_int_zero show_int_def
      canonical_def simp del: mag_nonneg)

section \<open>One representation per value\<close>

lemma mag_inject_length: "length xs = length ys \<Longrightarrow> mag xs = mag ys \<Longrightarrow> xs = ys"
proof (induction xs ys rule: list_induct2)
  case (Cons x xs y ys)
  have "mag (z # zs) mod base64 = uint z" for z zs
    by (simp only: mag.simps mod_mult_self2 mod_pos_pos_trivial [OF uint_range])
  then have "uint x = uint y" using Cons.prems by metis
  then have "x = y" by (simp only: word_uint_eq_iff)
  with Cons show ?case by simp
qed simp

lemma trimmed_mag_inject:
  assumes "trimmed xs" "trimmed ys" "mag xs = mag ys"
  shows "xs = ys"
  using mag_inject_length [of xs ys] mag_shorter [of xs ys] mag_shorter [of ys xs] assms
  by (metis less_irrefl linorder_neqE_nat)

lemma canonical_inject:
  assumes "canonical m" "canonical n" "bigint_val m = bigint_val n"
  shows "m = n"
proof -
  note t = canonical_trimmed [OF assms(1)] canonical_trimmed [OF assms(2)]
  have nn: "0 \<le> mag (limbs m)" "0 \<le> mag (limbs n)" by simp_all
  have z: "mag (limbs m) = 0 \<longrightarrow> \<not> negative m" "mag (limbs n) = 0 \<longrightarrow> \<not> negative n"
    using assms(1,2) t canonical_mag_zero by (auto simp: canonical_def)
  have "negative m = negative n" "mag (limbs m) = mag (limbs n)"
    using assms(3) nn z by (cases "negative m"; cases "negative n"; simp add: bigint_val_def; linarith)+
  then show ?thesis using trimmed_mag_inject [OF t] by simp
qed

lemma digit_value_digit: "d < 10 \<Longrightarrow> digitValue (digit_char d) = int d"
  by (simp add: digitValue_def digit_char_def)

lemma digits_in_base_show_nat: "digits_in_base 10 (show_nat n) 0 = Some (int n)"
proof (induction n rule: show_nat.induct)
  case (1 n)
  show ?case
  proof (cases "n < 10")
    case True
    then show ?thesis by (subst show_nat.simps) (simp add: digit_value_digit)
  next
    case False
    have "n mod 10 < 10" "int (n div 10) * 10 + int (n mod 10) = int n" by (simp_all add: zdiv_int zmod_int)
    then show ?thesis using "1.IH" False
      by (subst show_nat.simps) (simp add: digits_in_base_append digit_value_digit)
  qed
qed

lemma bigint_of_string_show_int: "bigint_of_string (show_int i) 10 = Inr i"
proof -
  have "hd (show_nat n) \<noteq> CHR ''-''" "hd (show_nat n) \<noteq> CHR ''+''" for n
    using hd_show_nat [of n] by (auto simp: is_digit_def)
  then show ?thesis
    by (auto simp: bigint_of_string_def show_int_def digits_in_base_show_nat Let_def)
qed

lemma big_of_string_to_string:
  assumes "canonical n"
  shows "big_of_string (big_to_string n) 10 = Inr n"
proof -
  have v: "map_sum id bigint_val (big_of_string (big_to_string n) 10) = Inr (bigint_val n)"
    unfolding big_of_string_correct big_to_string_correct [OF assms] by (rule bigint_of_string_show_int)
  then obtain m where m: "big_of_string (big_to_string n) 10 = Inr m" "bigint_val m = bigint_val n"
    by (cases "big_of_string (big_to_string n) 10") auto
  have "m = n" using big_of_string_correct(2) [OF m(1)] assms m(2) by (rule canonical_inject)
  then show ?thesis using m(1) by simp
qed

section \<open>Summary of the operators\<close>

lemma big_operators:
  assumes "canonical m" "canonical n"
  shows "bigint_val (big_add m n) = bigint_val m + bigint_val n \<and>
    bigint_val (big_sub m n) = bigint_val m - bigint_val n \<and>
    bigint_val (big_mul m n) = bigint_val m * bigint_val n \<and>
    map_sum id bigint_val (big_div m n) =
      (if bigint_val n = 0 then Inl DivisionByZero else Inr (bigint_val m div bigint_val n)) \<and>
    map_sum id bigint_val (big_mod m n) =
      (if bigint_val n = 0 then Inl DivisionByZero else Inr (bigint_val m mod bigint_val n)) \<and>
    (big_less m n \<longleftrightarrow> bigint_val m < bigint_val n) \<and> (big_equal m n \<longleftrightarrow> m = n) \<and>
    (\<forall>r \<in> {big_add m n, big_sub m n, big_mul m n} \<union> {r. big_div m n = Inr r \<or> big_mod m n = Inr r}. canonical r)"
proof -
  have z: "isZero n \<longleftrightarrow> bigint_val n = 0" using assms(2) by (rule isZero_val)
  have eq: "big_equal m n \<longleftrightarrow> m = n"
    using big_compare_correct(2) [OF assms] canonical_inject [OF assms] by blast
  show ?thesis
  proof (cases "isZero n")
    case True
    then show ?thesis using z eq assms
      by (simp add: limbs.plus limbs.minus limbs.times limbs.less) (auto simp: big_div_def big_mod_def)
  next
    case False
    then have nz: "bigint_val n \<noteq> 0" using z by simp
    obtain q r where "big_div m n = Inr q" "canonical q" "bigint_val q = bigint_val m div bigint_val n"
      "big_mod m n = Inr r" "canonical r" "bigint_val r = bigint_val m mod bigint_val n"
      using limbs.quot [OF assms nz] limbs.remainder [OF assms nz] by blast
    then show ?thesis using nz eq assms
      by (simp add: limbs.plus limbs.minus limbs.times limbs.less) blast
  qed
qed

section \<open>The overloads for \<open>long long\<close>\<close>

text \<open>Each converts its argument first.  The assigning operators \<open>+=\<close>, \<open>-=\<close>, \<open>*=\<close>, \<open>/=\<close>
  and \<open>%=\<close> store what the operator returns and have no definition of their own.\<close>

definition big_equal_ll :: "bigint \<Rightarrow> int \<Rightarrow> bool" where "big_equal_ll m n = big_equal m (bigint_of_llong n)"
definition big_less_ll :: "bigint \<Rightarrow> int \<Rightarrow> bool" where "big_less_ll m n = big_less m (bigint_of_llong n)"
definition big_greater_ll :: "bigint \<Rightarrow> int \<Rightarrow> bool" where "big_greater_ll m n = big_less (bigint_of_llong n) m"
definition big_mul_ll :: "bigint \<Rightarrow> int \<Rightarrow> bigint" where "big_mul_ll m n = big_mul m (bigint_of_llong n)"
definition big_div_ll :: "bigint \<Rightarrow> int \<Rightarrow> bigint_error + bigint" where
  "big_div_ll m n = big_div m (bigint_of_llong n)"
definition big_mod_ll :: "bigint \<Rightarrow> int \<Rightarrow> bigint_error + bigint" where
  "big_mod_ll m n = big_mod m (bigint_of_llong n)"

lemma overloads_correct:
  assumes "canonical m" "in_int64 n"
  shows "big_equal_ll m n \<longleftrightarrow> bigint_val m = n" "big_less_ll m n \<longleftrightarrow> bigint_val m < n"
    and "big_greater_ll m n \<longleftrightarrow> bigint_val m > n" "bigint_val (big_mul_ll m n) = bigint_val m * n"
    and "n \<noteq> 0 \<Longrightarrow> map_sum id bigint_val (big_div_ll m n) = Inr (bigint_val m div n)"
    and "n \<noteq> 0 \<Longrightarrow> map_sum id bigint_val (big_mod_ll m n) = Inr (bigint_val m mod n)"
proof -
  note c = bigint_of_llong_correct [OF assms(2)]
  have z: "n \<noteq> 0 \<Longrightarrow> \<not> isZero (bigint_of_llong n)"
    using isZero_val [OF c(2)] c(1) by simp
  show "big_equal_ll m n \<longleftrightarrow> bigint_val m = n" "big_less_ll m n \<longleftrightarrow> bigint_val m < n"
    "big_greater_ll m n \<longleftrightarrow> bigint_val m > n" "bigint_val (big_mul_ll m n) = bigint_val m * n"
    by (simp_all add: big_equal_ll_def big_less_ll_def big_greater_ll_def big_mul_ll_def c big_mul_correct
        big_compare_correct [OF assms(1) c(2)] big_compare_correct [OF c(2) assms(1)])
  show "map_sum id bigint_val (big_div_ll m n) = Inr (bigint_val m div n)" if "n \<noteq> 0"
    using big_div_correct [OF assms(1) c(2) z [OF that]] by (auto simp: big_div_ll_def c)
  show "map_sum id bigint_val (big_mod_ll m n) = Inr (bigint_val m mod n)" if "n \<noteq> 0"
    using big_mod_correct [OF assms(1) c(2) z [OF that]] by (auto simp: big_mod_ll_def c)
qed

end
