(* ===== verification/Spec2Isabelle.thy ===== *)
theory Spec2Isabelle
  imports Session_Examples Terminal BigInt_Functions
begin

text \<open>
  A model of the blockchain node of this repository: the C++ program under \<open>src/src\<close>, an
  interactive command line around a proof-of-work ledger, a wallet, and a peer-to-peer node.

  \<^bold>\<open>How the parts interact.\<close>  The ledger (\<open>Blockchain\<close>) is a list of blocks of
  transactions with a pool of pending ones and a map of balances.  Transactions are signed by the
  wallet with the elliptic-curve code, which computes on the class \<open>BigInt\<close>; blocks are hashed
  with SHA-256 and bound to their transactions by a Merkle root.  The wallet file is sealed by the
  keystore.  The node reads frames from its peers and hands blocks and transactions to two callbacks,
  which the command line program points at its ledger.

  \<^bold>\<open>Which theory models what.\<close>
  \<^item> \<open>Prelude\<close>: machine types and conversions, decimal rendering, facts on lists and association
    lists.  \<open>Streams\<close>: \<open>std::getline\<close>, \<open>operator>>\<close>, \<open>std::stoi\<close> and its
    relatives, \<open>std::from_chars\<close>, loops over lines.
  \<^item> \<open>Sha256\<close>: \<open>sha.cpp\<close>.  \<open>Utils\<close>: \<open>utils.cpp\<close> (Merkle root, proof of work,
    \<open>parseInt\<close>).  \<open>Money\<close>: \<open>money.cpp\<close>.
  \<^item> \<open>BigInt\<close>, \<open>BigInt_Division\<close>, \<open>BigInt_Ops\<close>, \<open>BigInt_Functions\<close>:
    \<open>bigint.h\<close> on its 64-bit limbs; \<open>BigArith\<close>: what it computes, on unbounded integers.
    The contract between the two is the locale \<open>exact_integer\<close>.
  \<^item> \<open>ECCrypto\<close>: \<open>ECCrypto.cpp\<close>.  On it, \<open>EC_Correct\<close> (encodings, ranges, the curve equation) and
    \<open>EC_Group\<close> (points are the elements of a group of prime order, signatures verify).  The mathematics
    behind \<open>EC_Group\<close> models no code: \<open>Curve_Group\<close> (the group law over any field),
    \<open>Int_Primes\<close> (a primality test), \<open>Quaternary\<close> (base-4 arithmetic the simplifier evaluates),
    \<open>Secp_Primes\<close>, \<open>Secp_Field\<close>, \<open>Secp_Chain\<close>, \<open>Secp_Certificate\<close>, \<open>Secp_Order\<close> and
    \<open>Secp_Cubes\<close> (the field, the order of the base point and the absence of points with \<open>y = 0\<close>).
  \<^item> \<open>Transaction\<close>, \<open>Block\<close>: the classes of these names.  \<open>Blockchain\<close>: the operations
    of \<open>Blockchain.cpp\<close>; \<open>Chain_File\<close>: its \<open>saveToFile\<close> and \<open>loadFromFile\<close>.
    On them, \<open>Chain_Rules\<close> (acceptance and validity), \<open>Mining\<close> (mined blocks, the pool),
    \<open>Ledger\<close> (balances against an exact ledger), \<open>Chain_System\<close> (the reachable ledgers).
  \<^item> \<open>Keystore\<close>: \<open>keystore.cpp\<close>.  \<open>Wallet\<close>: \<open>Wallet.cpp\<close>.
  \<^item> \<open>Wire\<close>, \<open>P2PMessage\<close>: \<open>P2PMessage.h\<close>.  \<open>P2PPeer\<close>: the class \<open>Peer\<close>.
    \<open>P2PNode\<close>: the state of the node and the operations on its peer table; \<open>P2PHandlers\<close>:
    the message handlers and the rounds of the worker threads.  On them, \<open>P2P_Safety\<close> (what
    every operation and every interleaving of the threads keeps) and \<open>P2P_Exchange\<close> (what an exchange of
    messages achieves).
  \<^item> \<open>Command_Line\<close>: the prompts and the menu of \<open>main.cpp\<close>; \<open>Terminal\<close>: what its listing choices
    print.  \<open>Session\<close>: the program with its threads as one step relation.
    \<open>Signed_Payments\<close>: from a key of the wallet to a payment in the pool.
  \<^item> \<open>Examples\<close>, \<open>Network_Examples\<close>, \<open>Session_Examples\<close>: concrete values.

  A function of the model carries the name of the C++ function, with a prefix where two classes share
  it (\<open>bc_\<close>, \<open>tx_\<close>, \<open>wallet_\<close>, \<open>cli_\<close>, \<open>msg_\<close>, \<open>big_\<close>, \<open>ec_\<close>).
  A record has the fields of its class.

  \<^bold>\<open>Conventions.\<close>
  \<^item> A string is a sequence of bytes, which HOL's characters are.  Unsigned words on which the code
    works bitwise are HOL words.  Signed integers are \<^typ>\<open>int\<close>, cut to their width by
    \<open>to_int32\<close> and \<open>to_int64\<close> after arithmetic.
  \<^item> A thrown exception is the left value of a sum, or the failing result of the function that
    catches it.  \<open>None\<close> from a function of the ledger or of the menu means undefined behaviour
    (an access past the end, the overflow of a signed nonce) or a loop that does not end.
  \<^item> An \<open>unordered_map\<close> is an association list in the order in which the code iterates over it;
    a \<open>shared_ptr\<close> to a peer is an index into a table of peer objects.
  \<^item> Clock readings, fresh nonces, the generator's answers (a list, used up from the front), the
    disk, the terminal's input and the answers of the socket calls are arguments.  One clock reading
    serves one operation.
  \<^item> The operations of the ledger hold its mutex throughout and are atomic (\<open>bc_step\<close>).  Those of the
    node hold a mutex only for parts of themselves, so a run of the node or the program is made, in any
    order, of whole operations (\<open>node_step\<close>) and of the single changes of shared state that operations
    consist of (\<open>node_change\<close>; \<open>step_changes\<close> proves the decomposition).  The check for room in the
    peer table and the insertion are separate.  Taken as one change are: setting the sync latch with its
    peer and deadline, clearing them, and recording the identity of a peer, checks included (only the
    receiver thread does).  The node holds a copy of the shared ledger, put in place before and read back
    after each of its steps.

  \<^bold>\<open>What the lemmas show.\<close>  The sections below follow the program from the whole to its parts.
  The invariants (\<open>whole_program_invariant\<close>, \<open>reachable_ledger_valid\<close>,
  \<open>peer_table_invariant\<close>) hold in every state reached by the steps above, and an iteration of the
  receiver thread is made of such steps (\<open>receiver_iteration_is_rounds\<close>).  \<open>addBlock\<close>, mining,
  loading and the round of the reader are characterised on every branch.  The point arithmetic is the
  group of the curve (\<open>points_form_group\<close>), whose field and order are proved prime
  (\<open>base_point_has_prime_order\<close>) by certificates that the kernel evaluates in base 4; valid
  compressed keys are exactly its finite points (\<open>public_keys_are_points\<close>), and what is signed
  verifies (\<open>signed_message_verifies\<close>, \<open>payment_reaches_pool\<close>) unless the second half of the
  signature is zero, a case the signer does not avoid and whose rarity is not stated: it depends on
  the values of SHA-256.  The round trips cover
  every format the program writes: amounts, big numbers, keys, frames, blocks on the wire, the chain
  file, the sealed text and the wallet file.  What hashes and tags bind is stated without assumptions
  on SHA-256: either the contents agree, or an explicit pair of inputs collides.  Several theorems
  record how the code differs from what it means to do (\<open>mining_behind_the_tip_breaks_the_chain\<close>,
  \<open>block_with_pooled_payment_refused\<close>, \<open>message_33_is_lost\<close>,
  \<open>claimed_hash_keeps_block_out\<close>, \<open>zero_key_locks_wallet\<close>, \<open>large_descriptor_overruns_set\<close>,
  \<open>overlapping_connections_exceed_limit\<close>).

  \<^bold>\<open>Bounds and termination.\<close>  No definition uses fuel.  The mining loop ends because its nonce is
  bounded by \<open>INT_MAX\<close>, the loops over a stream because each read takes a character or sets a
  state bit, the menu loop because each round reads a line, and the digit loops because their value
  falls.  The loop of \<open>BigInt\<close>'s \<open>inverse\<close> on limbs is a partial function, shown to
  return on every input with a positive modulus.  Balances are exact up to 4392 transactions
  because each is at most 21 million coins of 100 million units.  At most 32 messages of one peer
  are handled in a round, and a frame has at most 10 MiB of payload, as in the code.

  \<^bold>\<open>Not modelled.\<close>  The socket calls behind the environment (creating the listener, what \<open>select\<close>
  and \<open>accept\<close> do), thread creation, mutexes and condition variables, logging, wiping of key
  material, the branches for Windows, the prompts and messages printed by the choices that change
  state, and \<open>parseDouble\<close> and \<open>promptDouble\<close> (unused).  The remaining lines of the source are
  declarations, accessors of single fields, and assigning operators that store the result of another.
\<close>

section \<open>The whole program\<close>

text \<open>C1: whatever the user types, the peers send and the system answers, in any interleaving of menu
  choices and network threads (mining by a clock not behind the tip), the ledger passes its own
  validity scan with a clean pool and balances that replay the chain, every key of the wallet is
  filed under its own address, and the node's peer table is consistent: one entry per address, each
  an object with that address, no node id twice and not the node's own.  The threads interleave down
  to the single changes of their shared state.\<close>

theorem whole_program_invariant:
  assumes "new_blockchain now diff reward = Some c0" "prog_step\<^sup>*\<^sup>* (started input disk es c0) p"
  shows "isChainValid (shared_chain p) = Some True \<and> pool_ok (shared_chain p) \<and>
    balances (shared_chain p) = balances (updateBalances (shared_chain p)) \<and>
    list_all filed (key_pairs (user_wallet p)) \<and> pred_option node_ok (p2p_node p)"
proof -
  have "parts_ok ledger_wf (\<lambda>w. list_all filed (key_pairs w)) node_ok (started input disk es c0)"
    using new_blockchain_wf [OF assms(1)] by (simp add: parts_ok_def started_def empty_wallet_def)
  then show ?thesis
    using whole.reach [OF assms(2)]
    by (simp add: parts_ok_def ledger_wf_def isChainValid_chain_ok flip: balances_current_iff)
qed

theorem whole_program_invariant_witness:
  "isChainValid ledger1 = Some True \<and> pool_ok ledger1"
  using whole_program_invariant [OF new_ledger0 after_mining_reached] by simp

text \<open>C2: a session ends: the menu loop returns on every input of complete lines none of which reads as
  the number of the mining choice, 2, and leaves no node running.\<close>

theorem session_ends:
  assumes "list_all (\<lambda>l. newline \<notin> set l \<and> parseInt l \<noteq> Some 2) ls"
  shows "\<exists>p'. main_loop rs k (p\<lparr>stdin := Good (lines_of ls)\<rparr>) = Some p' \<and> \<not> node_running p'"
  using assms by (intro main_loop_ends) (auto simp: lines_left_def)

theorem session_ends_witness:
  "\<exists>p'. main_loop (\<lambda>_. reading0) 0 (before_mining\<lparr>stdin := Good (lines_of [''14'', [], ''n'', ''15''])\<rparr>) = Some p' \<and>
     \<not> node_running p'"
proof (rule session_ends)
  have "parseInt ''14'' = Some 14" "parseInt [] = None" "parseInt ''n'' = None" "parseInt ''15'' = Some 15"
    by code_simp+
  then show "list_all (\<lambda>l. newline \<notin> set l \<and> parseInt l \<noteq> Some 2) [''14'', [], ''n'', ''15'']" by simp
qed

text \<open>C3: the payment choice of the menu either leaves the ledger alone or adds one valid transaction
  from the selected address, under that address's own key, that the balance not yet pending covers;
  for every wallet whose keys were generated or imported by their private part.\<close>

theorem payment_is_own_and_covered:
  assumes "own_step\<^sup>*\<^sup>* empty_wallet (user_wallet p)"
  shows "shared_chain (cli_addTransaction r p) = shared_chain p \<or>
    (\<exists>t. shared_chain (cli_addTransaction r p) =
        (shared_chain p)\<lparr>pending_transactions := pending_transactions (shared_chain p) @ [t]\<rparr> \<and>
      sender t = default_address (user_wallet p) \<and> derivedAddressFromKey t = sender t \<and> tx_valid t \<and>
      amount t \<le> to_int64 (getBalance (shared_chain p) (sender t) - pendingOutflow (shared_chain p) (sender t)))"
  using payment_of_own_wallet [OF assms] by blast

theorem payment_is_own_and_covered_witness:
  "shared_chain (cli_addTransaction reading0 before_mining) = ledger0 \<or>
    (\<exists>t. pending_transactions (shared_chain (cli_addTransaction reading0 before_mining)) = [t] \<and> tx_valid t)"
  using payment_is_own_and_covered [of before_mining reading0]
  by (auto simp: before_mining_def started_def)

text \<open>C4: and the payment goes through: if the selected key is one the program can sign with, the
  answers typed are a receiver other than the sender and an amount the balance not yet pending covers,
  the generator delivers and the payment is not on the ledger yet, then the wallet signs that payment, and
  the choice appends the signed transaction to the pool; only a signature whose second half is zero
  stops it, and then the ledger is unchanged.\<close>

theorem payment_reaches_pool:
  assumes "own_step\<^sup>*\<^sup>* empty_wallet (user_wallet p)" "from_addr = default_address (user_wallet p)"
    and "isValidPrivateKey (getPrivateKey (user_wallet p) from_addr)"
    and "stdin p = Good (to @ newline # figure @ newline # rest)" "\<not> isBlank to" "newline \<notin> set to"
    and "newline \<notin> set figure" "parse_amount figure = Some val" "0 < val" "to \<noteq> from_addr"
    and "randomScalar (fst (snd (freshNonce (r_now r) (rng p)))) = Inr (k, es')"
    and "\<not> transactionExists (shared_chain p) (ordered r p to val)"
    and "val \<le> to_int64 (getBalance (shared_chain p) from_addr - pendingOutflow (shared_chain p) from_addr)"
  shows "\<exists>t. wallet_signTransaction (fst (snd (freshNonce (r_now r) (rng p)))) (user_wallet p) (ordered r p to val)
      from_addr = (True, t, es') \<and>
    signed_fields t = (from_addr, to, val, r_now_tx r, fst (freshNonce (r_now r) (rng p))) \<and>
    shared_chain (cli_addTransaction r p) =
      (if bytes32ToBigInt (drop 32 (signatureFromHex (signature t))) = 0 then shared_chain p
       else (shared_chain p)\<lparr>pending_transactions := pending_transactions (shared_chain p) @ [t]\<rparr>)"
  using payment_pooled [OF assms(1,3-13) [unfolded assms(2)]]
  by (simp add: unlucky_def assms(2) signed_fields_def ordered_def new_transaction_def)

theorem payment_reaches_pool_witness:
  "\<exists>t. wallet_signTransaction [Some (bigIntToBytes32 1)] (user_wallet before_paying)
      (ordered reading0 before_paying ''bob'' 200000000) (wk_address (scalar_key 1)) = (True, t, []) \<and>
    receiver t = ''bob'' \<and> amount t = 200000000 \<and>
    pending_transactions (shared_chain (cli_addTransaction reading0 before_paying)) =
      (if bytes32ToBigInt (drop 32 (signatureFromHex (signature t))) = 0 then [] else [t])"
proof -
  have "stdin before_paying = Good (''bob'' @ newline # ''2'' @ newline # [])"
    by (simp add: before_paying_def started_def)
  then have "\<exists>t. wallet_signTransaction (fst (snd (freshNonce (r_now reading0) (rng before_paying))))
        (user_wallet before_paying) (ordered reading0 before_paying ''bob'' 200000000) (wk_address (scalar_key 1)) = (True, t, []) \<and>
      signed_fields t = (wk_address (scalar_key 1), ''bob'', 200000000, r_now_tx reading0,
        fst (freshNonce (r_now reading0) (rng before_paying))) \<and>
      shared_chain (cli_addTransaction reading0 before_paying) =
        (if bytes32ToBigInt (drop 32 (signatureFromHex (signature t))) = 0 then shared_chain before_paying
         else (shared_chain before_paying)
           \<lparr>pending_transactions := pending_transactions (shared_chain before_paying) @ [t]\<rparr>)"
    by (intro payment_reaches_pool [OF paying_wallet(1) paying_wallet(2) [symmetric] paying_wallet(3) _ _ _ _ two_coins _ not_bob])
      (simp_all add: paying_nonce draw_one paying_ledger isBlank_def to_int64_id in_int64_def int_bounds)
  moreover have "pending_transactions (shared_chain before_paying) = []"
    by (simp add: before_paying_def started_def)
  ultimately show ?thesis by (auto simp: paying_nonce signed_fields_def)
qed

section \<open>The ledger as a state machine\<close>

text \<open>C5: in every state a ledger reaches from its construction by submissions, mining (by a clock
  not behind the tip), received blocks, reward changes and loads, in any order, the chain passes
  the program's own validity scan, the pool holds only valid, distinct, not yet mined transactions,
  and the balance map is the replay of the chain.\<close>

theorem reachable_ledger_valid:
  assumes "new_blockchain now diff reward = Some c0" "bc_step\<^sup>*\<^sup>* c0 c"
  shows "isChainValid c = Some True \<and> pool_ok c \<and> balances c = balances (updateBalances c)"
proof -
  have "ledger_wf c" using new_blockchain_wf [OF assms(1)] wf.reach [OF assms(2)] by blast
  then show ?thesis by (simp add: ledger_wf_def isChainValid_chain_ok flip: balances_current_iff)
qed

theorem reachable_ledger_valid_witness:
  "isChainValid ledger1 = Some True \<and> pool_ok ledger1 \<and> balances ledger1 = balances (updateBalances ledger1)"
  by (rule reachable_ledger_valid [OF new_ledger0]) (auto intro: ledger_steps)

text \<open>C6: on a node that only submits transactions and mines (by a clock not behind the tip), as long as the coins minted so far
  fit into 64 bits, no account is ever in debt and every balance is the exact sum of the payments
  to the address minus the payments from it: the 64-bit arithmetic never wraps.\<close>

theorem local_node_never_in_debt:
  assumes "new_blockchain now diff reward = Some c0" "local_step\<^sup>*\<^sup>* c0 c"
    and "minted (chain_txs c) \<le> int64_max"
  shows "0 \<le> getBalance c a \<and> getBalance c a = net (chain_txs c) a"
  by (rule local_balance_bounds [OF solvency.local_reach [OF assms(2) new_blockchain_local [OF assms(1)]] assms(3)])

theorem local_node_never_in_debt_witness:
  "0 \<le> getBalance ledger1 ''alice'' \<and> getBalance ledger1 ''alice'' = net (chain_txs ledger1) ''alice''"
  by (rule local_node_never_in_debt [OF new_ledger0])
     (auto intro: ledger_steps simp: minted_def int_bounds)

text \<open>C7: a block mined, by a clock not behind the tip, from a pool of ordinary transactions is accepted by every replica with the
  same chain and settings whose own pool holds none of its transactions; the replica then has the
  miner's chain and balances, and its pool is unchanged but for a copy of the reward.\<close>

theorem mined_block_accepted_by_replica:
  assumes "chain c \<noteq> []" "same_ledger c r" "pool_ok c" "no_system (pending_transactions c)"
    and "b_timestamp (last (chain c)) \<le> now"
    and "tx_hash ` set (pending_transactions c) \<inter> tx_hash ` set (pending_transactions r) = {}"
    and "minePendingTransactions now now_tx fresh addr c = Some c'" "c' \<noteq> c"
  shows "\<exists>r'. addBlock (Some (last (chain c'))) r = Some (True, r') \<and>
    same_ledger c' r' \<and> balances r' = balances c' \<and> pending_transactions r' =
      filter (\<lambda>t. tx_hash t \<noteq> tx_hash (reward_tx now_tx fresh addr c)) (pending_transactions r)"
  using assms by (rule mined_block_replicates)

theorem mined_block_accepted_by_replica_witness:
  "\<exists>r'. addBlock (Some block1) ledger0 = Some (True, r') \<and>
    same_ledger ledger1 r' \<and> balances r' = balances ledger1 \<and> pending_transactions r' = []"
  using mined_block_accepted_by_replica [OF _ _ _ _ _ _ mine_ledger0 ledger1_differs, of ledger0] ledger0_wf
  by (simp add: same_ledger_def no_system_def ledger_wf_def)

text \<open>C8: \<open>addBlock\<close> decides exactly the acceptance rule (next index, linked to the tip, time
  not before the tip, required difficulty, valid block, no replayed payment, one reward of the
  right amount); otherwise the ledger is unchanged.  Accepting appends the block, drops the pool
  entries it contains and recomputes the balances.\<close>

theorem addBlock_decides:
  assumes "chain c \<noteq> []"
  shows "addBlock (Some b) c = Some (if acceptable c b then (True, appended b c) else (False, c))"
  using assms by (rule addBlock_iff)

theorem addBlock_decides_witness:
  "addBlock (Some genesis0) ledger0 = Some (False, ledger0)"
  using addBlock_decides [of ledger0 genesis0]
  by (simp add: acceptable_def chain_height_def to_int32_id in_int32_def int_bounds)

text \<open>C9: an accepted block mints exactly the mining reward: the sum of the system transactions of
  the chain grows by the reward the ledger is configured with.\<close>

theorem accepted_block_mints_reward:
  assumes "addBlock (Some b) c = Some (True, c')" "int (length (b_transactions b)) \<le> int32_max"
  shows "minted (chain_txs c') = minted (chain_txs c) + mining_reward c"
  using assms by (rule addBlock_mints)

theorem accepted_block_mints_reward_witness:
  "minted (chain_txs (appended block1 ledger0)) = minted (chain_txs ledger0) + mining_reward ledger0"
  by (rule accepted_block_mints_reward [OF receive_block1]) (simp add: int_bounds)

text \<open>C10: conservation of supply: after a replay, the sum of all balances equals the minted total,
  modulo the 64 bits of the balances.\<close>

theorem supply_is_minted:
  "(\<Sum>a\<in>accounts (chain_txs c). getBalance (updateBalances c) a) mod 2 ^ 64 = minted (chain_txs c) mod 2 ^ 64"
  using supply_mod [of "updateBalances c"] by (simp add: chain_txs_def)

text \<open>C11: a chain of at most 4392 valid transactions cannot overflow a balance: the map's value is
  the exact net flow of the address.\<close>

theorem balances_exact_up_to_4392:
  assumes "list_all tx_valid (chain_txs c)" "length (chain_txs c) \<le> 4392"
  shows "getBalance (updateBalances c) a = net (chain_txs c) a"
  using exact_balance [of "updateBalances c" a] assms by (simp add: chain_txs_def)

theorem balances_exact_up_to_4392_witness:
  "getBalance (updateBalances ledger1) ''alice'' = 5000000000"
  using balances_exact_up_to_4392 [of ledger1 "''alice''"] reward1_valid
  by (simp add: credit_def debit_def)

text \<open>C12: mining on a ledger whose tip is later than the clock (a peer's block may be dated in the
  future) appends a block that makes the ledger's own validity scan fail.\<close>

theorem mining_behind_the_tip_breaks_the_chain:
  assumes "chain c \<noteq> []" "now < b_timestamp (last (chain c))"
    and "minePendingTransactions now now_tx fresh addr c = Some c'" "c' \<noteq> c"
  shows "isChainValid c' = Some False"
  using mine_clock_behind [OF assms] by (simp add: isChainValid_chain_ok)

theorem mining_behind_the_tip_breaks_the_chain_witness:
  "isChainValid (after_mining (mined_at (unmined (-1) ledger0 0 (reward_tx 0 7 ''bob'' ledger0)) 1) ledger0)
     = Some False"
proof (rule mining_behind_the_tip_breaks_the_chain [of ledger0 "-1" 0 7 "''bob''"])
  let ?c = "after_mining (mined_at (unmined (-1) ledger0 0 (reward_tx 0 7 ''bob'' ledger0)) 1) ledger0"
  show "minePendingTransactions (-1) 0 7 ''bob'' ledger0 = Some ?c"
    by (simp add: mine_eq [OF _ required_ledger0] reward_valid_iff isValidAmount_def money_consts
        mineBlock_difficulty_zero unmined_def Let_def)
  have "chain ?c \<noteq> chain ledger0" by simp
  then show "?c \<noteq> ledger0" by metis
qed simp_all

text \<open>C13: a block that carries a payment the receiving node still has in its own pool is refused,
  although nothing else may be wrong with it.\<close>

theorem block_with_pooled_payment_refused:
  assumes "chain c \<noteq> []" "t \<in> set (b_transactions b)" "sender t \<noteq> ''system''"
    and "t \<in> set (pending_transactions c)"
  shows "addBlock (Some b) c = Some (False, c)"
  using addBlock_refuses_pooled [OF assms refl] .

theorem block_with_pooled_payment_refused_witness:
  "addBlock (Some (block1\<lparr>b_transactions := [reward1\<lparr>sender := ''bob''\<rparr>]\<rparr>))
     (ledger0\<lparr>pending_transactions := [reward1\<lparr>sender := ''bob''\<rparr>]\<rparr>)
   = Some (False, ledger0\<lparr>pending_transactions := [reward1\<lparr>sender := ''bob''\<rparr>]\<rparr>)"
  by (rule block_with_pooled_payment_refused) simp_all

section \<open>The chain file\<close>

text \<open>C14: a saved ledger loads back: for a valid chain whose strings survive the line format, a load
  into any ledger yields the saved one with an empty pool.\<close>

theorem save_load_roundtrip:
  assumes "storable c" "isChainValid c = Some True" "balances_current c"
    and "saveToFile opened c = (True, Some file)"
  shows "loadFromFile (Some file) d = Some (True, c\<lparr>pending_transactions := []\<rparr>)"
  using save_load [OF assms(1) _ assms(3,4)] assms(2) by (simp add: isChainValid_chain_ok)

theorem save_load_roundtrip_witness:
  "loadFromFile (snd (saveToFile True ledger1)) ledger0 = Some (True, ledger1)"
  using save_load_roundtrip [of ledger1 True "lines_of (chain_file_lines ledger1)" ledger0]
    ledger1_storable ledger1_wf
  by (simp add: ledger_wf_def isChainValid_chain_ok saveToFile_def ledger1_def after_mining_def updateBalances_def)

text \<open>C15: a load always ends, whatever the file holds; it either succeeds with a chain that passes
  the validity scan, or leaves a ledger with a valid reward exactly as it was.\<close>

theorem load_valid_or_unchanged:
  assumes "isValidAmount (mining_reward c)"
  shows "loadFromFile content c = Some (False, c) \<or>
    (\<exists>c'. loadFromFile content c = Some (True, c') \<and> isChainValid c' = Some True \<and>
       pending_transactions c' = [] \<and> isValidAmount (mining_reward c'))"
proof -
  obtain r c' where l: "loadFromFile content c = Some (r, c')" using load_total by blast
  then show ?thesis
    using load_failure_unchanged [of content c c'] load_success [of content c c'] assms
    by (cases r) (auto simp: isChainValid_chain_ok)
qed

theorem load_valid_or_unchanged_witness:
  "loadFromFile None ledger0 = Some (False, ledger0)"
  using load_valid_or_unchanged [of ledger0 None]
  by (simp add: isValidAmount_def money_consts loadFromFile_def)

section \<open>Blocks\<close>

text \<open>C16: mining returns the block with the least positive nonce whose hash has the required zeros;
  it has no result exactly when no nonce of the 32-bit range works.\<close>

theorem mineBlock_least_nonce:
  "mineBlock b = Some b' \<longleftrightarrow>
     (\<exists>n. 0 < n \<and> n \<le> int32_max \<and> works b n \<and> (\<forall>m. 0 < m \<and> m < n \<longrightarrow> \<not> works b m) \<and> b' = mined_at b n)"
  by (rule mineBlock_Some_iff)

theorem mineBlock_least_nonce_witness:
  "mineBlock (new_block 0 ''0'' 0 0) = Some genesis0"
  unfolding mineBlock_least_nonce genesis0_def
  by (rule exI [of _ 1]) (simp add: works_def int_bounds)

text \<open>C17: a block hash commits to the block: two blocks with current roots, the same index and
  timestamp and previous hashes of equal length that have the same hash carry the same previous
  hash and the same transaction hashes, or exhibit a SHA-256 collision.\<close>

theorem block_hash_commitment:
  assumes "block_hash a = block_hash b" "root_current a" "root_current b"
    and "b_index a = b_index b" "b_timestamp a = b_timestamp b"
    and "length (b_previous_hash a) = length (b_previous_hash b)"
  shows "collides hashRaw (hashed_inputs a) (hashed_inputs b) \<or>
    b_previous_hash a = b_previous_hash b \<and>
    map tx_hash (b_transactions a) = map tx_hash (b_transactions b)"
  using assms by (rule block_hash_commits)

theorem block_hash_commitment_witness:
  "collides hashRaw (hashed_inputs genesis0) (hashed_inputs (setMinedState 1 [] genesis0)) \<or>
    b_previous_hash genesis0 = ''0'' \<and> map tx_hash (b_transactions genesis0) = []"
  using block_hash_commitment [of genesis0 "setMinedState 1 [] genesis0"]
  by (simp add: genesis0_def root_current_def new_block_def b_calculateMerkleRoot_eq setMinedState_def
      mined_at_def)

text \<open>The pre-image of the block hash is ambiguous: a block with index 1 and timestamp 23 has the
  hash of the block with index 12 and timestamp 3, whatever the other fields are.\<close>

lemma block_hash_ambiguous:
  "block_hash (b\<lparr>b_index := 1, b_timestamp := 23\<rparr>) = block_hash (b\<lparr>b_index := 12, b_timestamp := 3\<rparr>)"
  by (simp add: block_hash_def block_data_ambiguous)

text \<open>C18: the Merkle root binds the list of transaction hashes, order and number included: equal
  roots mean equal lists, or two different inputs of SHA-256 computed on the way with one digest.\<close>

theorem merkle_root_binds:
  assumes "calculateMerkleRoot xs = calculateMerkleRoot ys"
  shows "xs = ys \<or> collides hashRaw (merkle_inputs xs) (merkle_inputs ys)"
  using assms by (rule merkle_root_binding)

theorem merkle_root_binds_witness:
  "[''ab'', ''c''] = [''ab'', ''c''] \<or>
     collides hashRaw (merkle_inputs [''ab'', ''c'']) (merkle_inputs [''ab'', ''c''])"
  by (rule merkle_root_binds) (rule refl)

section \<open>Transactions and signatures\<close>

text \<open>The signed text of a valid transaction determines its sender, receiver, amount, timestamp
  and nonce: no two different valid payments share a pre-image.\<close>

lemma valid_transaction_data_unique:
  assumes "tx_valid s" "tx_valid t"
  shows "getTransactionData s = getTransactionData t \<longleftrightarrow> signed_fields s = signed_fields t"
  using assms by (rule valid_data_inject)

lemma valid_transaction_data_unique_witness:
  "getTransactionData reward1 \<noteq> getTransactionData (reward1\<lparr>nonce := nonce reward1 + 1\<rparr>)"
proof -
  have "tx_valid (reward1\<lparr>nonce := nonce reward1 + 1\<rparr>)"
    by (simp add: tx_valid_system isValidAmount_def money_consts)
  then show ?thesis
    using valid_transaction_data_unique [OF reward1_valid] by (simp add: signed_fields_def)
qed

text \<open>What validity means: amounts within the cap, two different non-empty parties, and, unless
  the sender is the mint, a 64-byte signature that verifies under a key hashing to the sender's
  address.\<close>

lemma transaction_validity:
  "tx_valid t \<longleftrightarrow>
     sender t \<noteq> [] \<and> receiver t \<noteq> [] \<and> sender t \<noteq> receiver t \<and> 0 < amount t \<and> amount t \<le> MAX_MONEY \<and>
     (if sender t = ''system'' then True
      else length (signature t) = 128 \<and> verifySignatureByAddress t (sender t))"
  by (auto simp: tx_valid_iff isValidAmount_def)

text \<open>A successful signing keeps the signed fields, attaches the signer's key (its derived address
  is the key pair's) and a full-length signature; the transaction is then valid from that address
  exactly when its signature verifies.\<close>

lemma signing_attaches_key:
  assumes "signTransaction es key t = (True, t', es')"
  shows "signed_fields t' = signed_fields t \<and> length (signature t') = 128 \<and>
    derivedAddressFromKey t' = kp_address (keyPairFromPrivateKey (bytes32ToBigInt key))"
  using signTransaction_success [OF assms] by blast

lemma ec_mult_one: "ec_mult Q 1 = Q"
  by (simp add: ec_mult_def to_binary_string_def binary_digits.simps)

lemma sign_example:
  "\<exists>t' es'. signTransaction [Some (bigIntToBytes32 1)] (bigIntToBytes32 1) reward1 = (True, t', es')"
proof -
  have one: "bytes32ToBigInt (bigIntToBytes32 1) = 1" by (simp add: bytes32ToBigInt_bigIntToBytes32)
  have draw: "randomScalar [Some (bigIntToBytes32 1)] = Inr (1, [])"
    by (simp add: randomScalar_def secureRandomBytes_def ec_sizes one secp_N_def numeral_eq_Suc)
  show ?thesis
    by (simp add: signTransaction_def isValidPrivateKey_def one secp_N_def Let_def keyPairFromPrivateKey_def
        KeyPair_def ec_mult_one signMessage_def signHash_def draw secp_G_def ECPoint_def)
qed

lemma signing_attaches_key_witness:
  "\<exists>t'. signed_fields t' = signed_fields reward1 \<and> length (signature t') = 128 \<and>
     derivedAddressFromKey t' = kp_address (keyPairFromPrivateKey 1)"
proof -
  have one: "bytes32ToBigInt (bigIntToBytes32 1) = 1" by (simp add: bytes32ToBigInt_bigIntToBytes32)
  obtain t' es' where "signTransaction [Some (bigIntToBytes32 1)] (bigIntToBytes32 1) reward1 = (True, t', es')"
    using sign_example by blast
  from signing_attaches_key [OF this] show ?thesis by (auto simp: one)
qed

text \<open>Only canonical signatures are accepted: a zero or out-of-range scalar, a zero or
  out-of-range R coordinate, or a key that does not decompress to a point of the curve is refused.\<close>

lemma non_canonical_signature_refused:
  assumes "bytes32ToBigInt sig \<notin> {1..<secp_P} \<or> bytes32ToBigInt (drop 32 sig) \<notin> {1..<secp_N} \<or>
    is_infinity (decompressPublicKey publicKey) \<or> \<not> on_curve (decompressPublicKey publicKey)"
  shows "\<not> verifySignature hash sig publicKey"
  using verifySignature_canonical [of hash sig publicKey] assms by force

lemma non_canonical_signature_refused_witness:
  "\<not> verifySignature [] (bigIntToBytes32 5 @ bigIntToBytes32 0) small_key"
  by (rule non_canonical_signature_refused) (simp add: bytes32ToBigInt_bigIntToBytes32)

text \<open>A compressed public key that decompresses to a point is the compression of that point, and
  the point lies on the curve.\<close>

lemma public_key_roundtrip:
  assumes "length k = 33" "\<not> is_infinity (decompressPublicKey k)"
  shows "compressPublicKey (decompressPublicKey k) = k \<and> on_curve (decompressPublicKey k)"
  using compress_decompress [OF assms] decompress_on_curve [OF assms(2)] by blast

lemma public_key_roundtrip_witness:
  "compressPublicKey (ECPoint small_x 1 secp_P secp_A secp_B) = small_key \<and>
     on_curve (ECPoint small_x 1 secp_P secp_A secp_B)"
  using public_key_roundtrip [OF small_key_valid] by (simp only: small_key_decompress)

text \<open>Adding two finite points of one curve gives the point at infinity or a point of the same
  curve, when the denominators of the chord and tangent slopes are invertible.\<close>

lemma addition_stays_on_curve:
  assumes "on_curve Q" "\<not> is_infinity Q" "on_curve R" "\<not> is_infinity R"
    and "pp R = pp Q" "pa R = pa Q" "pb R = pb Q" "0 < pp Q"
    and "px Q \<noteq> px R \<Longrightarrow> coprime (px R - px Q) (pp Q)"
    and "Q = R \<Longrightarrow> py Q \<noteq> 0 \<Longrightarrow> coprime (py Q * 2) (pp Q)"
  shows "is_infinity (ec_add Q R) \<or> on_curve (ec_add Q R)"
  using assms by (rule ec_add_on_curve)

lemma addition_stays_on_curve_witness:
  "let Q = ECPoint 1 1 secp_P 0 0; R = ECPoint 0 0 secp_P 0 0
   in is_infinity (ec_add Q R) \<or> on_curve (ec_add Q R)"
  unfolding Let_def
  by (rule addition_stays_on_curve) (simp_all add: on_curve_def ECPoint_def secp_P_def)

text \<open>C19: the reduced points of secp256k1 are a commutative group under \<open>+\<close> with the point at
  infinity as zero, on every branch of the code (equal points, points above each other, chords), and
  the double-and-add loop of \<open>*\<close> computes the repeated sum.\<close>

theorem points_form_group:
  assumes "reduced_point Q" "reduced_point R" "reduced_point S"
  shows "reduced_point (ec_add Q R) \<and> ec_add Q R = ec_add R Q \<and>
    ec_add (ec_add Q R) S = ec_add Q (ec_add R S) \<and> ec_add Q (pointAtInfinity Q) = Q \<and>
    (\<exists>N. reduced_point N \<and> is_infinity (ec_add Q N)) \<and>
    ec_mult Q (int n) = (ec_add Q ^^ n) (pointAtInfinity Q)"
  using reduced_point_group [OF assms] ec_mult_repeated [OF assms(1)] by blast

theorem points_form_group_witness:
  "ec_add (ec_add secp_G secp_G) secp_G = ec_add secp_G (ec_add secp_G secp_G) \<and>
   ec_mult secp_G (int 3) = (ec_add secp_G ^^ 3) (pointAtInfinity secp_G)"
  using points_form_group [OF reduced_generator reduced_generator reduced_generator, of 3] by blast

text \<open>C20: the domain parameters are what the standard claims: the modulus of the field and the order are
  prime, the base point lies on the curve, and two multiples of it are equal exactly when their
  factors agree modulo the order.\<close>

theorem base_point_has_prime_order:
  "prime_int secp_P \<and> prime_int secp_N \<and> reduced_point secp_G \<and> \<not> is_infinity secp_G \<and>
   (ec_mult secp_G (int m) = ec_mult secp_G (int n) \<longleftrightarrow> int m mod secp_N = int n mod secp_N)"
  using secp_P_prime order_prime reduced_generator generator_multiples_eq [of "int m" "int n"]
  by (simp add: secp_order_N secp_G_def)

text \<open>C21: compressed public keys and points are the same thing: \<open>compressPublicKey\<close> maps the finite
  reduced points of the curve one to one onto the 33-byte strings \<open>isValidPublicKey\<close> accepts, and
  \<open>decompressPublicKey\<close> is its inverse.\<close>

theorem public_keys_are_points:
  "bij_betw compressPublicKey {Q. reduced_point Q \<and> \<not> is_infinity Q} {k. length k = 33 \<and> isValidPublicKey k} \<and>
   (reduced_point Q \<and> \<not> is_infinity Q \<longleftrightarrow>
     \<not> is_infinity Q \<and> isValidPublicKey (compressPublicKey Q) \<and> decompressPublicKey (compressPublicKey Q) = Q)"
  using public_keys_bij valid_key_iff by blast

text \<open>C22: a message signed with a private key in range verifies under the public key that belongs to
  it, whatever the generator draws, unless the second half of the signature came out as zero:
  then it never verifies (signing does not draw again).\<close>

theorem signed_message_verifies:
  assumes "signMessage es m d (ec_mult secp_G d) = Inr (sig, es')" "0 < d" "d < secp_N"
  shows "verifyMessageSignature m sig (compressPublicKey (ec_mult secp_G d)) \<longleftrightarrow> bytes32ToBigInt (drop 32 sig) \<noteq> 0"
  using verify_signed_message [OF assms] by (simp add: unlucky_def)

theorem signed_message_verifies_witness:
  "\<exists>sig. verifyMessageSignature ''pay'' sig (compressPublicKey (ec_mult secp_G 1)) \<longleftrightarrow>
     bytes32ToBigInt (drop 32 sig) \<noteq> 0"
proof -
  have "\<not> is_infinity (ec_mult secp_G 1)" by (rule derived_key_finite) (simp_all add: secp_N_def)
  then obtain sig where "signMessage [Some (bigIntToBytes32 1)] ''pay'' 1 (ec_mult secp_G 1) = Inr (sig, [])"
    by (simp add: signMessage_def signHash_def draw_one secp_N_def Let_def)
  from signed_message_verifies [OF this] show ?thesis by (auto simp: secp_N_def)
qed

section \<open>Text and bytes\<close>

text \<open>An amount printed as a decimal coin figure parses back to the same amount.\<close>

lemma amount_format_parse:
  assumes "0 \<le> a" "a \<le> MAX_MONEY"
  shows "parse_amount (format_amount a) = Some a"
  using assms by (rule parse_format_amount)

lemma amount_format_parse_witness: "parse_amount (format_amount 150000001) = Some 150000001"
  by (rule amount_format_parse) (simp_all add: money_consts)

section \<open>Big integers\<close>

text \<open>C23: the magnitude division (one-limb path and Knuth's long division with its trial quotients,
  multiply-and-subtract and add-back) returns the quotient and remainder of the values, without
  leading zero limbs.\<close>

theorem long_division_exact:
  assumes "trimmed a" "trimmed b" "b \<noteq> []"
  shows "mag (fst (divModMagnitude a b)) = mag a div mag b \<and> mag (snd (divModMagnitude a b)) = mag a mod mag b \<and>
    trimmed (fst (divModMagnitude a b)) \<and> trimmed (snd (divModMagnitude a b))"
  using divModMagnitude_correct [OF assms] .

theorem long_division_exact_witness:
  "mag (fst (divModMagnitude [5, 0, 0, 1] [1, 2])) = mag [5, 0, 0, 1] div mag [1, 2]"
  using long_division_exact [of "[5, 0, 0, 1]" "[1, 2]"] by (simp add: trimmed_def)

text \<open>C24: the signed operators refine integer arithmetic: on normalised operands, sums, differences,
  products, floored quotients and remainders and comparisons are those of the values, and results
  are normalised; only a zero divisor is an error.\<close>

theorem bigint_operators_exact:
  assumes "canonical m" "canonical n"
  shows "bigint_val (big_add m n) = bigint_val m + bigint_val n \<and>
    bigint_val (big_sub m n) = bigint_val m - bigint_val n \<and>
    bigint_val (big_mul m n) = bigint_val m * bigint_val n \<and>
    map_sum id bigint_val (big_div m n) =
      (if bigint_val n = 0 then Inl DivisionByZero else Inr (bigint_val m div bigint_val n)) \<and>
    map_sum id bigint_val (big_mod m n) =
      (if bigint_val n = 0 then Inl DivisionByZero else Inr (bigint_val m mod bigint_val n)) \<and>
    (big_less m n \<longleftrightarrow> bigint_val m < bigint_val n) \<and> (big_equal m n \<longleftrightarrow> m = n) \<and>
    (\<forall>r \<in> {big_add m n, big_sub m n, big_mul m n} \<union> {r. big_div m n = Inr r \<or> big_mod m n = Inr r}. canonical r)"
  using big_operators [OF assms] .

theorem bigint_operators_exact_witness:
  "map_sum id bigint_val (big_div (bigint_of_llong (-7)) (bigint_of_llong 2)) = Inr (-4)"
  using bigint_operators_exact [of "bigint_of_llong (-7)" "bigint_of_llong 2"]
  by (simp add: bigint_of_llong_correct in_int64_def int_bounds)

text \<open>C25: the string constructor, which multiplies in chunks of as many digits as fit into a limb,
  computes the same value or error as reading the digits one by one, for every string and base.\<close>

theorem chunked_parse_equivalent:
  "map_sum id bigint_val (big_of_string s base) = bigint_of_string s base"
  by (rule big_of_string_correct)

text \<open>Decimal text determines the number: parsing what \<open>to_string\<close> prints gives back the same
  limbs and sign.\<close>

lemma bigint_text_roundtrip:
  assumes "canonical n"
  shows "big_of_string (big_to_string n) 10 = Inr n"
  using assms by (rule big_of_string_to_string)

lemma bigint_text_roundtrip_witness:
  "big_of_string (big_to_string (bigint_of_llong (-12))) 10 = Inr (bigint_of_llong (-12))"
  by (rule bigint_text_roundtrip) (simp add: bigint_of_llong_correct in_int64_def int_bounds)

text \<open>The loop of \<open>inverse\<close> ends on every input with a positive modulus, without an
  error, and for coprime input the result is the inverse, in the range of the modulus.\<close>

lemma inverse_terminates:
  assumes "canonical a" "canonical m" "0 < bigint_val m"
  shows "\<exists>r. big_inverse a m = Some (Inr r) \<and> canonical r \<and> 0 \<le> bigint_val r \<and> bigint_val r < bigint_val m \<and>
    (coprime (bigint_val a) (bigint_val m) \<longrightarrow>
      bigint_val a * bigint_val r mod bigint_val m = 1 mod bigint_val m)"
  using big_inverse_returns [OF assms] inverse_range [OF assms(3)] inverse_correct [OF _ assms(3)]
  by auto

lemma inverse_terminates_witness:
  "\<exists>r. big_inverse (bigint_of_llong 3) (bigint_of_llong 7) = Some (Inr r) \<and> 3 * bigint_val r mod 7 = 1"
proof -
  have "coprime (3::int) 7" by (simp only: coprime_iff_gcd_eq_1) code_simp
  then show ?thesis
    using inverse_terminates [of "bigint_of_llong 3" "bigint_of_llong 7"]
    by (auto simp: bigint_of_llong_correct in_int64_def int_bounds)
qed

section \<open>The keystore and the wallet\<close>

text \<open>C26: what \<open>encrypt\<close> seals under a password, \<open>decrypt\<close> opens under it, for every
  text, password, iteration count and draw of the generator.\<close>

theorem sealed_text_opens:
  assumes "encrypt es plaintext password iterations = (armored, es')" "armored \<noteq> []"
  shows "decrypt armored password = Some plaintext"
  using assms by (rule decrypt_encrypt)

theorem sealed_text_opens_witness:
  "decrypt (fst (encrypt dice ''secret'' ''pw'' 1000)) ''pw'' = Some ''secret''"
proof -
  obtain armored where "encrypt dice ''secret'' ''pw'' 1000 = (armored, [])" "armored \<noteq> []"
    by (rule encrypt_dice [of 1000]) simp_all
  then show ?thesis using sealed_text_opens by simp
qed

text \<open>C27: tampering shows: two blobs that open under one password with the same salt, iteration count
  and tag hold the same text, or the two tags are computed through different inputs of SHA-256 with
  one digest.\<close>

theorem tag_binds_sealed_text:
  assumes "decrypt a password = Some p" "decrypt b password = Some q"
    and "read_sealed a = Some s" "read_sealed b = Some t"
    and "s_salt s = s_salt t" "s_iterations s = s_iterations t" "s_tag s = s_tag t"
  shows "p = q \<or> collides hashRaw (tag_inputs password s) (tag_inputs password t)"
  using assms by (rule tag_binds_contents)

theorem tag_binds_sealed_text_witness:
  "\<exists>s. read_sealed (fst (encrypt dice ''secret'' ''pw'' 1000)) = Some s \<and>
    (''secret'' = ''secret'' \<or> collides hashRaw (tag_inputs ''pw'' s) (tag_inputs ''pw'' s))"
proof -
  obtain armored where a: "encrypt dice ''secret'' ''pw'' 1000 = (armored, [])" "armored \<noteq> []"
    by (rule encrypt_dice [of 1000]) simp_all
  then have "decrypt armored ''pw'' = Some ''secret''" by (rule decrypt_encrypt)
  then obtain s where "read_sealed armored = Some s" by (auto simp: decrypt_def split: option.splits)
  then show ?thesis
    using a tag_binds_sealed_text [of armored "''pw''" "''secret''" armored "''secret''" s s]
      \<open>decrypt armored ''pw'' = Some ''secret''\<close> by simp
qed

text \<open>C28: a wallet survives a restart: what one session saves under a name and a password, any later
  session that loads that file with that password holds, provided the loader accepts its keys.\<close>

theorem wallet_survives_restart:
  assumes "well_addressed w" "list_all filed (key_pairs w)" "list_all usable (key_pairs w)" "key_pairs w \<noteq> []"
    and "user_wallet p = w" "stdin p = Good (name @ newline # pw @ newline # pw @ newline # rest)"
    and "\<not> isBlank name" "newline \<notin> set name" "newline \<notin> set pw"
    and "fst (wallet_saveToFile (r_can_write r name) (fst (rng p)) pw w)"
    and "files q = files (saveWallet r p)" "stdin q = Good (name @ newline # pw @ newline # rest')"
  shows "user_wallet (loadWallet q) = w"
  using assms by (rule wallet_restart)

theorem wallet_survives_restart_witness:
  "user_wallet (loadWallet (before_mining\<lparr>stdin := Good (''f'' @ newline # ''pw'' @ newline # []),
     files := files (saveWallet reading0 (before_mining\<lparr>user_wallet := wallet1, rng := (dice, 0),
       stdin := Good (''f'' @ newline # ''pw'' @ newline # ''pw'' @ newline # [])\<rparr>))\<rparr>)) = wallet1"
proof (rule wallet_survives_restart [OF wallet1_ok])
  let ?p = "before_mining\<lparr>user_wallet := wallet1, rng := (dice, 0),
    stdin := Good (''f'' @ newline # ''pw'' @ newline # ''pw'' @ newline # [])\<rparr>"
  obtain content where "wallet_saveToFile True dice ''pw'' wallet1 = (True, Some content, [])"
    by (rule wallet_saved)
  then show "fst (wallet_saveToFile (r_can_write reading0 ''f'') (fst (rng ?p)) ''pw'' wallet1)"
    by (simp add: reading0_def)
qed (simp_all add: isBlank_def)

text \<open>C29: the number 0 imports as a private key, and a wallet that holds it saves without complaint
  into a file that does not load: its other keys are lost with it.\<close>

theorem zero_key_locks_wallet:
  assumes "own_step\<^sup>*\<^sup>* empty_wallet w" "importPrivateKey ''0'' w = (ok, w')"
    and "wallet_saveToFile opened es password w' = (True, Some content, es')"
  shows "ok \<and> wallet_loadFromFile (Some content) password d = (False, d)"
  using assms by (rule zero_key_locks)

theorem zero_key_locks_wallet_witness:
  "\<exists>content. wallet_saveToFile True dice ''pw'' (snd (importPrivateKey ''0'' empty_wallet)) = (True, Some content, []) \<and>
     wallet_loadFromFile (Some content) ''pw'' wallet1 = (False, wallet1)"
proof -
  obtain content where
    "wallet_saveToFile True dice ''pw'' (snd (importPrivateKey ''0'' empty_wallet)) = (True, Some content, [])"
    by (rule wallet_saved)
  then show ?thesis
    using zero_key_locks_wallet [of empty_wallet "fst (importPrivateKey ''0'' empty_wallet)"
        "snd (importPrivateKey ''0'' empty_wallet)" True dice "''pw''" content "[]" wallet1] by simp
qed

section \<open>The network\<close>

text \<open>C30: a node that is missing the blocks its peer has catches up by one exchange: if the missing
  blocks satisfy the acceptance rule one after the other, their texts survive the line format of the
  reply, the reply fits into a frame and the allocator grants the transaction counts, then the peer
  answers the block request with that reply, and the rounds of the requesting node (running, with
  nothing of that peer buffered), in whatever pieces the frame of the reply arrives, make its chain the
  peer's chain and its balances the replay of that chain.\<close>

theorem sync_catches_up:
  assumes "chain (ledger sv) = chain (ledger cl) @ bs" "bs \<noteq> []" "chain (ledger cl) \<noteq> []"
    and "extends (ledger cl) bs" "list_all served_clean bs"
    and "\<forall>b \<in> set bs. can_reserve env (length (b_transactions b))" "onNewBlock env = main_onNewBlock"
    and "chain_size sv \<le> int32_max" "to_end < 0 \<or> chain_size sv \<le> to_end + 1" "in_int64 to_end"
    and "in_int64 now" "length (blocks_text bs) \<le> MAX_PAYLOAD_SIZE" "running cl" "reader_is i [] cl"
    and "msg_serialize (blocks_reply now bs) = Inr (concat (map snd arrivals))" "[] \<notin> set (map snd arrivals)"
  shows "handleGetBlocks env' now j (createGetBlocks t (chain_size cl) to_end) sv =
      snd (send_to env' j (blocks_reply now bs) sv) \<and>
    chain (ledger (arrive env addr i arrivals cl)) = chain (ledger sv) \<and>
    balances (ledger (arrive env addr i arrivals cl)) = balances (updateBalances (ledger sv))"
  using exchange_extends(1) [OF assms(1-10)] arriving_reply_extends [OF assms] assms(1)
    balances_current_chain [OF fold_appended_balances [OF assms(2)]]
  by (metis fold_appended_chain)

theorem sync_catches_up_witness:
  "\<exists>frame. msg_serialize (blocks_reply 9 [block1]) = Inr frame \<and>
    handleGetBlocks env0 9 0 (createGetBlocks 8 1 1) (hosting\<lparr>ledger := ledger1\<rparr>) =
      snd (send_to env0 0 (blocks_reply 9 [block1]) (hosting\<lparr>ledger := ledger1\<rparr>)) \<and>
    chain (ledger (arrive env0 ''10.0.0.1:7'' 0 [(10, take 10 frame), (11, drop 10 frame)] hosting)) = [genesis0, block1]"
proof -
  obtain frame where f: "msg_serialize (blocks_reply 9 [block1]) = Inr frame" "19 \<le> length frame"
    by (force simp: msg_serialize_eq blocks_reply_def new_message_def)
  then have "take 10 frame \<noteq> []" "drop 10 frame \<noteq> []" by auto
  then show ?thesis
    using sync_catches_up [of "hosting\<lparr>ledger := ledger1\<rparr>" hosting "[block1]" env0 1 9 0
        "[(10, take 10 frame), (11, drop 10 frame)]" env0 0 8 "''10.0.0.1:7''"]
      block1_extends block1_served hosting_reader f block1_text
    by (simp add: chain_size_def int_bounds in_int64_def)
qed

text \<open>C31: in every state a node reaches, whatever its peers send and the operating system answers, and
  however its threads interleave, the peer table has one entry per address, no two of its peers carry
  the same node id, and no connected peer carries the node's own.  An operation that runs without
  interruption keeps the table within \<open>max_peers\<close>; connections that overlap do not (below).\<close>

theorem peer_table_invariant:
  assumes "node_run env (\<lambda>_. True) (new_node own_id c cfg) st"
  shows "distinct (map fst (peers st)) \<and>
    (\<forall>a i b j. (a, i) \<in> set (peers st) \<longrightarrow> (b, j) \<in> set (peers st) \<longrightarrow> i \<noteq> j \<longrightarrow>
       p_node_id (objs st i) \<noteq> [] \<longrightarrow> p_node_id (objs st i) \<noteq> p_node_id (objs st j)) \<and>
    (\<forall>i. p_state (objs st i) = CONNECTED \<longrightarrow> p_node_id (objs st i) \<noteq> node_id st) \<and>
    (\<forall>now st'. node_step env now st st' \<longrightarrow> length (peers st) \<le> max_peers (config st) \<longrightarrow>
       length (peers st') \<le> max_peers (config st'))"
  using table.run [OF assms new_node_ok] limit.preserved [of env _ st]
  by (simp add: node_ok_def distinct_ids_def not_self_def within_limit_def)

theorem peer_table_invariant_witness:
  "distinct (map fst (peers hosting)) \<and> length (peers (pingPeers env0 2 hosting)) \<le> 25"
proof -
  have "length (peers hosting) \<le> max_peers (config hosting)" "node_step env0 2 hosting (pingPeers env0 2 hosting)"
    by (simp_all add: default_config_def node_step.quiet quiet_step.ping)
  moreover have "config (pingPeers env0 2 hosting) = default_config"
    using configured [OF node_run.one_more [OF hosting_run_any [unfolded idle_def] calculation(2) TrueI]]
    by (simp add: new_node_def)
  ultimately show ?thesis
    using peer_table_invariant [OF hosting_run_any [unfolded idle_def]] by (metis default_config_max)
qed

text \<open>With room for one more, two threads that both passed the check (the listener and one that dials,
  say) enter their connections one after the other, and the table exceeds its limit.\<close>

lemma overlapping_connections_exceed_limit:
  assumes "Suc (length (peers st)) = max_peers (config st)"
    and "p_state p = HANDSHAKING" "p_node_id p = []" "p_state q = HANDSHAKING" "p_node_id q = []"
    and "getAddress p \<noteq> getAddress q" "getAddress p \<notin> fst ` set (peers st)" "getAddress q \<notin> fst ` set (peers st)"
  shows "has_room st \<and> (node_change env now)\<^sup>*\<^sup>* st (make_and_enter q (make_and_enter p st)) \<and>
    max_peers (config st) < length (peers (make_and_enter q (make_and_enter p st)))"
  using overlapping_entries_exceed_limit [OF assms(1,6-8)] make_and_enter_changes [OF assms(2,3), of env now st]
    make_and_enter_changes [OF assms(4,5), of env now "make_and_enter p st"]
  by (auto intro: rtranclp_trans)

lemma overlapping_connections_exceed_limit_witness:
  "\<exists>st. (node_change env0 1)\<^sup>*\<^sup>* (hosting\<lparr>config := default_config\<lparr>max_peers := 2\<rparr>\<rparr>) st \<and>
     max_peers (config st) < length (peers st)"
proof -
  let ?st = "hosting\<lparr>config := default_config\<lparr>max_peers := 2\<rparr>\<rparr>"
  let ?p = "(new_peer 1 6 ''10.0.0.2'' 7)\<lparr>p_state := HANDSHAKING\<rparr>"
  let ?q = "(new_peer 1 8 ''10.0.0.3'' 7)\<lparr>p_state := HANDSHAKING\<rparr>"
  have port: "show_word (7 :: u16) = ''7''" by code_simp
  have "max_peers (config ?st) < length (peers (make_and_enter ?q (make_and_enter ?p ?st)))"
    "(node_change env0 1)\<^sup>*\<^sup>* ?st (make_and_enter ?q (make_and_enter ?p ?st))"
    using overlapping_connections_exceed_limit [of ?st ?p ?q env0 1]
    by (simp_all add: new_peer_def getAddress_def endpoint_def port)
  then show ?thesis by (auto simp: make_and_enter_fields)
qed

text \<open>C32: the sync latch cannot stay on: whatever happened while the clock was at most \<open>T\<close>, the stall
  check run at any time from \<open>T\<close> plus the timeout leaves the node ready to sync again.\<close>

theorem stalled_sync_is_released:
  assumes "node_run env (\<lambda>now. 0 < now \<and> now \<le> T) (new_node own_id c cfg) st"
    and "0 \<le> sync_timeout cfg" "T + sync_timeout cfg \<le> t" "T + sync_timeout cfg \<le> int64_max"
  shows "\<not> syncing (cancelStalledSync t st)"
proof -
  have "config st = cfg"
    using configured [OF assms(1)] by (simp add: new_node_def)
  then show ?thesis
    using assms by (intro stalled_sync_released [OF assms(1)]) (simp_all add: latch_ok_def new_node_def)
qed

theorem stalled_sync_is_released_witness: "\<not> syncing (cancelStalledSync 30001 hosting)"
  by (rule stalled_sync_is_released [OF hosting_run [unfolded idle_def]])
    (simp_all add: default_config_def int_bounds)

text \<open>C33: one iteration of the receiver thread, with its descriptor set, \<open>select\<close> and the scan of the
  answer, is defined and is a sequence of rounds of single peers, the steps of the relation, in every
  state a node reaches with descriptors below \<open>FD_SETSIZE\<close>; the invariants therefore survive it.\<close>

theorem receiver_iteration_is_rounds:
  assumes "node_run env P (new_node own_id c cfg) st"
    and "\<forall>(a, i)\<in>set (peers st). -1 \<le> p_socket (objs st i) \<and> p_socket (objs st i) < int FD_SETSIZE"
  shows "\<exists>st'. receiveMessages env now os_select chunk st = Some st' \<and> (node_step env now)\<^sup>*\<^sup>* st st'"
  using assms by (rule receiver_of_reached)

theorem receiver_iteration_is_rounds_witness:
  "\<exists>st'. receiveMessages env0 2 Some (\<lambda>_. Some (frame_header ask_peers)) hosting = Some st' \<and>
     (node_step env0 2)\<^sup>*\<^sup>* hosting st'"
  by (rule receiver_iteration_is_rounds [OF hosting_run [unfolded idle_def]])
    (simp add: FD_SETSIZE_def new_peer_def)

text \<open>A descriptor of 1024 or more is left out of the set, but its bit is looked up all the same when
  another peer is readable: an access outside the set.\<close>

lemma large_descriptor_overruns_set:
  assumes "running st" "peers st = (a, i) # (b, j) # ps" "1024 \<le> p_socket (objs st i)"
    and "0 \<le> p_socket (objs st j)" "p_socket (objs st j) < 1024"
    and "\<And>read_set. p_socket (objs st j) \<in> set read_set \<Longrightarrow> os_select read_set = Some [p_socket (objs st j)]"
  shows "receiveMessages env now os_select chunk st = None"
  using assms by (intro large_descriptor_undefined) (simp_all add: FD_SETSIZE_def)

text \<open>A connection only moves forward through the states of the handshake, and its socket and
  address never change.\<close>

lemma connection_only_advances:
  assumes "node_run env P st st'" "\<forall>i. p_state (objs st i) \<le> CONNECTED" "i < next_obj st"
  shows "p_state (objs st i) \<le> p_state (objs st' i) \<and> p_state (objs st' i) \<le> CONNECTED \<and>
    p_socket (objs st' i) = p_socket (objs st i) \<and> getAddress (objs st' i) = getAddress (objs st i)"
proof -
  have "node_run env (\<lambda>_. True) st st'" using assms(1) by (rule node_run_any)
  moreover have "advanced st st" using assms(2) by (simp add: advanced_def)
  ultimately have "advanced st st'" by (rule life.run)
  then show ?thesis using assms(3) by (simp add: advanced_def)
qed

lemma connection_only_advances_witness:
  "HANDSHAKING \<le> p_state (objs (pingPeers env0 2 (hosting\<lparr>objs := (\<lambda>_. objs hosting 0)\<rparr>)) 0)"
proof -
  let ?st = "hosting\<lparr>objs := (\<lambda>_. objs hosting 0)\<rparr>"
  have "node_run env0 (\<lambda>_. True) ?st (pingPeers env0 2 ?st)"
    by (rule node_run.one_more [OF node_run.no_step node_step.quiet [OF quiet_step.ping] TrueI])
  then show ?thesis
    using connection_only_advances [of env0 "\<lambda>_. True" ?st "pingPeers env0 2 ?st" 0]
    by (simp add: less_eq_peer_state_def)
qed

text \<open>C34: a round whose backlog, the buffered bytes followed by the received ones, is within
  \<open>MAX_FRAME_SIZE\<close> and holds at most 32 messages handles them all, in their order, each after its
  frame was taken off the stream, and leaves exactly the incomplete rest in the buffer.  Apart from
  what the handlers do, it drops the peer when that rest begins with a framing error and not
  otherwise.\<close>

theorem round_handles_stream:
  assumes "running st" "reader_is i buf st" "length (buf @ received) \<le> MAX_FRAME_SIZE"
    and "parse_stream (buf @ received) = (ms, r)" "length ms \<le> 32"
  shows "receive_round env now addr i (Some received) st =
    (let st' = fold (serve env now i) ms (refill now i received st)
     in if framing_error r then removePeer addr st' else st') \<and>
    p_recv_buffer (objs (receive_round env now addr i (Some received) st) i) = r"
  using round_serves(1,4) [OF assms(1-4)] assms(5) by (simp add: reader_is_def Let_def)

theorem round_handles_stream_witness:
  "receive_round env0 2 ''10.0.0.1:7'' 0 (Some (frame_header ask_peers)) hosting =
    (let st' = serve env0 2 0 ask_peers (refill 2 0 (frame_header ask_peers) hosting)
     in if framing_error [] then removePeer ''10.0.0.1:7'' st' else st') \<and>
    p_recv_buffer (objs (receive_round env0 2 ''10.0.0.1:7'' 0 (Some (frame_header ask_peers)) hosting) 0) = []"
proof (rule round_handles_stream [of hosting 0 "[]" "frame_header ask_peers" "[ask_peers]", unfolded fold_simps])
  show "parse_stream ([] @ frame_header ask_peers) = ([ask_peers], [])"
    using parse_stream_frames [of "[ask_peers]" "[frame_header ask_peers]"] ask_peers_sendable ask_peers_frame
    by simp
qed (simp_all add: hosting_reader MAX_FRAME_SIZE_def frame_consts)

text \<open>C35: a round that finds more than 32 messages handles the first 32, and the 33rd is taken out of
  the buffer without being handled: the stream continues with the 34th.\<close>

theorem message_33_is_lost:
  assumes "running st" "reader_is i buf st" "length (buf @ received) \<le> MAX_FRAME_SIZE"
    and "parse_stream (buf @ received) = (ms, r)" "32 < length ms"
  shows "receive_round env now addr i (Some received) st = fold (serve env now i) (take 32 ms) (refill now i received st) \<and>
    parse_stream (p_recv_buffer (objs (receive_round env now addr i (Some received) st) i)) = (drop 33 ms, r)"
  using round_serves(2) [OF assms(1-4)] round_serves(3) [OF assms(1-4)] assms(5)
  by (auto simp: reader_is_def)

theorem message_33_is_lost_witness:
  "parse_stream (p_recv_buffer (objs (receive_round env0 2 ''10.0.0.1:7'' 0 (Some burst) hosting) 0)) = ([ask_peers], [])"
  using conjunct2 [OF message_33_is_lost [of hosting 0 "[]" burst "replicate 34 ask_peers" "[]" env0 2 "''10.0.0.1:7''"]]
    hosting_reader burst_stream burst_length by simp

text \<open>It does not matter where the network cuts the stream: parsing the first part and then the
  rest behind its unfinished bytes gives the messages of the whole.\<close>

lemma stream_cut_anywhere:
  assumes "list_all2 (\<lambda>m bs. sendable m \<and> msg_serialize m = Inr bs) ms bss" "concat bss = a @ b"
    and "parse_stream a = (ms1, r1)" "parse_stream (r1 @ b) = (ms2, r2)"
  shows "ms = ms1 @ ms2 \<and> r2 = []"
  using parse_stream_frames [OF assms(1)] parse_stream_append [of a b] assms(2-4) by simp

lemma stream_cut_anywhere_witness:
  "fst (parse_stream (frame_header ask_peers)) = [ask_peers]"
proof -
  have "parse_stream [] = ([], [])" using parse_stream_frames [of "[]" "[]"] by simp
  then show ?thesis
    using stream_cut_anywhere [of "[ask_peers]" "[frame_header ask_peers]" "[]" "frame_header ask_peers" "[]" "[]"]
      ask_peers_sendable ask_peers_frame by (cases "parse_stream (frame_header ask_peers)") simp
qed

text \<open>C36: a message survives its frame, whatever follows it in the buffer; and whatever a receiver
  accepts is the frame of the message it reads.\<close>

theorem frame_roundtrip:
  "(sendable m \<and> msg_serialize m = Inr bs \<longrightarrow> msg_deserialize (bs @ rest) = Inr m) \<and>
   (msg_deserialize data = Inr m' \<longrightarrow>
      sendable m' \<and> msg_serialize m' = Inr (take (frame_length data) data))"
  using frame_accepted(1) accepted_is_frame(1,2) by blast

theorem frame_roundtrip_witness: "msg_deserialize (frame_header ask_peers @ [1, 2]) = Inr ask_peers"
  using frame_roundtrip [of ask_peers "frame_header ask_peers" "[1, 2]"] ask_peers_sendable ask_peers_frame by blast

text \<open>C37: a block whose texts are free of the delimiters and whose Merkle root is current is rebuilt
  exactly by the receiver.\<close>

theorem block_wire_roundtrip:
  assumes "block_wire_clean b" "grants (length (b_transactions b))"
  shows "block_deserialize grants (block_serialize b) = Inr b"
  using assms by (rule block_serialize_roundtrip)

theorem block_wire_roundtrip_witness: "block_deserialize (\<lambda>n. n < 10) (block_serialize block1) = Inr block1"
  by (rule block_wire_roundtrip) (use block1_served in \<open>simp_all add: served_clean_def\<close>)

text \<open>C38: whatever bytes a peer sends as a block, a deserialised block has its integers in range, a
  Merkle root computed from its own transactions, and no more transactions than the allocator granted.\<close>

theorem received_block_typed:
  assumes "block_deserialize grants data = Inr b"
  shows "in_int32 (b_index b) \<and> in_int64 (b_timestamp b) \<and> in_int32 (b_difficulty b) \<and> in_int32 (b_nonce b) \<and>
    b_merkle_root b = tx_root (b_transactions b) \<and> grants (length (b_transactions b)) \<and>
    (\<forall>t \<in> set (b_transactions b). in_int64 (amount t) \<and> in_int64 (timestamp t))"
  using block_deserialize_typed [OF assms] by (simp add: root_current_def list_all_iff)

theorem received_block_typed_witness: "b_merkle_root block1 = tx_root [reward1]"
  using received_block_typed [OF block_serialize_roundtrip [of block1 "\<lambda>_. True"]] block1_served
  by (simp add: served_clean_def)

text \<open>C39: a gossiped block reaches the ledger at most once, as long as the node announces no block of its
  own (which may evict hashes from the cache, and which the command line program never does): a
  \<open>NEW_BLOCK\<close> message hands its block over only if the hash was not known, and whatever operations
  and changes of its threads follow, a later one that carries the same hash changes nothing.  The
  blocks of a sync reply do not pass this filter.\<close>

theorem block_handed_over_once:
  assumes "block_deserialize (can_reserve env) (msg_payload m) = Inr b"
    and "quiet_run env (handleNewBlock env now i m st) st'"
    and "block_deserialize (can_reserve env) (msg_payload m') = Inr b'" "b_hash b' = b_hash b"
  shows "ledger (handleNewBlock env now i m st) =
      (if b_hash b \<in> set (known_blocks st) then ledger st else onNewBlock env b (ledger st)) \<and>
    handleNewBlock env now' i' m' st' = st'"
  using new_block_once(1) [OF assms(1)] handed_over_once [OF assms] by blast

theorem block_handed_over_once_witness:
  "let m = createNewBlock 1 (block_serialize block1); st = pingPeers env0 3 (handleNewBlock env0 2 0 m hosting)
   in handleNewBlock env0 4 0 m st = st"
proof -
  have b: "block_deserialize (can_reserve env0) (msg_payload (createNewBlock 1 (block_serialize block1))) = Inr block1"
    using block_serialize_roundtrip [of block1 "can_reserve env0"] block1_served
    by (simp add: served_clean_def createNewBlock_def new_message_def)
  show ?thesis
    using block_handed_over_once [OF b quiet_run.operation [OF quiet_run.silence quiet_step.ping] b refl]
    by (simp add: Let_def)
qed

text \<open>C40: the recorded hash is the one the sender claims, before any check: a worthless block that
  claims the hash of a good one, unknown so far, makes the node ignore the good one; for two blocks
  whose texts survive the line format and whose transaction counts the allocator grants.\<close>

theorem claimed_hash_keeps_block_out:
  assumes "served_clean bad" "served_clean good" "b_hash bad = b_hash good"
    and "can_reserve env (length (b_transactions bad))" "can_reserve env (length (b_transactions good))"
    and "b_hash good \<notin> set (known_blocks st)" "chain (ledger st) \<noteq> []" "onNewBlock env = main_onNewBlock"
    and "\<not> acceptable (ledger st) bad"
  shows "ledger (handleNewBlock env now' i' (createNewBlock t' (block_serialize good))
           (handleNewBlock env now i (createNewBlock t (block_serialize bad)) st)) = ledger st"
  using claimed_hash_suppresses [OF assms] .

theorem claimed_hash_keeps_block_out_witness:
  "ledger (handleNewBlock env0 3 0 (createNewBlock 3 (block_serialize block1))
     (handleNewBlock env0 2 0 (createNewBlock 2 (block_serialize bogus1)) (hosting\<lparr>known_blocks := []\<rparr>))) = ledger0"
  using claimed_hash_keeps_block_out [OF bogus1_served block1_served, of env0 "hosting\<lparr>known_blocks := []\<rparr>" 3 0 3 2 0 2]
    bogus1_refused by (simp add: bogus1_def)

end
